(* ===== verification/Prelude.thy ===== *)
theory Prelude
  imports Main "HOL-Library.Word"
begin

text \<open>
  Shared vocabulary of the development: the machine integer types of the Rust code, the
  result type of its fallible functions, a few generic facts about lists, counts and words
  that several components use, and the named collections the component proofs draw on.
\<close>

unbundle bit_operations_syntax

section \<open>Machine integers\<close>

text \<open>
  The code runs on 64-bit Linux, so \<open>usize\<close> is 64 bits wide. Lengths and indices of
  in-memory vectors are bounded by memory and are modelled as \<open>nat\<close>; values that are
  cast, masked, shifted or stored keep their width.
\<close>

type_synonym u8 = "8 word"
type_synonym u32 = "32 word"
type_synonym u64 = "64 word"
type_synonym i32 = "32 word"
type_synonym usize = nat

abbreviation usize_MAX :: nat where
  "usize_MAX \<equiv> 18446744073709551615"

abbreviation u32_MAX :: u32 where
  "u32_MAX \<equiv> 0xFFFFFFFF"

text \<open>\<open>Result<T, E>\<close> is the sum type, with the error on the left.\<close>

abbreviation Ok :: "'a \<Rightarrow> 'e + 'a" where
  "Ok \<equiv> Inr"

abbreviation Err :: "'e \<Rightarrow> 'e + 'a" where
  "Err \<equiv> Inl"

fun is_ok :: "'e + 'a \<Rightarrow> bool" where
  "is_ok (Inl e) = False"
| "is_ok (Inr x) = True"

lemma is_ok_iff: "is_ok r \<longleftrightarrow> (\<exists>x. r = Ok x)"
  by (cases r) auto

text \<open>\<open>Option::unwrap_or\<close>.\<close>

fun unwrap_or :: "'a option \<Rightarrow> 'a \<Rightarrow> 'a" where
  "unwrap_or None d = d"
| "unwrap_or (Some x) d = x"

section \<open>Fact collections\<close>

named_theorems model_defs \<open>definitions of the model to unfold when a concrete input is evaluated\<close>
named_theorems count_simps \<open>how an operation changes the number of samples of each pid\<close>

section \<open>Lists\<close>

lemma length_filter_list_update:
  assumes "i < length xs"
  shows "length (filter P (xs[i := x])) + (if P (xs ! i) then 1 else 0)
       = length (filter P xs) + (if P x then 1 else 0)"
proof -
  have xs: "xs = take i xs @ xs ! i # drop (Suc i) xs"
    using assms by (rule id_take_nth_drop)
  have upd: "xs[i := x] = take i xs @ x # drop (Suc i) xs"
    using assms by (rule upd_conv_take_nth_drop)
  have "length (filter P xs) = length (filter P (take i xs @ xs ! i # drop (Suc i) xs))"
    using xs by simp
  with upd show ?thesis by simp
qed

lemma length_filter_list_update_less:
  assumes "i < length xs" and "P (xs ! i)" and "\<not> P x"
  shows "Suc (length (filter P (xs[i := x]))) = length (filter P xs)"
  using length_filter_list_update [of i xs P x] assms by simp

lemma takeWhile_filter_sorted:
  assumes "sorted (map f xs)" and "\<forall>x \<in> set xs. v \<le> f x"
  shows "takeWhile (\<lambda>x. f x = v) xs = filter (\<lambda>x. f x = v) xs"
  using assms
proof (induction xs)
  case Nil
  then show ?case by simp
next
  case (Cons a xs)
  show ?case
  proof (cases "f a = v")
    case True
    with Cons show ?thesis by simp
  next
    case False
    with Cons.prems have "v < f a" by auto
    with Cons.prems have "\<forall>x \<in> set xs. f x \<noteq> v" by auto
    with False show ?thesis by (simp add: filter_empty_conv)
  qed
qed

lemma count_list_append_single [count_simps]:
  "count_list (xs @ [x]) y = count_list xs y + (if x = y then 1 else 0)"
  by simp

lemma sum_list_map_count_le:
  "count_list xs a \<le> length xs"
  by (induction xs) auto

section \<open>Words\<close>

lemma unat_ucast_u32_u64 [simp]: "unat (ucast (a :: u32) :: u64) = unat a"
  using unsigned_less [of a, where ?'a = nat] by (simp add: unsigned_ucast_eq take_bit_nat_eq_self)

lemma unat_ucast_u8_u64 [simp]: "unat (ucast (a :: u8) :: u64) = unat a"
  using unsigned_less [of a, where ?'a = nat] by (simp add: unsigned_ucast_eq take_bit_nat_eq_self)

lemma unat_of_nat_u32: "n < 4294967296 \<Longrightarrow> unat (of_nat n :: u32) = n"
  by (simp add: unat_of_nat)

lemma unat_of_nat_u64: "n < 18446744073709551616 \<Longrightarrow> unat (of_nat n :: u64) = n"
  by (simp add: unat_of_nat)

text \<open>Arithmetic on words that stays inside the width, read on the numbers.\<close>

named_theorems in_range \<open>word operations that do not wrap, as operations on nat\<close>

lemma unat_mult_in_range [in_range]:
  "unat a * unat b < 18446744073709551616 \<Longrightarrow> unat (a * b :: u64) = unat a * unat b"
  by (simp add: unat_word_ariths)

lemma unat_add_in_range [in_range]:
  "unat a + unat b < 18446744073709551616 \<Longrightarrow> unat (a + b :: u64) = unat a + unat b"
  by (simp add: unat_word_ariths)

lemma unat_sub_in_range [in_range]:
  "b \<le> a \<Longrightarrow> unat (a - b :: u64) = unat a - unat b"
  by (simp add: unat_sub)

lemma unat_div_mod_drop [in_range]:
  "unat (a div b :: u64) = unat a div unat b"
  "unat (a mod b :: u64) = unat a mod unat b"
  "unat (drop_bit n a) = unat a div 2 ^ n"
  by (simp_all add: unat_div_distrib unat_mod_distrib unat_drop_bit_eq drop_bit_eq_div [of n "unat a"])

lemma unat_u64_less: "unat (a :: u64) < 18446744073709551616"
  using unsigned_less [of a, where ?'a = nat] by simp

end
