(* ===== verification/Intf.thy ===== *)
theory Intf
  imports Prelude
begin

text \<open>
  The constants of \<open>enum mlfq_consts\<close> in \<open>src/scx/src/bpf/intf.h\<close>, which the Rust side
  reads through bindgen, and the read-only data section of the BPF object that the Rust side
  fills before the object is loaded. The collection \<open>const_defs\<close> holds their values.
\<close>

named_theorems const_defs \<open>the values of the constants of intf.h\<close>

section \<open>Constants\<close>

definition NSEC_PER_USEC :: u64 where
  [const_defs]: "NSEC_PER_USEC = 1000"

definition NSEC_PER_MSEC :: u64 where
  [const_defs]: "NSEC_PER_MSEC = 1000 * NSEC_PER_USEC"

definition NSEC_PER_SEC :: u64 where
  [const_defs]: "NSEC_PER_SEC = 1000 * NSEC_PER_MSEC"

definition MLFQ_Q1_SLICE_NS :: u64 where
  [const_defs]: "MLFQ_Q1_SLICE_NS = 1 * NSEC_PER_MSEC"

definition MLFQ_Q2_SLICE_NS :: u64 where
  [const_defs]: "MLFQ_Q2_SLICE_NS = 2 * NSEC_PER_MSEC"

definition MLFQ_Q3_SLICE_NS :: u64 where
  [const_defs]: "MLFQ_Q3_SLICE_NS = 4 * NSEC_PER_MSEC"

definition MLFQ_BUDGET_MAX_NS :: u64 where
  [const_defs]: "MLFQ_BUDGET_MAX_NS = 6 * NSEC_PER_MSEC"

definition MLFQ_ALPHA :: u64 where
  [const_defs]: "MLFQ_ALPHA = 3072"

definition MLFQ_T_L_NS :: u64 where
  [const_defs]: "MLFQ_T_L_NS = 250 * NSEC_PER_USEC"

definition MLFQ_T_H_NS :: u64 where
  [const_defs]: "MLFQ_T_H_NS = 2 * NSEC_PER_MSEC"

definition MLFQ_EMA_HALF_LIFE_NS :: u64 where
  [const_defs]: "MLFQ_EMA_HALF_LIFE_NS = 24 * NSEC_PER_MSEC"

definition MLFQ_AGING_PERIOD_NS :: u64 where
  [const_defs]: "MLFQ_AGING_PERIOD_NS = 1 * NSEC_PER_SEC"

definition MLFQ_SHORT_SLEEP_NS :: u64 where
  [const_defs]: "MLFQ_SHORT_SLEEP_NS = 32 * NSEC_PER_MSEC"

definition MLFQ_SHORT_SLEEP_RATE_LIMIT_NS :: u64 where
  [const_defs]: "MLFQ_SHORT_SLEEP_RATE_LIMIT_NS = 2 * NSEC_PER_MSEC"

definition MLFQ_HYSTERESIS_SLEEP_NS :: u64 where
  [const_defs]: "MLFQ_HYSTERESIS_SLEEP_NS = 4 * NSEC_PER_MSEC"

definition MLFQ_LONG_SLEEP_NS :: u64 where
  [const_defs]: "MLFQ_LONG_SLEEP_NS = 120 * NSEC_PER_MSEC"

definition MLFQ_SAMEQ_PREEMPT_MIN_RUN_NS :: u64 where
  [const_defs]: "MLFQ_SAMEQ_PREEMPT_MIN_RUN_NS = 0"

definition MLFQ_PREEMPT_SLICE_NS :: u64 where
  [const_defs]: "MLFQ_PREEMPT_SLICE_NS = 150 * NSEC_PER_USEC"

definition MLFQ_Q1_QUOTA :: u32 where
  [const_defs]: "MLFQ_Q1_QUOTA = 4"

definition MLFQ_Q2_QUOTA :: u32 where
  [const_defs]: "MLFQ_Q2_QUOTA = 8"

definition MLFQ_DISPATCH_MAX_BATCH :: u32 where
  [const_defs]: "MLFQ_DISPATCH_MAX_BATCH = 32"

definition MLFQ_RTDL_DRAIN_INTERVAL_NS :: u64 where
  [const_defs]: "MLFQ_RTDL_DRAIN_INTERVAL_NS = 1 * NSEC_PER_MSEC"

definition MLFQ_TREE_T_INT_NS :: u64 where
  [const_defs]: "MLFQ_TREE_T_INT_NS = 1 * NSEC_PER_MSEC"

definition MLFQ_TREE_T_BOUND_NS :: u64 where
  [const_defs]: "MLFQ_TREE_T_BOUND_NS = 3 * NSEC_PER_MSEC"

definition MLFQ_MAX_CPUS :: nat where
  [const_defs]: "MLFQ_MAX_CPUS = 1024"

definition MLFQ_MAX_LLCS :: nat where
  [const_defs]: "MLFQ_MAX_LLCS = 32"

definition MLFQ_LLC_SCAN_MAX :: nat where
  [const_defs]: "MLFQ_LLC_SCAN_MAX = 32"

definition MLFQ_MAX_LLC_CPUS :: nat where
  [const_defs]: "MLFQ_MAX_LLC_CPUS = MLFQ_LLC_SCAN_MAX"

definition MLFQ_BITMAP_WORDS :: nat where
  [const_defs]: "MLFQ_BITMAP_WORDS = (MLFQ_MAX_CPUS + 63) div 64"

definition MLFQ_TREE_MAX_NODES :: nat where
  [const_defs]: "MLFQ_TREE_MAX_NODES = 2048"

definition MLFQ_TREE_MAX_DEPTH :: nat where
  [const_defs]: "MLFQ_TREE_MAX_DEPTH = 12"

definition MLFQ_TREE_NR_FEATURES :: nat where
  [const_defs]: "MLFQ_TREE_NR_FEATURES = 9"

definition MLFQ_TREE_SAMPLE_VERSION :: u32 where
  [const_defs]: "MLFQ_TREE_SAMPLE_VERSION = 4"

definition MLFQ_TREE_MIN_SAMPLES :: nat where
  [const_defs]: "MLFQ_TREE_MIN_SAMPLES = 2048"

section \<open>Constants of the scheduler itself\<close>

text \<open>
  The constants only the BPF side uses. The flag bits are those of \<open>enum mlfq_task_flags\<close>
  and of \<open>task_ctx.wake_cpu_state\<close>, which are one byte wide.
\<close>

definition FP_SHIFT :: nat where
  [const_defs]: "FP_SHIFT = 8"

definition FP_ONE :: u64 where
  [const_defs]: "FP_ONE = push_bit FP_SHIFT 1"

definition MLFQ_TICK_NS :: u64 where
  [const_defs]: "MLFQ_TICK_NS = 1 * NSEC_PER_MSEC"

definition MLFQ_SQ_EMA_MAX_NS :: u64 where
  [const_defs]: "MLFQ_SQ_EMA_MAX_NS = 16 * NSEC_PER_MSEC"

definition MLFQ_SYS_LAT_MAX_NS :: u64 where
  [const_defs]: "MLFQ_SYS_LAT_MAX_NS = 16 * NSEC_PER_MSEC"

definition MLFQ_SYS_GAUGE_HALF_LIFE_NS :: u64 where
  [const_defs]: "MLFQ_SYS_GAUGE_HALF_LIFE_NS = 1 * NSEC_PER_SEC"

definition MLFQ_SYS_RATE_MAX :: u64 where
  [const_defs]: "MLFQ_SYS_RATE_MAX = 1000000"

definition MLFQ_SYS_RATE_WINDOW_MAX_NS :: u64 where
  [const_defs]: "MLFQ_SYS_RATE_WINDOW_MAX_NS = 60 * NSEC_PER_SEC"

definition MLFQ_SCHED_IDLE :: u32 where
  [const_defs]: "MLFQ_SCHED_IDLE = 5"

definition MLFQ_STEAL_SCAN_MAX :: u64 where
  [const_defs]: "MLFQ_STEAL_SCAN_MAX = 64"

definition MLFQ_CPUPERF_Q1 :: u64 where
  [const_defs]: "MLFQ_CPUPERF_Q1 = 1024"

definition MLFQ_NR_QUEUES :: u64 where
  [const_defs]: "MLFQ_NR_QUEUES = 3"

definition MLFQ_DSQ_BASE :: u64 where
  [const_defs]: "MLFQ_DSQ_BASE = 0x1000"

definition MLFQ_DSQ_STRIDE :: u64 where
  [const_defs]: "MLFQ_DSQ_STRIDE = MLFQ_NR_QUEUES"

definition MLFQ_ADAPT_MIN_INTERVAL_NS :: u64 where
  [const_defs]: "MLFQ_ADAPT_MIN_INTERVAL_NS = 1 * NSEC_PER_SEC"

definition MLFQ_ADAPT_TARGET_LAT_NS :: u64 where
  [const_defs]: "MLFQ_ADAPT_TARGET_LAT_NS = 1 * NSEC_PER_MSEC"

definition MLFQ_ADAPT_K :: u64 where
  [const_defs]: "MLFQ_ADAPT_K = FP_ONE div 2"

definition MLFQ_ADAPT_MAX_SHIFT :: u64 where
  [const_defs]: "MLFQ_ADAPT_MAX_SHIFT = FP_ONE div 2"

definition MLFQ_ADAPT_MAX_STEP :: u64 where
  [const_defs]: "MLFQ_ADAPT_MAX_STEP = FP_ONE div 10"

definition MLFQ_ADAPT_T_L_FLOOR_NS :: u64 where
  [const_defs]: "MLFQ_ADAPT_T_L_FLOOR_NS = 150 * NSEC_PER_USEC"

definition MLFQ_ADAPT_T_L_CEIL_NS :: u64 where
  [const_defs]: "MLFQ_ADAPT_T_L_CEIL_NS = 500 * NSEC_PER_USEC"

definition MLFQ_ADAPT_T_H_FLOOR_NS :: u64 where
  [const_defs]: "MLFQ_ADAPT_T_H_FLOOR_NS = 1200 * NSEC_PER_USEC"

definition MLFQ_ADAPT_T_H_CEIL_NS :: u64 where
  [const_defs]: "MLFQ_ADAPT_T_H_CEIL_NS = 3200 * NSEC_PER_USEC"

definition MLFQ_ADAPT_T_INT_FLOOR_NS :: u64 where
  [const_defs]: "MLFQ_ADAPT_T_INT_FLOOR_NS = 600 * NSEC_PER_USEC"

definition MLFQ_ADAPT_T_INT_CEIL_NS :: u64 where
  [const_defs]: "MLFQ_ADAPT_T_INT_CEIL_NS = 1600 * NSEC_PER_USEC"

definition MLFQ_ADAPT_T_BND_FLOOR_NS :: u64 where
  [const_defs]: "MLFQ_ADAPT_T_BND_FLOOR_NS = 1800 * NSEC_PER_USEC"

definition MLFQ_ADAPT_T_BND_CEIL_NS :: u64 where
  [const_defs]: "MLFQ_ADAPT_T_BND_CEIL_NS = 4800 * NSEC_PER_USEC"

definition MLFQ_ADAPT_RATE_GATE_HIGH :: u64 where
  [const_defs]: "MLFQ_ADAPT_RATE_GATE_HIGH = push_bit FP_SHIFT 200000"

definition MLFQ_ADAPT_RATE_GATE_SHIFT :: u64 where
  [const_defs]: "MLFQ_ADAPT_RATE_GATE_SHIFT = FP_ONE div 4"

definition MLFQ_TREE_SAMPLE_RATE_LIMIT_NS :: u64 where
  [const_defs]: "MLFQ_TREE_SAMPLE_RATE_LIMIT_NS = 500 * NSEC_PER_USEC"

definition MLFQ_TREE_PER_TASK_LIMIT_NS :: u64 where
  [const_defs]: "MLFQ_TREE_PER_TASK_LIMIT_NS = 10 * NSEC_PER_MSEC"

definition MLFQ_TREE_LABEL_MAX_NS :: u64 where
  [const_defs]: "MLFQ_TREE_LABEL_MAX_NS = MLFQ_TREE_T_BOUND_NS * 64"

definition MLFQ_TF_FIRST_RUN :: u8 where
  [const_defs]: "MLFQ_TF_FIRST_RUN = push_bit 0 1"

definition MLFQ_TF_ENQ_WAKEUP :: u8 where
  [const_defs]: "MLFQ_TF_ENQ_WAKEUP = push_bit 1 1"

definition MLFQ_TF_DRM_WAKE :: u8 where
  [const_defs]: "MLFQ_TF_DRM_WAKE = push_bit 2 1"

definition MLFQ_LLC_UNOWNED :: u8 where
  [const_defs]: "MLFQ_LLC_UNOWNED = 0xFF"

definition MLFQ_WAKE_CPU_IDLE :: u8 where
  [const_defs]: "MLFQ_WAKE_CPU_IDLE = 0x01"

definition MLFQ_WAKE_CPU_VALID :: u8 where
  [const_defs]: "MLFQ_WAKE_CPU_VALID = 0x02"

definition MLFQ_OP_LAT_EDGE_2 :: u64 where
  [const_defs]: "MLFQ_OP_LAT_EDGE_2 = 2"

definition MLFQ_OP_LAT_EDGE_5 :: u64 where
  [const_defs]: "MLFQ_OP_LAT_EDGE_5 = 5"

definition MLFQ_OP_LAT_EDGE_10 :: u64 where
  [const_defs]: "MLFQ_OP_LAT_EDGE_10 = 10"

definition MLFQ_OP_LAT_EDGE_20 :: u64 where
  [const_defs]: "MLFQ_OP_LAT_EDGE_20 = 20"

definition MLFQ_OP_LAT_EDGE_50 :: u64 where
  [const_defs]: "MLFQ_OP_LAT_EDGE_50 = 50"

definition MLFQ_OP_LAT_EDGE_100 :: u64 where
  [const_defs]: "MLFQ_OP_LAT_EDGE_100 = 100"

definition MLFQ_OP_LAT_EDGE_250 :: u64 where
  [const_defs]: "MLFQ_OP_LAT_EDGE_250 = 250"

definition MLFQ_OP_LAT_STOPPING :: nat where
  [const_defs]: "MLFQ_OP_LAT_STOPPING = 0"

definition MLFQ_OP_LAT_DISPATCH :: nat where
  [const_defs]: "MLFQ_OP_LAT_DISPATCH = 1"

definition MLFQ_OP_LAT_ENQUEUE :: nat where
  [const_defs]: "MLFQ_OP_LAT_ENQUEUE = 2"

definition MLFQ_OP_LAT_CPU_RELEASE :: nat where
  [const_defs]: "MLFQ_OP_LAT_CPU_RELEASE = 3"

definition MLFQ_STEER_LLC_MAX :: nat where
  [const_defs]: "MLFQ_STEER_LLC_MAX = 4"

definition MLFQ_GPU_TRACE_AMDGPU_CS :: u32 where
  [const_defs]: "MLFQ_GPU_TRACE_AMDGPU_CS = push_bit 0 1"

definition MLFQ_GPU_TRACE_AMDGPU_CS_IOCTL :: u32 where
  [const_defs]: "MLFQ_GPU_TRACE_AMDGPU_CS_IOCTL = push_bit 1 1"

definition MLFQ_GPU_TRACE_GPU_SCHED :: u32 where
  [const_defs]: "MLFQ_GPU_TRACE_GPU_SCHED = push_bit 2 1"

section \<open>The read-only data section\<close>

text \<open>
  The \<open>const volatile\<close> globals of \<open>main.bpf.c\<close>: the scheduling constants and the topology
  tables. Arrays have the length their declaration gives them.
\<close>

record rodata =
  mlfq_q1_slice_ns :: u64
  mlfq_q2_slice_ns :: u64
  mlfq_q3_slice_ns :: u64
  mlfq_budget_max_ns :: u64
  mlfq_alpha :: u64
  mlfq_t_l_ns :: u64
  mlfq_t_h_ns :: u64
  mlfq_ema_half_life_ns :: u64
  mlfq_aging_period_ns :: u64
  mlfq_short_sleep_ns :: u64
  mlfq_short_sleep_rate_limit_ns :: u64
  mlfq_hysteresis_sleep_ns :: u64
  mlfq_long_sleep_ns :: u64
  mlfq_sameq_preempt_min_run_ns :: u64
  mlfq_preempt_slice_ns :: u64
  mlfq_q1_quota :: u32
  mlfq_q2_quota :: u32
  mlfq_dispatch_max_batch :: u32
  mlfq_rtdl_drain_interval_ns :: u64
  mlfq_tree_t_int_ns :: u64
  mlfq_tree_t_bound_ns :: u64
  mlfq_adapt_enabled :: bool
  mlfq_primary_all :: bool
  mlfq_nr_llcs :: u32
  mlfq_llc_has_primary :: "u8 list"
  mlfq_cpu_llc :: "u32 list"
  mlfq_idle_tracking :: u32
  mlfq_smt_on :: bool
  mlfq_cpu_sibling :: "u32 list"
  mlfq_cpu_core :: "u32 list"
  mlfq_llc_largest :: u32

end
