(* ===== verification/Tree.thy ===== *)
theory Tree
  imports Intf
begin

text \<open>
  The data of \<open>src/scx/src/mlfq_tree.rs\<close>: feature vectors, training samples, tree nodes and
  the committed-tree meta word, with the pure helpers on them. \<open>tree_feats\<close>, \<open>tree_sample\<close>
  and \<open>tree_node\<close> are the \<open>repr(C)\<close> structs \<open>TreeFeats\<close>, \<open>TreeSample\<close> and \<open>TreeNode\<close>; a
  \<open>SerializedTree\<close> is its node vector.
\<close>

section \<open>Structures\<close>

record tree_feats =
  prev_burst_ns :: u64
  sleep_ns :: u64
  ema :: u64
  io_wait :: u32
  wake_cnt :: u32
  wake_lat_us :: u32
  queue_wait_us :: u32
  sq_ema :: u64
  sleep_var_ratio :: u32
  feats_pad :: u32
  gpu_submit :: u32
  feats_pad2 :: u32

definition feats_default :: tree_feats where
  "feats_default = \<lparr>prev_burst_ns = 0, sleep_ns = 0, ema = 0, io_wait = 0, wake_cnt = 0,
     wake_lat_us = 0, queue_wait_us = 0, sq_ema = 0, sleep_var_ratio = 0, feats_pad = 0,
     gpu_submit = 0, feats_pad2 = 0\<rparr>"

record tree_sample =
  pid :: u32
  sample_queue :: u32
  feats :: tree_feats
  label_ns :: u64
  version :: u32

record tree_node =
  threshold :: u64
  left :: u32
  right :: u32
  feature :: u8
  node_pad :: "u8 list"

definition node_default :: tree_node where
  "node_default = \<lparr>threshold = 0, left = 0, right = 0, feature = 0, node_pad = replicate 7 0\<rparr>"

type_synonym serialized_tree = "tree_node list"

text \<open>A node with \<open>right = 0\<close> is a leaf, whose \<open>left\<close> field carries the prediction.\<close>

definition is_leaf :: "tree_node \<Rightarrow> bool" where
  "is_leaf n \<longleftrightarrow> right n = 0"

section \<open>Features\<close>

definition feat_value :: "tree_feats \<Rightarrow> u8 \<Rightarrow> u64" where
  "feat_value f i =
     (if i = 0 then prev_burst_ns f
      else if i = 1 then sleep_ns f
      else if i = 2 then ema f
      else if i = 3 then ucast (io_wait f)
      else if i = 4 then ucast (wake_cnt f)
      else if i = 5 then ucast (wake_lat_us f)
      else if i = 6 then ucast (queue_wait_us f)
      else if i = 7 then sq_ema f
      else if i = 8 then ucast (gpu_submit f)
      else if i = 9 then ucast (sleep_var_ratio f)
      else 0)"

text \<open>The 16-slot array \<open>feat\<close> the walk indexes.\<close>

definition feat_slots :: "tree_feats \<Rightarrow> u64 list" where
  "feat_slots f =
     [prev_burst_ns f, sleep_ns f, ema f, ucast (io_wait f), ucast (wake_cnt f),
      ucast (wake_lat_us f), ucast (queue_wait_us f), sq_ema f, ucast (gpu_submit f),
      ucast (sleep_var_ratio f), 0, 0, 0, 0, 0, 0]"

text \<open>The fit's feature accessor and the walk's slot array agree on every masked feature id.\<close>

lemma u8_below_16_cases:
  fixes i :: u8
  assumes "unat i < 16"
  shows "i \<in> {0, 1, 2, 3, 4, 5, 6, 7, 8, 9, 10, 11, 12, 13, 14, 15}"
proof -
  have "unat i = 0 \<or> unat i = 1 \<or> unat i = 2 \<or> unat i = 3 \<or> unat i = 4 \<or> unat i = 5
    \<or> unat i = 6 \<or> unat i = 7 \<or> unat i = 8 \<or> unat i = 9 \<or> unat i = 10 \<or> unat i = 11
    \<or> unat i = 12 \<or> unat i = 13 \<or> unat i = 14 \<or> unat i = 15"
    using assms by arith
  then show ?thesis
    by (elim disjE) (simp_all add: word_unat_eq_iff)
qed

lemma feat_slots_nth: "unat i < 16 \<Longrightarrow> feat_slots f ! unat i = feat_value f i"
  using u8_below_16_cases [of i] by (auto simp: feat_slots_def feat_value_def)

text \<open>\<open>v + (w - v) / 2\<close>: the midpoint of two distinct values, without overflow.\<close>

definition midpoint :: "u64 \<Rightarrow> u64 \<Rightarrow> u64" where
  "midpoint v w = v + (w - v) div 2"

lemma unat_midpoint:
  assumes "v < w"
  shows "unat (midpoint v w) = unat v + (unat w - unat v) div 2"
proof -
  have vw: "unat v < unat w" using assms by (simp add: word_less_nat_alt)
  have "unat (w - v) = unat w - unat v"
    using vw by (simp add: unat_sub word_le_nat_alt)
  moreover have "unat w < 18446744073709551616"
    using unsigned_less [of w, where ?'a = nat] by simp
  ultimately show ?thesis
    using vw by (simp add: midpoint_def unat_word_ariths unat_div)
qed

lemma midpoint_bounds:
  assumes "v < w"
  shows "v \<le> midpoint v w" and "midpoint v w < w"
  using unat_midpoint [OF assms] assms by (simp_all add: word_le_nat_alt word_less_nat_alt)

section \<open>Versions and the committed-tree meta word\<close>

definition sample_version_matches :: "tree_sample \<Rightarrow> bool" where
  "sample_version_matches s \<longleftrightarrow> version s = MLFQ_TREE_SAMPLE_VERSION"

definition MLFQ_TREE_META_TRAINED :: u64 where
  "MLFQ_TREE_META_TRAINED = 1"

definition MLFQ_TREE_META_ACTIVE :: u64 where
  "MLFQ_TREE_META_ACTIVE = push_bit 1 1"

text \<open>\<open>nr_nodes as u64\<close> of a length, which fits in 64 bits.\<close>

definition tree_meta :: "u64 \<Rightarrow> nat \<Rightarrow> u64 \<Rightarrow> u64" where
  "tree_meta generation nr_nodes active =
     push_bit 32 (generation AND 0xFFFFFFFF)
       OR push_bit 8 (of_nat nr_nodes)
       OR push_bit 1 (active AND 1)
       OR MLFQ_TREE_META_TRAINED"

text \<open>The fields as the layout comment of \<open>intf.h\<close> gives them.\<close>

definition meta_trained :: "u64 \<Rightarrow> bool" where
  "meta_trained m \<longleftrightarrow> m AND MLFQ_TREE_META_TRAINED \<noteq> 0"

definition meta_active :: "u64 \<Rightarrow> u64" where
  "meta_active m = drop_bit 1 m AND 1"

definition meta_nr_nodes :: "u64 \<Rightarrow> u64" where
  "meta_nr_nodes m = drop_bit 8 (m AND 0xFFFFFF00)"

definition meta_generation :: "u64 \<Rightarrow> u64" where
  "meta_generation m = drop_bit 32 m"

text \<open>The masks of the two sides as truncations, so that bits can be compared one by one.\<close>

lemma and_u32_mask: "x AND 0xFFFFFFFF = take_bit 32 (x :: u64)"
  by (simp add: take_bit_eq_mask mask_eq_exp_minus_1)

lemma and_one_mask: "x AND 1 = take_bit 1 (x :: u64)"
  by (simp add: take_bit_eq_mask mask_eq_exp_minus_1)

lemma drop_bit_and_push_bit: "drop_bit n (x AND push_bit n m) = drop_bit n x AND drop_bit n (push_bit n (m :: u64))"
  by (rule bit_word_eqI) (auto simp: bit_simps)

lemma meta_nr_nodes_take: "meta_nr_nodes m = take_bit 24 (drop_bit 8 m)"
proof -
  have "(0xFFFFFF00 :: u64) = push_bit 8 0xFFFFFF" by (simp add: push_bit_eq_mult)
  then have "meta_nr_nodes m = drop_bit 8 m AND drop_bit 8 (push_bit 8 0xFFFFFF)"
    by (simp only: meta_nr_nodes_def drop_bit_and_push_bit)
  then show ?thesis by (simp add: take_bit_eq_mask mask_eq_exp_minus_1)
qed

lemma bit_u64_small:
  assumes "bit (n :: u64) k" and "unat n < 2 ^ m"
  shows "k < m"
proof (rule ccontr)
  assume "\<not> k < m"
  with assms(2) have "unat n < 2 ^ k"
    by (meson less_le_trans not_less one_le_numeral power_increasing)
  then have "\<not> bit (unat n) k" by (simp add: bit_iff_odd)
  with assms(1) show False by (simp add: bit_unsigned_iff)
qed

lemma meta_word_fields:
  fixes g n a :: u64
  assumes "unat n < 2 ^ 24"
  defines "m \<equiv> push_bit 32 (take_bit 32 g) OR push_bit 8 n OR push_bit 1 (take_bit 1 a) OR (1 :: u64)"
  shows "take_bit 24 (drop_bit 8 m) = n"
    and "drop_bit 32 m = take_bit 32 g"
    and "take_bit 1 (drop_bit 1 m) = take_bit 1 a"
    and "bit m 0"
proof -
  have n: "k < 24" if "bit n k" for k
    using bit_u64_small [OF that assms(1)] .
  show "take_bit 24 (drop_bit 8 m) = n"
    unfolding m_def
    by (rule bit_word_eqI) (auto simp: bit_simps simp del: push_bit_Suc One_nat_def dest: n)
  show "drop_bit 32 m = take_bit 32 g"
    unfolding m_def
    by (rule bit_word_eqI) (auto simp: bit_simps simp del: push_bit_Suc One_nat_def dest: n)
  show "take_bit 1 (drop_bit 1 m) = take_bit 1 a"
    unfolding m_def
    by (rule bit_word_eqI) (auto simp: bit_simps simp del: push_bit_Suc One_nat_def dest: n)
  show "bit m 0"
    unfolding m_def by (simp add: bit_simps)
qed

lemma take_bit_one_nonzero:
  assumes "bit (m :: u64) 0"
  shows "take_bit 1 m \<noteq> 0"
proof
  assume "take_bit 1 m = 0"
  moreover have "bit (take_bit 1 m) 0" using assms by (simp only: bit_take_bit_iff) simp
  ultimately show False by simp
qed

text \<open>
  The meta word a publish writes decodes, by the layout of \<open>intf.h\<close>, to a set trained
  bit, the active buffer index, the node count and the generation reduced to 32 bits, for
  every node count that fits the 24-bit field.
\<close>

theorem tree_meta_roundtrip:
  assumes "nr_nodes < 2 ^ 24"
  shows "meta_trained (tree_meta generation nr_nodes active)
    \<and> meta_active (tree_meta generation nr_nodes active) = active AND 1
    \<and> meta_nr_nodes (tree_meta generation nr_nodes active) = of_nat nr_nodes
    \<and> meta_generation (tree_meta generation nr_nodes active) = take_bit 32 generation"
proof -
  have n: "unat (of_nat nr_nodes :: u64) < 2 ^ 24"
    using assms by (simp add: unat_of_nat)
  note f = meta_word_fields [OF n, of generation active]
  have m: "tree_meta generation nr_nodes active
    = push_bit 32 (take_bit 32 generation) OR push_bit 8 (of_nat nr_nodes)
        OR push_bit 1 (take_bit 1 active) OR 1"
    by (simp only: tree_meta_def MLFQ_TREE_META_TRAINED_def and_u32_mask and_one_mask)
  show ?thesis
    unfolding meta_trained_def meta_active_def meta_nr_nodes_take meta_generation_def m
      and_one_mask MLFQ_TREE_META_TRAINED_def
    using f(1-3) take_bit_one_nonzero [OF f(4)] by blast
qed

theorem tree_meta_roundtrip_witness:
  "(3 :: nat) < 2 ^ 24 \<and> meta_nr_nodes (tree_meta 7 3 1) = 3 \<and> meta_active (tree_meta 7 3 1) = 1"
  using tree_meta_roundtrip [of 3 7 1] by simp

end
