(* ===== verification/F64.thy ===== *)
theory F64
  imports Prelude
begin

text \<open>
  The binary64 arithmetic of Rust's \<open>f64\<close>, executable over integers. A value is a NaN, a
  signed infinity, or a sign, a significand \<open>m\<close> and an exponent \<open>e\<close> standing for
  \<open>m * 2 ^ e\<close>. Computed values are canonical, as the bit patterns of IEEE 754 are: the
  significand has 53 bits, or the exponent is -1074 (subnormals and the two zeros). Each
  operation computes the exact result, or enough of it and a sticky bit, and rounds to
  nearest, ties to even, with gradual underflow and overflow to infinity. \<open>powf\<close> has no
  specified precision in Rust, so it is a parameter of the definitions that use it.

  What the clients of this theory rely on is the order of the non-NaN values: the locale
  \<open>float_cmp\<close> states it, and the model's comparison interprets it.
\<close>

section \<open>Values\<close>

datatype f64 = F_NaN | F_Inf bool | F_Num bool int int

fun is_nan :: "f64 \<Rightarrow> bool" where
  "is_nan F_NaN = True"
| "is_nan (F_Inf s) = False"
| "is_nan (F_Num s m e) = False"

text \<open>Neither a NaN nor an infinity.\<close>

fun is_finite :: "f64 \<Rightarrow> bool" where
  "is_finite F_NaN = False"
| "is_finite (F_Inf s) = False"
| "is_finite (F_Num s m e) = True"

definition f_zero :: f64 where
  "f_zero = F_Num False 0 (- 1074)"

text \<open>The canonical significand and exponent of a bit pattern.\<close>

definition canonical_mag :: "int \<Rightarrow> int \<Rightarrow> bool" where
  "canonical_mag m e \<longleftrightarrow> 0 \<le> m \<and> m < 2 ^ 53 \<and> - 1074 \<le> e \<and> e \<le> 971
     \<and> (2 ^ 52 \<le> m \<or> e = - 1074)"

fun canonical :: "f64 \<Rightarrow> bool" where
  "canonical F_NaN = True"
| "canonical (F_Inf s) = True"
| "canonical (F_Num s m e) = canonical_mag m e"

section \<open>Rounding\<close>

text \<open>The number of bits of a non-negative integer, and shifts by a signed amount.\<close>

function bits :: "int \<Rightarrow> int" where
  "bits n = (if n \<le> 0 then 0 else 1 + bits (n div 2))"
  by pat_completeness auto
termination
  by (relation "measure nat") auto

declare bits.simps [simp del]

definition shl :: "int \<Rightarrow> int \<Rightarrow> int" where
  "shl m k = m * 2 ^ nat k"

definition shr :: "int \<Rightarrow> int \<Rightarrow> int" where
  "shr m k = m div 2 ^ nat k"

text \<open>\<open>m / 2 ^ k\<close>, rounded half to even.\<close>

definition shr_rne :: "int \<Rightarrow> int \<Rightarrow> int" where
  "shr_rne m k =
     (let q = m div 2 ^ nat k; r = m mod 2 ^ nat k; h = 2 ^ nat (k - 1)
      in if h < r \<or> r = h \<and> odd q then q + 1 else q)"

text \<open>
  The rounded value of \<open>(-1)^s * m * 2 ^ e\<close> for an integer \<open>m \<ge> 0\<close>: shift so that the
  significand has 53 bits and the exponent is at least -1074, renormalise a carry out of
  the rounding, and overflow to infinity beyond the exponent 971.
\<close>

definition f_pack :: "bool \<Rightarrow> int \<Rightarrow> int \<Rightarrow> f64" where
  "f_pack s m e =
     (if m \<le> 0 then F_Num s 0 (- 1074)
      else let k = max (bits m - 53) (- 1074 - e);
               q = (if k \<le> 0 then shl m (- k) else shr_rne m k);
               (m', e') = (if q = 2 ^ 53 then (2 ^ 52, e + k + 1) else (q, e + k))
           in if 971 < e' then F_Inf s else F_Num s m' e')"

section \<open>Arithmetic\<close>

fun f_neg :: "f64 \<Rightarrow> f64" where
  "f_neg F_NaN = F_NaN"
| "f_neg (F_Inf s) = F_Inf (\<not> s)"
| "f_neg (F_Num s m e) = F_Num (\<not> s) m e"

text \<open>
  Addition aligns the significands at the smaller exponent. An exact zero is positive,
  unless both operands are negative (zeros).
\<close>

fun f_add :: "f64 \<Rightarrow> f64 \<Rightarrow> f64" where
  "f_add F_NaN y = F_NaN"
| "f_add x F_NaN = F_NaN"
| "f_add (F_Inf s) (F_Inf t) = (if s = t then F_Inf s else F_NaN)"
| "f_add (F_Inf s) (F_Num t m e) = F_Inf s"
| "f_add (F_Num s m e) (F_Inf t) = F_Inf t"
| "f_add (F_Num s m1 e1) (F_Num t m2 e2) =
     (let e = min e1 e2;
          a = (if s then - shl m1 (e1 - e) else shl m1 (e1 - e));
          b = (if t then - shl m2 (e2 - e) else shl m2 (e2 - e));
          c = a + b
      in if c = 0 then F_Num (s \<and> t) 0 (- 1074) else f_pack (c < 0) \<bar>c\<bar> e)"

definition f_sub :: "f64 \<Rightarrow> f64 \<Rightarrow> f64" where
  "f_sub x y = f_add x (f_neg y)"

fun f_mul :: "f64 \<Rightarrow> f64 \<Rightarrow> f64" where
  "f_mul F_NaN y = F_NaN"
| "f_mul x F_NaN = F_NaN"
| "f_mul (F_Inf s) (F_Inf t) = F_Inf (s \<noteq> t)"
| "f_mul (F_Inf s) (F_Num t m e) = (if m = 0 then F_NaN else F_Inf (s \<noteq> t))"
| "f_mul (F_Num s m e) (F_Inf t) = (if m = 0 then F_NaN else F_Inf (s \<noteq> t))"
| "f_mul (F_Num s m1 e1) (F_Num t m2 e2) = f_pack (s \<noteq> t) (m1 * m2) (e1 + e2)"

text \<open>
  Division keeps at least 55 bits of the quotient and one sticky bit for the remainder,
  which is enough for the rounding to see on which side of a tie the exact quotient is.
\<close>

fun f_div :: "f64 \<Rightarrow> f64 \<Rightarrow> f64" where
  "f_div F_NaN y = F_NaN"
| "f_div x F_NaN = F_NaN"
| "f_div (F_Inf s) (F_Inf t) = F_NaN"
| "f_div (F_Inf s) (F_Num t m e) = F_Inf (s \<noteq> t)"
| "f_div (F_Num s m e) (F_Inf t) = F_Num (s \<noteq> t) 0 (- 1074)"
| "f_div (F_Num s m1 e1) (F_Num t m2 e2) =
     (if m2 = 0 then (if m1 = 0 then F_NaN else F_Inf (s \<noteq> t))
      else let k = max 0 (56 + bits m2 - bits m1);
               n = shl m1 k
           in f_pack (s \<noteq> t) (2 * (n div m2) + (if n mod m2 = 0 then 0 else 1))
                (e1 - e2 - k - 1))"

text \<open>Integer square root, and the rounded square root with a sticky bit.\<close>

function isqrt :: "int \<Rightarrow> int" where
  "isqrt n = (if n \<le> 1 then (if n = 1 then 1 else 0)
              else let r = 2 * isqrt (n div 4) in if (r + 1) * (r + 1) \<le> n then r + 1 else r)"
  by pat_completeness auto
termination
  by (relation "measure nat") auto

declare isqrt.simps [simp del]

fun f_sqrt :: "f64 \<Rightarrow> f64" where
  "f_sqrt F_NaN = F_NaN"
| "f_sqrt (F_Inf s) = (if s then F_NaN else F_Inf False)"
| "f_sqrt (F_Num s m e) =
     (if m = 0 then F_Num s m e else if s then F_NaN
      else let k = max 0 (112 - bits m);
               k' = (if even (e - k) then k else k + 1);
               n = shl m k';
               r = isqrt n
           in f_pack False (2 * r + (if r * r = n then 0 else 1)) ((e - k') div 2 - 1))"

section \<open>Comparison\<close>

text \<open>
  The non-NaN values in order, as keys that compare lexicographically: infinities outermost,
  then the sign, then the magnitude, which for canonical values is the order of the exponent
  and then of the significand (reversed for negative numbers). Both zeros have one key, as
  they are equal for \<open>==\<close>; a NaN compares with nothing.
\<close>

fun f_key :: "f64 \<Rightarrow> int \<times> int \<times> int" where
  "f_key F_NaN = (0, 0, 0)"
| "f_key (F_Inf s) = (if s then - 2 else 2, 0, 0)"
| "f_key (F_Num s m e) =
     (if m = 0 then (0, 0, 0) else if s then (- 1, - e, - m) else (1, e, m))"

definition key_lt :: "int \<times> int \<times> int \<Rightarrow> int \<times> int \<times> int \<Rightarrow> bool" where
  "key_lt x y \<longleftrightarrow> (case (x, y) of ((a, b, c), (a', b', c')) \<Rightarrow>
     a < a' \<or> a = a' \<and> (b < b' \<or> b = b' \<and> c < c'))"

definition f_lt :: "f64 \<Rightarrow> f64 \<Rightarrow> bool" where
  "f_lt x y \<longleftrightarrow> \<not> is_nan x \<and> \<not> is_nan y \<and> key_lt (f_key x) (f_key y)"

definition f_eq :: "f64 \<Rightarrow> f64 \<Rightarrow> bool" where
  "f_eq x y \<longleftrightarrow> \<not> is_nan x \<and> \<not> is_nan y \<and> f_key x = f_key y"

definition f_le :: "f64 \<Rightarrow> f64 \<Rightarrow> bool" where
  "f_le x y \<longleftrightarrow> f_lt x y \<or> f_eq x y"

section \<open>Conversions\<close>

text \<open>\<open>n as f64\<close> of an unsigned integer.\<close>

definition f_of_nat :: "nat \<Rightarrow> f64" where
  "f_of_nat n = f_pack False (int n) 0"

definition f_of_u64 :: "u64 \<Rightarrow> f64" where
  "f_of_u64 w = f_pack False (uint w) 0"

text \<open>\<open>x as u64\<close>: truncation, saturating at both ends, with NaN read as 0.\<close>

definition sat_u64 :: "int \<Rightarrow> u64" where
  "sat_u64 n = (if n < 0 then 0 else if 18446744073709551615 < n then - 1 else word_of_int n)"

fun f_to_u64 :: "f64 \<Rightarrow> u64" where
  "f_to_u64 F_NaN = 0"
| "f_to_u64 (F_Inf s) = (if s then 0 else - 1)"
| "f_to_u64 (F_Num s m e) =
     (if s then 0 else sat_u64 (if 0 \<le> e then shl m e else shr m (- e)))"

text \<open>\<open>x.round()\<close>: to the nearest integer, ties away from zero.\<close>

fun f_round :: "f64 \<Rightarrow> f64" where
  "f_round F_NaN = F_NaN"
| "f_round (F_Inf s) = F_Inf s"
| "f_round (F_Num s m e) =
     (if 0 \<le> e then F_Num s m e else f_pack s (shr (m + shl 1 (- e - 1)) (- e)) 0)"

section \<open>The order of the comparable values\<close>

text \<open>
  What a search for a largest value needs of a comparison in which some values (the NaNs)
  compare with nothing: it is a strict weak order on the others.
\<close>

locale float_cmp =
  fixes lt :: "'a \<Rightarrow> 'a \<Rightarrow> bool"
    and nan :: "'a \<Rightarrow> bool"
  assumes lt_irrefl: "\<not> lt a a"
    and lt_trans: "lt a b \<Longrightarrow> lt b c \<Longrightarrow> lt a c"
    and lt_comparable: "lt a b \<Longrightarrow> \<not> nan a \<and> \<not> nan b"
    and lt_weak: "lt a b \<Longrightarrow> \<not> nan c \<Longrightarrow> lt a c \<or> lt c b"
begin

lemma lt_asym: "lt a b \<Longrightarrow> \<not> lt b a"
  using lt_irrefl lt_trans by blast

lemma not_lt_trans: "\<not> lt a b \<Longrightarrow> lt c b \<Longrightarrow> \<not> nan a \<Longrightarrow> lt c a"
  using lt_weak by blast

end

lemma key_lt_irrefl: "\<not> key_lt x x"
  by (auto simp: key_lt_def split: prod.splits)

lemma key_lt_trans: "key_lt x y \<Longrightarrow> key_lt y z \<Longrightarrow> key_lt x z"
  by (auto simp: key_lt_def split: prod.splits)

lemma key_lt_weak: "key_lt x y \<Longrightarrow> key_lt x z \<or> key_lt z y"
  by (auto simp: key_lt_def split: prod.splits)

lemma key_lt_total: "key_lt x y \<or> x = y \<or> key_lt y x"
  by (auto simp: key_lt_def split: prod.splits)

interpretation f64_cmp: float_cmp f_lt is_nan
  by unfold_locales
    (use key_lt_irrefl in \<open>auto simp: f_lt_def intro: key_lt_trans dest: key_lt_weak\<close>)

text \<open>On the comparable values \<open><=\<close> is the complement of \<open>>\<close>; a NaN satisfies neither.\<close>

lemma f_le_iff: "f_le x y \<longleftrightarrow> \<not> is_nan x \<and> \<not> is_nan y \<and> \<not> f_lt y x"
  unfolding f_le_def f_lt_def f_eq_def
  by (metis key_lt_irrefl key_lt_total key_lt_trans)

lemma f_lt_imp_le: "f_lt x y \<Longrightarrow> f_le x y"
  by (simp add: f_le_def)

lemma f_le_lt_trans: "f_le x y \<Longrightarrow> f_lt y z \<Longrightarrow> f_lt x z"
  unfolding f_le_def f_lt_def f_eq_def by (auto intro: key_lt_trans)

lemma f_lt_nan [simp]: "\<not> f_lt F_NaN y" "\<not> f_lt x F_NaN" "\<not> f_le F_NaN y" "\<not> f_le x F_NaN"
  by (auto simp: f_lt_def f_le_def f_eq_def)

text \<open>The definitions to unfold when an expression over numerals is evaluated.\<close>

lemmas f64_eval =
  f_of_nat_def f_of_u64_def f_pack_def bits.simps shl_def shr_def shr_rne_def isqrt.simps
  f_lt_def f_le_def f_eq_def key_lt_def f_sub_def sat_u64_def f_zero_def Let_def

end
