(* ===== verification/TreeFit.thy ===== *)
theory TreeFit
  imports Tree F64 "HOL-Library.Multiset"
begin

text \<open>
  The CART fit of \<open>src/scx/src/mlfq_tree.rs\<close>: recency weights, the sweep for the best split of
  a node (\<open>best_split\<close> and its variant with a scratch buffer), and the breadth-first growth
  (\<open>fit_with_scratch\<close>, \<open>fit\<close>). The scratch arena is threaded through as the code threads it.
  All sums are binary64 in the order in which the code adds; \<open>powf\<close> is a parameter.
\<close>

section \<open>Weighted samples\<close>

type_synonym weighted_sample = "tree_sample \<times> f64"
type_synonym totals = "f64 \<times> f64 \<times> f64"
type_synonym split_cand = "u8 \<times> u64 \<times> f64"
type_synonym powf = "f64 \<Rightarrow> f64 \<Rightarrow> f64"

definition f_two :: f64 where
  "f_two = F_Num False 4503599627370496 (- 51)"

text \<open>\<open>1e-3\<close> and \<open>1e-12\<close> as the compiler rounds them.\<close>

definition DEFAULT_MIN_REL_VAR_REDUCTION :: f64 where
  "DEFAULT_MIN_REL_VAR_REDUCTION = F_Num False 4611686018427388 (- 62)"

definition SSE_NOISE_FLOOR :: f64 where
  "SSE_NOISE_FLOOR = F_Num False 4951760157141521 (- 92)"

definition sample_weight :: "powf \<Rightarrow> nat \<Rightarrow> nat \<Rightarrow> f64" where
  "sample_weight powf n i =
     (let half_life = f_div (f_of_nat n) f_two
      in powf f_two (f_div (f_neg (f_of_nat (n - i))) half_life))"

definition sample_weights :: "powf \<Rightarrow> nat \<Rightarrow> f64 list" where
  "sample_weights powf n = map (sample_weight powf n) [0..<n]"

text \<open>\<open>sample_weights_into\<close> clears the buffer and pushes one weight per index.\<close>

definition sample_weights_into :: "powf \<Rightarrow> nat \<Rightarrow> f64 list \<Rightarrow> f64 list" where
  "sample_weights_into powf n out =
     (let cleared = take 0 out
      in foldl (\<lambda>out i. out @ [sample_weight powf n i]) cleared [0..<n])"

text \<open>One weighted label added to the three running sums.\<close>

fun absorb :: "totals \<Rightarrow> weighted_sample \<Rightarrow> totals" where
  "absorb (sw, swy, swy2) (s, w) =
     (let y = f_of_u64 (label_ns s)
      in (f_add sw w, f_add swy (f_mul w y), f_add swy2 (f_mul (f_mul w y) y)))"

definition label_totals :: "weighted_sample list \<Rightarrow> totals" where
  "label_totals samples = foldl absorb (f_zero, f_zero, f_zero) samples"

definition sample_value :: "u8 \<Rightarrow> weighted_sample \<Rightarrow> u64" where
  "sample_value fid s = feat_value (feats (fst s)) fid"

fun partition :: "weighted_sample list \<Rightarrow> u8 \<Rightarrow> u64 \<Rightarrow> weighted_sample list \<times> weighted_sample list" where
  "partition [] fid thr = ([], [])"
| "partition (s # samples) fid thr =
     (let (l, r) = partition samples fid thr
      in if sample_value fid s \<le> thr then (s # l, r) else (l, s # r))"

definition leaf_prediction :: "u64 \<Rightarrow> u32" where
  "leaf_prediction mean_ns = ucast (min mean_ns (ucast u32_MAX))"

section \<open>The best split\<close>

text \<open>
  What a sweep keeps fixed: the number of samples of the node, the leaf minimum, the sum of
  squared errors of the node, the reduction a split must exceed, and the totals.
\<close>

record sweep_ctx =
  ctx_n :: nat
  ctx_min_leaf :: nat
  ctx_sse :: f64
  ctx_min_reduction :: f64
  ctx_totals :: totals

definition split_reduction :: "sweep_ctx \<Rightarrow> totals \<Rightarrow> f64" where
  "split_reduction c acc =
     (let (total_w, total_wy, total_wy2) = ctx_totals c;
          (sw_l, swy_l, swy2_l) = acc;
          sse_l = f_sub swy2_l (f_div (f_mul swy_l swy_l) sw_l);
          sw_r = f_sub total_w sw_l;
          swy_r = f_sub total_wy swy_l;
          swy2_r = f_sub total_wy2 swy2_l;
          sse_r = f_sub swy2_r (f_div (f_mul swy_r swy_r) sw_r)
      in f_sub (f_sub (ctx_sse c) sse_l) sse_r)"

text \<open>The replacement of the best candidate: strictly better ones only.\<close>

fun keep_better :: "split_cand option \<Rightarrow> split_cand \<Rightarrow> split_cand option" where
  "keep_better None c = Some c"
| "keep_better (Some (f, t, r)) (f', t', r') = (if f_lt r r' then Some (f', t', r') else Some (f, t, r))"

text \<open>The candidate after the group of value \<open>v\<close>; \<open>rest\<close> are the samples from index \<open>j\<close> on.\<close>

definition try_split ::
  "sweep_ctx \<Rightarrow> u8 \<Rightarrow> nat \<Rightarrow> u64 \<Rightarrow> weighted_sample list \<Rightarrow> totals \<Rightarrow> split_cand option \<Rightarrow> split_cand option" where
  "try_split c fid j v rest acc best =
     (if ctx_min_leaf c \<le> j \<and> ctx_min_leaf c \<le> ctx_n c - j \<and> rest \<noteq> []
      then let thr = midpoint v (sample_value fid (hd rest));
               reduction = split_reduction c acc
           in if f_lt (ctx_min_reduction c) reduction
              then keep_better best (fid, thr, reduction) else best
      else best)"

text \<open>The \<open>while i < n\<close> loop over the groups of equal values, on the samples from index \<open>i\<close> on.\<close>

function sweep ::
  "sweep_ctx \<Rightarrow> u8 \<Rightarrow> weighted_sample list \<Rightarrow> nat \<Rightarrow> totals \<Rightarrow> split_cand option \<Rightarrow> split_cand option" where
  "sweep c fid [] i acc best = best"
| "sweep c fid (s # xs) i acc best =
     (let v = sample_value fid s;
          grp = takeWhile (\<lambda>x. sample_value fid x = v) (s # xs);
          rest = dropWhile (\<lambda>x. sample_value fid x = v) (s # xs);
          acc' = foldl absorb acc grp;
          j = i + length grp
      in sweep c fid rest j acc' (try_split c fid j v rest acc' best))"
  by pat_completeness auto
termination
  by (relation "measure (\<lambda>(c, fid, xs, i, acc, best). length xs)")
    (auto simp: less_Suc_eq_le length_dropWhile_le)

definition sweep_feature ::
  "sweep_ctx \<Rightarrow> u8 \<Rightarrow> weighted_sample list \<Rightarrow> split_cand option \<Rightarrow> split_cand option" where
  "sweep_feature c fid xs best = sweep c fid xs 0 (f_zero, f_zero, f_zero) best"

definition node_ctx :: "weighted_sample list \<Rightarrow> nat \<Rightarrow> f64 \<Rightarrow> f64 \<Rightarrow> sweep_ctx" where
  "node_ctx samples min_samples_leaf sse min_rel_var_reduction =
     \<lparr>ctx_n = length samples, ctx_min_leaf = min_samples_leaf, ctx_sse = sse,
      ctx_min_reduction = f_mul sse min_rel_var_reduction, ctx_totals = label_totals samples\<rparr>"

definition best_split :: "weighted_sample list \<Rightarrow> nat \<Rightarrow> f64 \<Rightarrow> f64 \<Rightarrow> (u8 \<times> u64) option" where
  "best_split samples min_samples_leaf sse min_rel_var_reduction =
     (let c = node_ctx samples min_samples_leaf sse min_rel_var_reduction;
          best = foldl (\<lambda>best fid.
                    let xs = sort_key (sample_value (of_nat fid)) samples
                    in sweep_feature c (of_nat fid) xs best)
                  None [0..<MLFQ_TREE_NR_FEATURES]
      in map_option (\<lambda>(f, t, r). (f, t)) best)"

text \<open>The variant with a buffer: each feature clears it, fills it with the samples and sorts it.\<close>

definition best_split_with_scratch ::
  "weighted_sample list \<Rightarrow> nat \<Rightarrow> f64 \<Rightarrow> f64 \<Rightarrow> weighted_sample list
    \<Rightarrow> (u8 \<times> u64) option \<times> weighted_sample list" where
  "best_split_with_scratch samples min_samples_leaf sse min_rel_var_reduction scratch =
     (let c = node_ctx samples min_samples_leaf sse min_rel_var_reduction;
          (best, scratch') = foldl (\<lambda>(best, scratch) fid.
                    let scratch1 = take 0 scratch @ samples;
                        scratch2 = sort_key (sample_value (of_nat fid)) scratch1
                    in (sweep_feature c (of_nat fid) scratch2 best, scratch2))
                  (None, scratch) [0..<MLFQ_TREE_NR_FEATURES]
      in (map_option (\<lambda>(f, t, r). (f, t)) best, scratch'))"

section \<open>Growth\<close>

record node_spec =
  spec_idx :: nat
  spec_samples :: "weighted_sample list"
  spec_depth :: nat

record fit_scratch =
  fs_weights :: "f64 list"
  fs_sorted :: "weighted_sample list"
  fs_left :: "weighted_sample list"
  fs_right :: "weighted_sample list"
  fs_nodes :: "tree_node list"
  fs_queue :: "node_spec list"
  fs_preds :: "u64 list"
  fs_actuals :: "u64 list"
  fs_ema_preds :: "u64 list"
  fs_weights_full :: "f64 list"

definition fit_scratch_new :: fit_scratch where
  "fit_scratch_new = \<lparr>fs_weights = [], fs_sorted = [], fs_left = [], fs_right = [], fs_nodes = [],
     fs_queue = [], fs_preds = [], fs_actuals = [], fs_ema_preds = [], fs_weights_full = []\<rparr>"

record fit_params =
  max_depth :: nat
  min_samples_leaf :: nat
  max_nodes :: nat
  min_rel_var_reduction :: f64

text \<open>Whether the growth limits and the noise floor let a popped node be split.\<close>

definition node_sse :: "weighted_sample list \<Rightarrow> f64" where
  "node_sse samples =
     (let (sw, swy, swy2) = label_totals samples in f_sub swy2 (f_div (f_mul swy swy) sw))"

definition splittable :: "fit_params \<Rightarrow> node_spec \<Rightarrow> nat \<Rightarrow> bool" where
  "splittable p spec nr_nodes =
     (let (sw, swy, swy2) = label_totals (spec_samples spec)
      in spec_depth spec < max_depth p
       \<and> 2 * min_samples_leaf p \<le> length (spec_samples spec)
       \<and> nr_nodes + 2 \<le> max_nodes p
       \<and> f_lt (f_mul SSE_NOISE_FLOOR swy2) (node_sse (spec_samples spec)))"

definition leaf_node :: "weighted_sample list \<Rightarrow> tree_node" where
  "leaf_node samples =
     (let (sw, swy, swy2) = label_totals samples
      in \<lparr>threshold = 0, left = leaf_prediction (f_to_u64 (f_div swy sw)), right = 0,
          feature = 0, node_pad = replicate 7 0\<rparr>)"

definition split_node :: "u8 \<Rightarrow> u64 \<Rightarrow> u32 \<Rightarrow> tree_node" where
  "split_node f t left_idx =
     \<lparr>threshold = t, left = left_idx, right = left_idx + 1, feature = f, node_pad = replicate 7 0\<rparr>"

definition node_split ::
  "fit_params \<Rightarrow> node_spec \<Rightarrow> nat \<Rightarrow> weighted_sample list \<Rightarrow> (u8 \<times> u64) option \<times> weighted_sample list" where
  "node_split p spec nr_nodes srt =
     (if splittable p spec nr_nodes
      then best_split_with_scratch (spec_samples spec) (min_samples_leaf p)
             (node_sse (spec_samples spec)) (min_rel_var_reduction p) srt
      else (None, srt))"

text \<open>
  The body of the growth loop on the popped \<open>spec\<close>. The \<open>left\<close> and \<open>right\<close> buffers are
  cleared, filled and swapped with empty vectors, which go into the queue.
\<close>

definition grow_step ::
  "fit_params \<Rightarrow> node_spec \<Rightarrow> fit_scratch \<Rightarrow> fit_scratch" where
  "grow_step p spec scratch =
     (let nodes = fs_nodes scratch;
          (best, srt) = node_split p spec (length nodes) (fs_sorted scratch);
          scratch = scratch\<lparr>fs_sorted := srt\<rparr>
      in case best of
           Some (f, t) \<Rightarrow>
             let left_idx = of_nat (length nodes) :: u32;
                 right_idx = left_idx + 1;
                 (l, r) = partition (spec_samples spec) f t
             in scratch\<lparr>fs_nodes := nodes[spec_idx spec := split_node f t left_idx]
                                      @ [node_default, node_default],
                        fs_left := [], fs_right := [],
                        fs_queue := fs_queue scratch
                          @ [\<lparr>spec_idx = unat left_idx, spec_samples = l, spec_depth = spec_depth spec + 1\<rparr>,
                             \<lparr>spec_idx = unat right_idx, spec_samples = r, spec_depth = spec_depth spec + 1\<rparr>]\<rparr>
         | None \<Rightarrow> scratch\<lparr>fs_nodes := nodes[spec_idx spec := leaf_node (spec_samples spec)]\<rparr>)"

lemma grow_step_cases:
  obtains (split) f t srt where
    "node_split p spec (length (fs_nodes scratch)) (fs_sorted scratch) = (Some (f, t), srt)"
    "grow_step p spec scratch = scratch\<lparr>fs_sorted := srt,
       fs_nodes := (fs_nodes scratch)[spec_idx spec := split_node f t (of_nat (length (fs_nodes scratch)))]
          @ [node_default, node_default],
       fs_left := [], fs_right := [],
       fs_queue := fs_queue scratch
         @ [\<lparr>spec_idx = unat (of_nat (length (fs_nodes scratch)) :: u32),
             spec_samples = fst (partition (spec_samples spec) f t), spec_depth = spec_depth spec + 1\<rparr>,
            \<lparr>spec_idx = unat (of_nat (length (fs_nodes scratch)) + 1 :: u32),
             spec_samples = snd (partition (spec_samples spec) f t), spec_depth = spec_depth spec + 1\<rparr>]\<rparr>"
  | (leaf) srt where
    "node_split p spec (length (fs_nodes scratch)) (fs_sorted scratch) = (None, srt)"
    "grow_step p spec scratch = scratch\<lparr>fs_sorted := srt,
       fs_nodes := (fs_nodes scratch)[spec_idx spec := leaf_node (spec_samples spec)]\<rparr>"
proof -
  obtain best srt where b: "node_split p spec (length (fs_nodes scratch)) (fs_sorted scratch) = (best, srt)"
    by force
  show ?thesis
  proof (cases best)
    case None
    with b leaf show ?thesis by (simp add: grow_step_def Let_def)
  next
    case (Some ft)
    with b split [of "fst ft" "snd ft" srt] show ?thesis
      by (simp add: grow_step_def Let_def case_prod_beta)
  qed
qed

lemma node_split_splittable: "node_split p spec n srt = (Some ft, srt') \<Longrightarrow> splittable p spec n"
  by (auto simp: node_split_def split: if_splits)

function grow :: "fit_params \<Rightarrow> fit_scratch \<Rightarrow> fit_scratch" where
  "grow p scratch =
     (case fs_queue scratch of
        [] \<Rightarrow> scratch
      | spec # queue \<Rightarrow> grow p (grow_step p spec (scratch\<lparr>fs_queue := queue\<rparr>)))"
  by pat_completeness auto
termination
proof (relation "measure (\<lambda>(p, s). 2 * (max_nodes p - length (fs_nodes s)) + length (fs_queue s))")
  fix p :: fit_params and scratch :: fit_scratch and spec queue
  assume q: "fs_queue scratch = spec # queue"
  show "((p, grow_step p spec (scratch\<lparr>fs_queue := queue\<rparr>)), p, scratch)
      \<in> measure (\<lambda>(p, s). 2 * (max_nodes p - length (fs_nodes s)) + length (fs_queue s))"
  proof (cases p spec "scratch\<lparr>fs_queue := queue\<rparr>" rule: grow_step_cases)
    case (split f t srt)
    then have "length (fs_nodes scratch) + 2 \<le> max_nodes p"
      by (auto dest!: node_split_splittable simp: splittable_def split: prod.splits)
    with split q show ?thesis by simp
  next
    case (leaf srt)
    with q show ?thesis by simp
  qed
qed simp

declare grow.simps [simp del]

definition fit_with_scratch ::
  "powf \<Rightarrow> tree_sample list \<Rightarrow> fit_params \<Rightarrow> fit_scratch \<Rightarrow> serialized_tree \<times> fit_scratch" where
  "fit_with_scratch powf samples p scratch =
     (if samples = [] \<or> max_nodes p = 0 then ([], scratch)
      else let weights = sample_weights_into powf (length samples) (fs_weights scratch);
               root = zip samples weights;
               scratch1 = scratch\<lparr>fs_weights := weights, fs_nodes := [node_default], fs_left := [],
                  fs_queue := [\<lparr>spec_idx = 0, spec_samples = root, spec_depth = 0\<rparr>]\<rparr>;
               scratch2 = grow p scratch1
           in (fs_nodes scratch2, scratch2\<lparr>fs_nodes := []\<rparr>))"

definition fit :: "powf \<Rightarrow> tree_sample list \<Rightarrow> fit_params \<Rightarrow> serialized_tree" where
  "fit powf samples p = fst (fit_with_scratch powf samples p fit_scratch_new)"

end
