(* ===== verification/TreeSplit.thy ===== *)
theory TreeSplit
  imports TreeFit
begin

text \<open>
  What \<open>best_split\<close> returns. \<open>candidates\<close> lists, feature by feature and cut by cut, the splits
  between two different neighbouring values of the sorted samples that leave enough samples
  on both sides and reduce the error by more than the threshold. The group sweep with its
  running sums is the search for the first largest reduction in that list, by the interface
  \<open>float_cmp\<close> of the comparison; and both sides of its result are large enough.
\<close>

section \<open>The candidates\<close>

definition is_cut :: "sweep_ctx \<Rightarrow> u8 \<Rightarrow> weighted_sample list \<Rightarrow> nat \<Rightarrow> bool" where
  "is_cut c fid xs j \<longleftrightarrow> 0 < j \<and> j < length xs
     \<and> sample_value fid (xs ! (j - 1)) \<noteq> sample_value fid (xs ! j)
     \<and> ctx_min_leaf c \<le> j \<and> ctx_min_leaf c \<le> ctx_n c - j"

definition cut_cand :: "sweep_ctx \<Rightarrow> u8 \<Rightarrow> weighted_sample list \<Rightarrow> nat \<Rightarrow> split_cand" where
  "cut_cand c fid xs j =
     (fid, midpoint (sample_value fid (xs ! (j - 1))) (sample_value fid (xs ! j)),
      split_reduction c (label_totals (take j xs)))"

definition good_cand :: "sweep_ctx \<Rightarrow> split_cand \<Rightarrow> bool" where
  "good_cand c x \<longleftrightarrow> f_lt (ctx_min_reduction c) (snd (snd x))"

definition cands_from :: "sweep_ctx \<Rightarrow> u8 \<Rightarrow> weighted_sample list \<Rightarrow> nat \<Rightarrow> split_cand list" where
  "cands_from c fid xs i =
     filter (good_cand c) (map (cut_cand c fid xs) (filter (is_cut c fid xs) [Suc i..<length xs]))"

definition candidates :: "weighted_sample list \<Rightarrow> nat \<Rightarrow> f64 \<Rightarrow> f64 \<Rightarrow> split_cand list" where
  "candidates samples min_leaf sse min_red =
     concat (map (\<lambda>fid. cands_from (node_ctx samples min_leaf sse min_red) (of_nat fid)
                          (sort_key (sample_value (of_nat fid)) samples) 0)
               [0..<MLFQ_TREE_NR_FEATURES])"

section \<open>The sweep visits the candidates in order\<close>

lemma nth_in_group: "length pre \<le> j \<Longrightarrow> j < length pre + length grp \<Longrightarrow>
    (pre @ grp @ rest) ! j = grp ! (j - length pre)"
  by (simp add: nth_append) arith

lemma no_cut_in_group:
  assumes xs: "xs = pre @ grp @ rest" and grp: "\<forall>x \<in> set grp. sample_value fid x = v"
    and j: "length pre < j" "j < length pre + length grp"
  shows "\<not> is_cut c fid xs j"
proof -
  have "xs ! (j - 1) = grp ! (j - 1 - length pre)" "xs ! j = grp ! (j - length pre)"
    unfolding xs by (rule nth_in_group; use j in simp)+
  moreover have "sample_value fid (grp ! k) = v" if "k < length grp" for k
    using grp that by simp
  ultimately have "sample_value fid (xs ! (j - 1)) = sample_value fid (xs ! j)"
    using j by auto
  then show ?thesis by (simp add: is_cut_def)
qed

lemma cands_from_group:
  assumes xs: "xs = pre @ grp @ rest" and grp: "\<forall>x \<in> set grp. sample_value fid x = v" "grp \<noteq> []"
  shows "cands_from c fid xs (length pre) =
    (if rest = [] then []
     else filter (good_cand c) (if is_cut c fid xs (length pre + length grp)
             then [cut_cand c fid xs (length pre + length grp)] else [])
          @ cands_from c fid xs (length pre + length grp))"
proof -
  let ?j = "length pre + length grp"
  have j: "Suc (length pre) \<le> ?j" using grp(2) by (cases grp) auto
  have none: "filter (is_cut c fid xs) [Suc (length pre)..<?j] = []"
    using no_cut_in_group [OF xs grp(1)] by (auto simp: filter_empty_conv)
  show ?thesis
  proof (cases "rest = []")
    case True
    then have "length xs = ?j" using xs by simp
    then show ?thesis using True none by (simp add: cands_from_def)
  next
    case False
    then have "?j < length xs" using xs by simp
    then have "[Suc (length pre)..<length xs] = [Suc (length pre)..<?j] @ ?j # [Suc ?j..<length xs]"
      using j upt_add_eq_append [of "Suc (length pre)" ?j "length xs - ?j"] by (simp add: upt_conv_Cons)
    then show ?thesis using False none by (simp add: cands_from_def)
  qed
qed

lemma try_split_cand:
  assumes xs: "xs = pre @ grp @ rest" and grp: "\<forall>x \<in> set grp. sample_value fid x = v" "grp \<noteq> []"
    and rest: "rest \<noteq> []" "sample_value fid (hd rest) \<noteq> v"
    and acc: "acc = label_totals (pre @ grp)"
  shows "try_split c fid (length pre + length grp) v rest acc best =
    foldl keep_better best (filter (good_cand c) (if is_cut c fid xs (length pre + length grp)
             then [cut_cand c fid xs (length pre + length grp)] else []))"
proof -
  let ?j = "length pre + length grp"
  have l: "xs ! (?j - 1) = last grp"
    unfolding xs using grp(2) nth_in_group [of pre "?j - 1" grp rest]
    by (cases grp rule: rev_cases) simp_all
  have r: "xs ! ?j = hd rest"
    unfolding xs using rest(1) by (simp add: nth_append hd_conv_nth)
  have v: "sample_value fid (last grp) = v" using grp by simp
  have "0 < ?j" "?j < length xs" using xs grp(2) rest(1) by auto
  then have cut: "is_cut c fid xs ?j \<longleftrightarrow> ctx_min_leaf c \<le> ?j \<and> ctx_min_leaf c \<le> ctx_n c - ?j"
    unfolding is_cut_def using l r v rest(2) by auto
  have t: "take ?j xs = pre @ grp" unfolding xs by simp
  have "cut_cand c fid xs ?j = (fid, midpoint v (sample_value fid (hd rest)), split_reduction c acc)"
    by (simp only: cut_cand_def l r v t acc)
  then show ?thesis
    using cut rest(1) by (simp add: try_split_def good_cand_def Let_def)
qed

lemma sweep_candidates:
  "xs = pre @ rest \<Longrightarrow> acc = label_totals pre \<Longrightarrow> i = length pre \<Longrightarrow>
    sweep c fid rest i acc best = foldl keep_better best (cands_from c fid xs i)"
proof (induction c fid rest i acc best arbitrary: pre rule: sweep.induct)
  case (1 c fid i acc best)
  then show ?case by (simp add: cands_from_def)
next
  case (2 c fid s ys i acc best)
  define v where "v = sample_value fid s"
  define grp where "grp = takeWhile (\<lambda>x. sample_value fid x = v) (s # ys)"
  define rest where "rest = dropWhile (\<lambda>x. sample_value fid x = v) (s # ys)"
  have ys: "s # ys = grp @ rest" by (simp only: grp_def rest_def takeWhile_dropWhile_id)
  have grp: "\<forall>x \<in> set grp. sample_value fid x = v" "grp \<noteq> []"
    unfolding grp_def by (auto dest: set_takeWhileD simp: v_def)
  have hd: "rest \<noteq> [] \<Longrightarrow> sample_value fid (hd rest) \<noteq> v"
    unfolding rest_def by (rule hd_dropWhile)
  have xs: "xs = pre @ grp @ rest" using "2.prems"(1) ys by simp
  have i: "i = length pre" by (rule "2.prems"(3))
  have tot: "foldl absorb acc grp = label_totals (pre @ grp)"
    using "2.prems"(2) by (simp add: label_totals_def)
  let ?best = "try_split c fid (length pre + length grp) v rest (foldl absorb acc grp) best"
  have step: "sweep c fid (s # ys) i acc best
    = sweep c fid rest (length pre + length grp) (foldl absorb acc grp) ?best"
    by (simp only: sweep.simps Let_def i v_def grp_def rest_def)
  have IH: "sweep c fid rest (length pre + length grp) (foldl absorb acc grp) ?best
    = foldl keep_better ?best (cands_from c fid xs (length pre + length grp))"
    by (rule "2.IH" [OF v_def grp_def rest_def refl, where pre = "pre @ grp"]) (use xs tot i in simp_all)
  show ?case
  proof (cases "rest = []")
    case True
    then have "cands_from c fid xs (length pre + length grp) = []" using xs by (simp add: cands_from_def)
    moreover have "?best = best" using True by (simp add: try_split_def)
    ultimately show ?thesis
      using step IH cands_from_group [OF xs grp, of c] True i by simp
  next
    case False
    let ?j = "length pre + length grp"
    let ?new = "filter (good_cand c) (if is_cut c fid xs ?j then [cut_cand c fid xs ?j] else [])"
    have "sweep c fid (s # ys) i acc best = foldl keep_better ?best (cands_from c fid xs ?j)"
      using step IH by (rule trans)
    also have "?best = foldl keep_better best ?new"
      by (rule try_split_cand [OF xs grp False hd [OF False] tot])
    also have "foldl keep_better (foldl keep_better best ?new) (cands_from c fid xs ?j)
      = foldl keep_better best (?new @ cands_from c fid xs ?j)"
      by (rule foldl_append [symmetric])
    also have "?new @ cands_from c fid xs ?j = cands_from c fid xs i"
      using cands_from_group [OF xs grp, of c] False by (simp only: i if_False)
    finally show ?thesis .
  qed
qed

lemma sweep_feature_candidates:
  "sweep_feature c fid xs best = foldl keep_better best (cands_from c fid xs 0)"
  unfolding sweep_feature_def by (rule sweep_candidates [of xs "[]"]) (simp_all add: label_totals_def)

lemma foldl_concat_map: "foldl (\<lambda>b x. foldl g b (h x)) b xs = foldl g b (concat (map h xs))"
  by (induction xs arbitrary: b) simp_all

lemma best_split_candidates:
  "best_split samples min_leaf sse min_red
   = map_option (\<lambda>(f, t, r). (f, t)) (foldl keep_better None (candidates samples min_leaf sse min_red))"
  unfolding best_split_def candidates_def Let_def sweep_feature_candidates foldl_concat_map ..

section \<open>The first largest value of a list, by the interface of the comparison\<close>

context float_cmp
begin

lemma keep_fold_in:
  "foldl (\<lambda>b c. case b of None \<Rightarrow> Some c | Some d \<Rightarrow> if lt (key d) (key c) then Some c else Some d) None xs
    = Some m \<Longrightarrow> m \<in> set xs"
  by (induction xs rule: rev_induct) (auto split: option.splits if_splits)

lemma keep_fold_None:
  "foldl (\<lambda>b c. case b of None \<Rightarrow> Some c | Some d \<Rightarrow> if lt (key d) (key c) then Some c else Some d) None xs
    = None \<longleftrightarrow> xs = []"
  by (induction xs rule: rev_induct) (auto split: option.splits if_splits)

lemma keep_fold_first_max:
  assumes "\<forall>x \<in> set xs. \<not> nan (key x)"
    and "foldl (\<lambda>b c. case b of None \<Rightarrow> Some c | Some d \<Rightarrow> if lt (key d) (key c) then Some c else Some d) None xs
      = Some m"
  shows "\<exists>pre post. xs = pre @ m # post \<and> (\<forall>x \<in> set pre. lt (key x) (key m))
    \<and> (\<forall>x \<in> set post. \<not> lt (key m) (key x))"
  using assms
proof (induction xs arbitrary: m rule: rev_induct)
  case Nil
  then show ?case by simp
next
  case (snoc x xs)
  let ?fold = "foldl (\<lambda>b c. case b of None \<Rightarrow> Some c | Some d \<Rightarrow> if lt (key d) (key c) then Some c else Some d) None xs"
  show ?case
  proof (cases ?fold)
    case None
    then have "xs = []" "m = x" using snoc.prems(2) keep_fold_None [of key xs] by simp_all
    then show ?thesis by (intro exI [of _ "[]"]) simp
  next
    case (Some d)
    then obtain pre post where xs: "xs = pre @ d # post" and pre: "\<forall>y \<in> set pre. lt (key y) (key d)"
      and post: "\<forall>y \<in> set post. \<not> lt (key d) (key y)"
      using snoc by auto
    show ?thesis
    proof (cases "lt (key d) (key x)")
      case True
      then have "m = x" using snoc.prems(2) Some by simp
      moreover have "lt (key y) (key x)" if "y \<in> set xs" for y
        using that xs pre post True snoc.prems(1) lt_trans lt_weak [of "key d" "key x" "key y"] by auto
      ultimately show ?thesis by (intro exI [of _ xs] exI [of _ "[]"]) simp
    next
      case False
      then have "m = d" using snoc.prems(2) Some by simp
      with xs pre post False show ?thesis
        by (intro exI [of _ pre] exI [of _ "post @ [x]"]) auto
    qed
  qed
qed

lemma first_max_keep_fold:
  assumes "\<forall>x \<in> set pre. lt (key x) (key m)" and "\<forall>x \<in> set post. \<not> lt (key m) (key x)"
  shows "foldl (\<lambda>b c. case b of None \<Rightarrow> Some c | Some d \<Rightarrow> if lt (key d) (key c) then Some c else Some d) None
      (pre @ m # post) = Some m"
proof -
  let ?step = "\<lambda>b c. case b of None \<Rightarrow> Some c | Some d \<Rightarrow> if lt (key d) (key c) then Some c else Some d"
  have "?step (foldl ?step None pre) m = Some m"
    using keep_fold_in [of key pre] assms(1) by (auto split: option.splits)
  moreover have "foldl ?step (Some m) post = Some m"
    using assms(2) by (induction post) auto
  ultimately show ?thesis by simp
qed

end

lemma keep_better_step:
  "keep_better b c = (case b of None \<Rightarrow> Some c
     | Some d \<Rightarrow> if f_lt (snd (snd d)) (snd (snd c)) then Some c else Some d)"
  by (cases "(b, c)" rule: keep_better.cases) auto

lemma candidates_comparable: "\<forall>x \<in> set (candidates samples min_leaf sse min_red). \<not> is_nan (snd (snd x))"
  by (auto simp: candidates_def cands_from_def good_cand_def dest: f64_cmp.lt_comparable)

lemma fold_candidates_iff:
  "foldl keep_better None (candidates samples min_leaf sse min_red) = Some m \<longleftrightarrow>
   (\<exists>pre post. candidates samples min_leaf sse min_red = pre @ m # post
      \<and> (\<forall>x \<in> set pre. f_lt (snd (snd x)) (snd (snd m)))
      \<and> (\<forall>x \<in> set post. \<not> f_lt (snd (snd m)) (snd (snd x))))"
proof -
  have kb: "keep_better = (\<lambda>b c. case b of None \<Rightarrow> Some c
     | Some d \<Rightarrow> if f_lt (snd (snd d)) (snd (snd c)) then Some c else Some d)"
    by (intro ext) (rule keep_better_step)
  show ?thesis
    unfolding kb
    by (rule iffI, erule f64_cmp.keep_fold_first_max [OF candidates_comparable],
        elim exE conjE, simp only: f64_cmp.first_max_keep_fold)
qed

text \<open>
  C26. The best split is the first candidate, in the order of the features and then of the
  thresholds, whose reduction no candidate exceeds: all earlier ones reduce strictly less.
\<close>

theorem best_split_first_max:
  "best_split samples min_leaf sse min_red = Some (f, t) \<longleftrightarrow>
   (\<exists>r pre post. candidates samples min_leaf sse min_red = pre @ (f, t, r) # post
      \<and> list_all (\<lambda>(f', t', r'). f_lt r' r) pre
      \<and> list_all (\<lambda>(f', t', r'). \<not> f_lt r r') post)"
proof -
  have "best_split samples min_leaf sse min_red = Some (f, t) \<longleftrightarrow>
    (\<exists>r. foldl keep_better None (candidates samples min_leaf sse min_red) = Some (f, t, r))"
    unfolding best_split_candidates by auto
  then show ?thesis
    unfolding fold_candidates_iff by (simp add: list_all_iff case_prod_beta)
qed

section \<open>Both sides of the split\<close>

lemma partition_filter:
  "partition xs fid thr = (filter (\<lambda>s. sample_value fid s \<le> thr) xs, filter (\<lambda>s. \<not> sample_value fid s \<le> thr) xs)"
  by (induction xs) (auto simp: Let_def)

lemma length_filter_sort_key: "length (filter P (sort_key k xs)) = length (filter P xs)"
  proof -
  have "size (mset (filter P (sort_key k xs))) = size (mset (filter P xs))" by simp
  then show ?thesis by (simp only: size_mset)
qed

lemma filter_cut:
  assumes "sorted (map k xs)" and "0 < j" "j < length xs" and "k (xs ! (j - 1)) \<le> t" "t < k (xs ! j)"
  shows "filter (\<lambda>x. k x \<le> t) xs = take j xs" and "filter (\<lambda>x. \<not> k x \<le> t) xs = drop j xs"
proof -
  have le: "k x \<le> t" if "x \<in> set (take j xs)" for x
  proof -
    obtain i where "i < j" "x = xs ! i" using \<open>x \<in> set (take j xs)\<close> by (auto simp: in_set_conv_nth)
    then have "k x \<le> k (xs ! (j - 1))"
      using sorted_nth_mono [OF assms(1), of i "j - 1"] assms(3) by simp
    with assms(4) show ?thesis by simp
  qed
  have gt: "\<not> k x \<le> t" if "x \<in> set (drop j xs)" for x
  proof -
    obtain i where "i < length xs - j" "x = xs ! (j + i)"
      using \<open>x \<in> set (drop j xs)\<close> by (auto simp: in_set_conv_nth)
    then have "k (xs ! j) \<le> k x"
      using sorted_nth_mono [OF assms(1), of j "j + i"] by simp
    with assms(5) show ?thesis by auto
  qed
  have xs: "filter P xs = filter P (take j xs) @ filter P (drop j xs)" for P
    by (metis append_take_drop_id filter_append)
  show "filter (\<lambda>x. k x \<le> t) xs = take j xs" "filter (\<lambda>x. \<not> k x \<le> t) xs = drop j xs"
    unfolding xs using le gt by (auto simp: filter_empty_conv filter_id_conv)
qed

lemma cands_from_mem:
  assumes "(f, t, r) \<in> set (cands_from c fid xs i)"
  shows "f = fid" and "\<exists>j. is_cut c fid xs j
    \<and> t = midpoint (sample_value fid (xs ! (j - 1))) (sample_value fid (xs ! j))"
  using assms unfolding cands_from_def cut_cand_def by auto

lemma in_concat_map: "x \<in> set (concat (map h xs)) \<Longrightarrow> \<exists>y \<in> set xs. x \<in> set (h y)"
  by auto

lemma candidate_sides:
  assumes "(f, t, r) \<in> set (candidates samples min_leaf sse min_red)"
  shows "unat f < MLFQ_TREE_NR_FEATURES"
    and "min_leaf \<le> length (fst (partition samples f t))" "min_leaf \<le> length (snd (partition samples f t))"
    and "fst (partition samples f t) \<noteq> []" "snd (partition samples f t) \<noteq> []"
proof -
  let ?c = "node_ctx samples min_leaf sse min_red"
  let ?xs = "sort_key (sample_value f) samples"
  obtain fid where fid: "fid < MLFQ_TREE_NR_FEATURES"
    and c': "(f, t, r) \<in> set (cands_from ?c (of_nat fid) (sort_key (sample_value (of_nat fid)) samples) 0)"
    using in_concat_map [OF assms [unfolded candidates_def]] by (elim bexE) simp
  have f: "f = of_nat fid" by (rule cands_from_mem(1) [OF c'])
  obtain j where j: "is_cut ?c f ?xs j"
    and t: "t = midpoint (sample_value f (?xs ! (j - 1))) (sample_value f (?xs ! j))"
    using cands_from_mem(2) [OF c'] unfolding f by blast
  have j': "0 < j" "j < length ?xs" "min_leaf \<le> j" "min_leaf \<le> length samples - j"
    using j by (auto simp: is_cut_def node_ctx_def)
  have "sample_value f (?xs ! (j - 1)) \<le> sample_value f (?xs ! j)"
    using sorted_nth_mono [of "map (sample_value f) ?xs" "j - 1" j] j' by simp
  moreover have "sample_value f (?xs ! (j - 1)) \<noteq> sample_value f (?xs ! j)"
    using j unfolding is_cut_def by blast
  ultimately have "sample_value f (?xs ! (j - 1)) < sample_value f (?xs ! j)"
    by (rule le_neq_trans)
  note mid = midpoint_bounds [OF this, folded t]
  note fc = filter_cut [OF sorted_sort_key j'(1,2) mid]
  have l: "length (fst (partition samples f t)) = j"
    unfolding partition_filter fst_conv
    using fc(1) j'(2) length_filter_sort_key [of "\<lambda>s. sample_value f s \<le> t" "sample_value f" samples] by simp
  have r: "length (snd (partition samples f t)) = length samples - j"
    unfolding partition_filter snd_conv
    using fc(2) length_filter_sort_key [of "\<lambda>s. \<not> sample_value f s \<le> t" "sample_value f" samples] by simp
  show "unat f < MLFQ_TREE_NR_FEATURES"
    using fid by (simp add: f const_defs unat_of_nat)
  show "min_leaf \<le> length (fst (partition samples f t))" "min_leaf \<le> length (snd (partition samples f t))"
    using l r j' by simp_all
  show "fst (partition samples f t) \<noteq> []" "snd (partition samples f t) \<noteq> []"
    using l r j' by auto
qed

lemma best_split_sound:
  assumes "best_split samples min_leaf sse min_red = Some (f, t)"
  shows "unat f < MLFQ_TREE_NR_FEATURES"
    and "min_leaf \<le> length (fst (partition samples f t))" "min_leaf \<le> length (snd (partition samples f t))"
    and "fst (partition samples f t) \<noteq> []" "snd (partition samples f t) \<noteq> []"
proof -
  obtain r where "foldl keep_better None (candidates samples min_leaf sse min_red) = Some (f, t, r)"
    using assms unfolding best_split_candidates by auto
  then have "(f, t, r) \<in> set (candidates samples min_leaf sse min_red)"
    unfolding fold_candidates_iff by auto
  from candidate_sides [OF this]
  show "unat f < MLFQ_TREE_NR_FEATURES"
    and "min_leaf \<le> length (fst (partition samples f t))" "min_leaf \<le> length (snd (partition samples f t))"
    and "fst (partition samples f t) \<noteq> []" "snd (partition samples f t) \<noteq> []"
    by blast+
qed

section \<open>The scratch buffer\<close>

lemma fst_foldl_pair:
  "fst (foldl (\<lambda>p x. (F x (fst p), G x)) (b, s) xs) = foldl (\<lambda>b x. F x b) b xs"
  by (induction xs arbitrary: b s) auto

lemma best_split_with_scratch_fst:
  "fst (best_split_with_scratch samples min_leaf sse min_red scratch) = best_split samples min_leaf sse min_red"
  unfolding best_split_with_scratch_def best_split_def Let_def take_0 append_Nil case_prod_unfold fst_conv
  by (subst fst_foldl_pair [where F = "\<lambda>fid. sweep_feature (node_ctx samples min_leaf sse min_red) (of_nat fid)
      (sort_key (sample_value (of_nat fid)) samples)"]) (rule refl)

end
