(* ===== verification/TreeValid.thy ===== *)
theory TreeValid
  imports TreeWalk
begin

text \<open>
  What \<open>serialize_validate\<close> accepts. \<open>reach_in nodes k i\<close> says that node \<open>i\<close> is \<open>k\<close> edges
  below the root on some path; \<open>wf_published\<close> states the published-tree contract by such
  paths. The breadth-first loop keeps the invariant \<open>bfs_inv\<close>, from which its labels are the
  lengths of shortest paths and its verdict is \<open>wf_published\<close>.
\<close>

section \<open>Paths from the root\<close>

definition children :: "tree_node \<Rightarrow> nat list" where
  "children n = (if is_leaf n then [] else [unat (left n), unat (right n)])"

inductive reach_in :: "serialized_tree \<Rightarrow> nat \<Rightarrow> nat \<Rightarrow> bool" for nodes where
  root: "reach_in nodes 0 0"
| step: "reach_in nodes k i \<Longrightarrow> i < length nodes \<Longrightarrow> c \<in> set (children (nodes ! i))
    \<Longrightarrow> reach_in nodes (Suc k) c"

inductive_simps reach_in_0 [simp]: "reach_in nodes 0 i"
inductive_cases reach_in_SucE: "reach_in nodes (Suc k) i"

definition node_ok :: "serialized_tree \<Rightarrow> nat \<Rightarrow> bool" where
  "node_ok nodes i \<longleftrightarrow> (\<not> is_leaf (nodes ! i) \<longrightarrow> unat (feature (nodes ! i)) < MLFQ_TREE_NR_FEATURES)
     \<and> (\<forall>c \<in> set (children (nodes ! i)). i < c \<and> c < length nodes)"

definition wf_published :: "serialized_tree \<Rightarrow> bool" where
  "wf_published nodes \<longleftrightarrow>
     1 \<le> length nodes \<and> length nodes \<le> MLFQ_TREE_MAX_NODES
   \<and> (\<forall>i < length nodes. node_ok nodes i
        \<and> (\<exists>k \<le> MLFQ_TREE_MAX_DEPTH. reach_in nodes k i)
        \<and> (\<not> is_leaf (nodes ! i) \<longrightarrow> (\<exists>k < MLFQ_TREE_MAX_DEPTH. reach_in nodes k i)))"

section \<open>The invariant of the breadth-first loop\<close>

text \<open>
  \<open>lab\<close> is the set of labelled nodes. Queued nodes are labelled, the queue is sorted by
  label, all labels lie within one of the level \<open>L\<close> being processed and are lengths of real
  paths, and every processed node (labelled, not queued, not in the exempt set \<open>X\<close>) is fine
  and has its children labelled at most one deeper.
\<close>

definition lab :: "nat list \<Rightarrow> nat set" where
  "lab d = {i. i < length d \<and> d ! i \<noteq> usize_MAX}"

definition closed_at :: "serialized_tree \<Rightarrow> nat list \<Rightarrow> nat \<Rightarrow> bool" where
  "closed_at nodes d i \<longleftrightarrow> node_ok nodes i \<and> (\<not> is_leaf (nodes ! i) \<longrightarrow> d ! i < MLFQ_TREE_MAX_DEPTH)
     \<and> (\<forall>c \<in> set (children (nodes ! i)). c \<in> lab d \<and> d ! c \<le> d ! i + 1)"

definition bfs_inv :: "serialized_tree \<Rightarrow> nat list \<Rightarrow> nat list \<Rightarrow> nat \<Rightarrow> nat set \<Rightarrow> bool" where
  "bfs_inv nodes d q L X \<longleftrightarrow>
     length d = length nodes \<and> 0 \<in> lab d \<and> d ! 0 = 0
   \<and> set q \<subseteq> lab d \<and> sorted (map ((!) d) q) \<and> (\<forall>j \<in> set q. L \<le> d ! j)
   \<and> (\<forall>i \<in> lab d. d ! i \<le> L + 1 \<and> d ! i \<le> MLFQ_TREE_MAX_DEPTH \<and> reach_in nodes (d ! i) i)
   \<and> (\<forall>i \<in> lab d - set q - X. closed_at nodes d i)"

lemma bfs_inv_init:
  assumes "nodes \<noteq> []"
  shows "bfs_inv nodes ((replicate (length nodes) usize_MAX)[0 := 0]) [0] 0 {}"
proof -
  have "lab ((replicate (length nodes) usize_MAX)[0 := 0]) = {0}"
    using assms by (auto simp: lab_def nth_list_update split: if_splits)
  with assms show ?thesis
    by (auto simp: bfs_inv_def nth_list_update)
qed

lemma bfs_inv_pop:
  assumes "bfs_inv nodes d (i # q) L {}"
  shows "bfs_inv nodes d q (d ! i) {i}"
proof -
  have "L \<le> d ! i" using assms by (simp add: bfs_inv_def)
  moreover have "d ! x \<le> L + 1" if "x \<in> lab d" for x using assms that by (simp add: bfs_inv_def)
  ultimately have "d ! x \<le> d ! i + 1" if "x \<in> lab d" for x using that le_trans by fastforce
  with assms show ?thesis by (auto simp: bfs_inv_def)
qed

lemma bfs_inv_close:
  assumes "bfs_inv nodes d q L {i}" and "closed_at nodes d i"
  shows "bfs_inv nodes d q L {}"
  using assms by (auto simp: bfs_inv_def)

text \<open>Visiting a child of the popped node, labelled with the current level.\<close>

lemma visit_child_ok:
  assumes v: "visit_child i c d q = Ok (d', q')"
    and inv: "bfs_inv nodes d q (d ! i) {i}"
    and i: "i \<in> lab d" and deep: "d ! i < MLFQ_TREE_MAX_DEPTH"
    and c: "c \<in> set (children (nodes ! i))"
  shows "bfs_inv nodes d' q' (d ! i) {i}"
    and "d' ! i = d ! i" and "i \<in> lab d'"
    and "i < c" and "c < length nodes" and "c \<in> lab d'" and "d' ! c \<le> d ! i + 1"
    and "\<forall>x \<in> lab d. x \<in> lab d' \<and> d' ! x = d ! x"
proof -
  have len: "length d = length nodes" using inv by (simp add: bfs_inv_def)
  show ic: "i < c" and cl: "c < length nodes"
    using v len by (auto simp: visit_child_def split: if_splits)
  have d12: "d ! i < 12" using deep by (simp add: const_defs)
  let ?new = "d ! c = usize_MAX"
  have upd: "d' = (if ?new then d[c := d ! i + 1] else d)"
    "q' = (if ?new then q @ [c] else q)"
    using v by (auto simp: visit_child_def split: if_splits)
  show keep: "\<forall>x \<in> lab d. x \<in> lab d' \<and> d' ! x = d ! x"
  proof
    fix x assume x: "x \<in> lab d"
    then have "?new \<Longrightarrow> x \<noteq> c" by (auto simp: lab_def)
    with x upd show "x \<in> lab d' \<and> d' ! x = d ! x"
      by (auto simp: lab_def)
  qed
  show "d' ! i = d ! i" using upd ic by simp
  show "i \<in> lab d'" using keep i by blast
  have lab': "lab d' = insert c (lab d)"
    using upd cl len d12 by (auto simp: lab_def nth_list_update split: if_splits)
  then show "c \<in> lab d'" by simp
  show dc: "d' ! c \<le> d ! i + 1"
    using upd inv cl len by (auto simp: bfs_inv_def lab_def)
  show "bfs_inv nodes d' q' (d ! i) {i}"
  proof (cases ?new)
    case False
    with upd inv show ?thesis by simp
  next
    case True
    have c_fresh: "c \<notin> lab d" using True by (simp add: lab_def)
    have qd: "map ((!) d') q = map ((!) d) q"
      using keep inv by (auto simp: bfs_inv_def)
    have d'c: "d' ! c = d ! i + 1" using upd True cl len by simp
    have q': "q' = q @ [c]" using upd True by simp
    have reach_i: "reach_in nodes (d ! i) i" using inv i by (simp add: bfs_inv_def)
    have reach_c: "reach_in nodes (d' ! c) c"
      using reach_in.step [OF reach_i _ c] i len d'c by (simp add: lab_def)
    show ?thesis
      unfolding bfs_inv_def
    proof (intro conjI ballI)
      show "length d' = length nodes" using upd len by simp
      show "0 \<in> lab d'" "d' ! 0 = 0" using keep inv by (auto simp: bfs_inv_def)
      show "set q' \<subseteq> lab d'" using q' lab' inv by (auto simp: bfs_inv_def)
      show "sorted (map ((!) d') q')"
        unfolding q' map_append sorted_append qd using inv d'c keep by (auto simp: bfs_inv_def)
    next
      fix j assume "j \<in> set q'"
      then show "d ! i \<le> d' ! j" using q' d'c inv keep by (auto simp: bfs_inv_def)
    next
      fix x assume "x \<in> lab d'"
      then consider "x = c" | "x \<in> lab d" using lab' by blast
      then have "d' ! x \<le> d ! i + 1 \<and> d' ! x \<le> MLFQ_TREE_MAX_DEPTH \<and> reach_in nodes (d' ! x) x"
        using reach_c d'c deep inv keep by cases (auto simp: bfs_inv_def)
      then show "d' ! x \<le> d ! i + 1" "d' ! x \<le> MLFQ_TREE_MAX_DEPTH" "reach_in nodes (d' ! x) x"
        by auto
    next
      fix x assume "x \<in> lab d' - set q' - {i}"
      then have x: "x \<in> lab d" "x \<notin> set q" "x \<noteq> i" using lab' q' by auto
      with inv have "closed_at nodes d x" by (simp add: bfs_inv_def)
      with x keep show "closed_at nodes d' x" by (auto simp: closed_at_def)
    qed
  qed
qed

text \<open>Shortestness: whatever path leads to a node, the labels and the queue have not missed it.\<close>

lemma bfs_inv_path:
  assumes "bfs_inv nodes d q L {}" and "reach_in nodes k x"
  shows "x \<in> lab d \<and> d ! x \<le> k \<or> (\<exists>j \<in> set q. d ! j \<le> k)"
  using assms(2)
proof (induction rule: reach_in.induct)
  case root
  then show ?case using assms(1) by (simp add: bfs_inv_def)
next
  case (step k i c)
  show ?case
  proof (cases "i \<in> lab d \<and> d ! i \<le> k \<and> i \<notin> set q")
    case True
    with assms(1) have "closed_at nodes d i" by (auto simp: bfs_inv_def)
    with True step.hyps show ?thesis by (fastforce simp: closed_at_def)
  next
    case False
    with step.IH show ?thesis by (meson le_Suc_eq)
  qed
qed

lemma bfs_inv_hd_shortest:
  assumes "bfs_inv nodes d (i # q) L {}" and "reach_in nodes k i"
  shows "d ! i \<le> k"
  using bfs_inv_path [OF assms] assms(1) by (fastforce simp: bfs_inv_def)

section \<open>The loop\<close>

lemma is_leaf_right: "is_leaf n \<longleftrightarrow> right n = 0"
  by (simp add: is_leaf_def)

lemma children_internal:
  "right n \<noteq> 0 \<Longrightarrow> children n = [unat (left n), unat (right n)]"
  by (simp add: children_def is_leaf_def)

lemma bad_feature_iff:
  "(of_nat MLFQ_TREE_NR_FEATURES \<le> (f :: u8)) \<longleftrightarrow> \<not> unat f < MLFQ_TREE_NR_FEATURES"
  by (simp add: const_defs word_le_nat_alt not_less)

text \<open>The invariant survives the processing of an internal node.\<close>

lemma bfs_inv_internal:
  assumes inv: "bfs_inv nodes d (i # q) L {}"
    and int: "right (nodes ! i) \<noteq> 0" and feat: "unat (feature (nodes ! i)) < MLFQ_TREE_NR_FEATURES"
    and deep: "d ! i < MLFQ_TREE_MAX_DEPTH"
    and v1: "visit_child i (unat (left (nodes ! i))) d q = Ok (d1, q1)"
    and v2: "visit_child i (unat (right (nodes ! i))) d1 q1 = Ok (d2, q2)"
  shows "bfs_inv nodes d2 q2 (d ! i) {}"
proof -
  have i: "i \<in> lab d" using inv by (simp add: bfs_inv_def)
  have c: "unat (left (nodes ! i)) \<in> set (children (nodes ! i))"
    "unat (right (nodes ! i)) \<in> set (children (nodes ! i))"
    using int by (simp_all add: children_internal)
  note r1 = visit_child_ok [OF v1 bfs_inv_pop [OF inv] i deep c(1)]
  have inv1: "bfs_inv nodes d1 q1 (d1 ! i) {i}" and deep1: "d1 ! i < MLFQ_TREE_MAX_DEPTH"
    using r1(1,2) deep by simp_all
  note r2 = visit_child_ok [OF v2 inv1 r1(3) deep1 c(2)]
  have "closed_at nodes d2 i"
    using r1 r2 feat deep int by (auto simp: closed_at_def node_ok_def children_internal)
  with bfs_inv_close r2(1) r1(2) show ?thesis by metis
qed

lemma bfs_inv_leaf:
  assumes "bfs_inv nodes d (i # q) L {}" and "right (nodes ! i) = 0"
  shows "bfs_inv nodes d q (d ! i) {}"
  using bfs_inv_close [OF bfs_inv_pop [OF assms(1)]] assms(2)
  by (auto simp: closed_at_def node_ok_def children_def is_leaf_def)

lemma bfs_inv_expand:
  assumes "bfs_inv nodes d (i # q) L {}" and "expand_node nodes i d q = Ok (d', q')"
  shows "bfs_inv nodes d' q' (d ! i) {}"
  using assms(2)
proof (cases rule: expand_node_cases)
  case leaf
  with assms(1) bfs_inv_leaf show ?thesis by simp
next
  case (internal d1 q1)
  then show ?thesis
    using bfs_inv_internal [OF assms(1)] by (simp add: bad_feature_iff)
qed

text \<open>A finished loop leaves a closed labelling.\<close>

lemma validate_bfs_sound:
  assumes "validate_bfs nodes d q = Ok d'" and "bfs_inv nodes d q L {}"
  shows "\<exists>L'. bfs_inv nodes d' [] L' {}"
  using assms
proof (induction nodes d q arbitrary: L rule: validate_bfs.induct)
  case (1 nodes d)
  then show ?case by auto
next
  case (2 nodes d i q)
  then obtain d1 q1 where e: "expand_node nodes i d q = Ok (d1, q1)"
    and r: "validate_bfs nodes d1 q1 = Ok d'"
    by (auto split: sum.splits prod.splits)
  with "2.IH" [OF e refl r] bfs_inv_expand [OF "2.prems"(2) e] show ?case by blast
qed

text \<open>On a tree that meets the contract no test of the loop fails.\<close>

lemma wf_nodeD:
  assumes "wf_published nodes" and "i < length nodes"
  shows "node_ok nodes i" and "\<exists>k \<le> MLFQ_TREE_MAX_DEPTH. reach_in nodes k i"
    and "\<not> is_leaf (nodes ! i) \<Longrightarrow> \<exists>k < MLFQ_TREE_MAX_DEPTH. reach_in nodes k i"
  using assms unfolding wf_published_def by blast+

lemma wf_children:
  assumes "wf_published nodes" and "i < length nodes" and "c \<in> set (children (nodes ! i))"
  shows "i < c" and "c < length nodes"
  using wf_nodeD(1) [OF assms(1,2)] assms(3) unfolding node_ok_def by blast+

lemma visit_child_succeeds:
  assumes "i < c" and "c < length d"
  shows "\<exists>d' q'. visit_child i c d q = Ok (d', q') \<and> length d' = length d"
  using assms by (auto simp: visit_child_def)

lemma expand_node_succeeds:
  assumes wf: "wf_published nodes" and inv: "bfs_inv nodes d (i # q) L {}"
  shows "\<exists>d' q'. expand_node nodes i d q = Ok (d', q')"
proof (cases "right (nodes ! i) = 0")
  case True
  then show ?thesis by (simp add: expand_node_def)
next
  case False
  have len: "length d = length nodes" and i: "i < length nodes"
    using inv by (auto simp: bfs_inv_def lab_def)
  obtain k where "k < MLFQ_TREE_MAX_DEPTH" "reach_in nodes k i"
    using wf_nodeD(3) [OF wf i] False unfolding is_leaf_def by blast
  then have "d ! i < MLFQ_TREE_MAX_DEPTH"
    using bfs_inv_hd_shortest [OF inv] by fastforce
  moreover have "unat (feature (nodes ! i)) < MLFQ_TREE_NR_FEATURES"
    using wf_nodeD(1) [OF wf i] False unfolding node_ok_def is_leaf_def by blast
  moreover obtain d1 q1 where "visit_child i (unat (left (nodes ! i))) d q = Ok (d1, q1)"
    and l1: "length d1 = length d"
    using visit_child_succeeds wf_children [OF wf i] False len
    by (metis children_internal list.set_intros(1))
  moreover obtain d2 q2 where "visit_child i (unat (right (nodes ! i))) d1 q1 = Ok (d2, q2)"
    using visit_child_succeeds wf_children [OF wf i] False len l1
    by (metis children_internal list.set_intros(1,2))
  ultimately show ?thesis
    using False by (auto simp: expand_node_def Let_def bad_feature_iff not_le)
qed

lemma validate_bfs_complete:
  assumes "wf_published nodes" and "bfs_inv nodes d q L {}"
  shows "\<exists>d'. validate_bfs nodes d q = Ok d'"
  using assms
proof (induction nodes d q arbitrary: L rule: validate_bfs.induct)
  case (1 nodes d)
  then show ?case by simp
next
  case (2 nodes d i q)
  then obtain d1 q1 where e: "expand_node nodes i d q = Ok (d1, q1)"
    using expand_node_succeeds by blast
  from "2.IH" [OF e refl "2.prems"(1) bfs_inv_expand [OF "2.prems"(2) e]]
  show ?case using e by simp
qed

section \<open>The verdict\<close>

lemma check_depths_ok: "check_depths i ds = Ok () \<longleftrightarrow> (\<forall>d \<in> set ds. d \<le> MLFQ_TREE_MAX_DEPTH)"
  by (induction ds arbitrary: i) (auto simp: const_defs)

lemma final_labels_shortest:
  assumes "bfs_inv nodes d [] L {}" and "reach_in nodes k x"
  shows "x \<in> lab d" and "d ! x \<le> k"
  using bfs_inv_path [OF assms] by auto

lemma final_labels_wf:
  assumes inv: "bfs_inv nodes d [] L {}" and all: "\<forall>x \<in> set d. x \<le> MLFQ_TREE_MAX_DEPTH"
    and len: "1 \<le> length nodes" "length nodes \<le> MLFQ_TREE_MAX_NODES"
  shows "wf_published nodes"
  unfolding wf_published_def
proof (intro conjI allI impI)
  fix i assume i: "i < length nodes"
  with inv have l: "i < length d" by (simp add: bfs_inv_def)
  with all have "d ! i \<le> MLFQ_TREE_MAX_DEPTH" by simp
  with l have "i \<in> lab d" by (simp add: lab_def const_defs)
  with inv have r: "reach_in nodes (d ! i) i" and c: "closed_at nodes d i"
    by (simp_all add: bfs_inv_def)
  show "node_ok nodes i" using c by (simp add: closed_at_def)
  show "\<exists>k \<le> MLFQ_TREE_MAX_DEPTH. reach_in nodes k i"
    using r \<open>d ! i \<le> MLFQ_TREE_MAX_DEPTH\<close> by blast
  assume "\<not> is_leaf (nodes ! i)"
  with c r show "\<exists>k < MLFQ_TREE_MAX_DEPTH. reach_in nodes k i"
    unfolding closed_at_def by blast
qed (use len in auto)

lemma validate_ok_wf: "serialize_validate nodes = Ok () \<longleftrightarrow> wf_published nodes"
proof
  assume ok: "serialize_validate nodes = Ok ()"
  then have len: "1 \<le> length nodes" "length nodes \<le> MLFQ_TREE_MAX_NODES"
    by (simp_all add: serialize_validate_def Let_def Suc_le_eq del: validate_bfs.simps
        split: if_splits)
  with ok obtain d where d: "validate_bfs nodes ((replicate (length nodes) usize_MAX)[0 := 0]) [0] = Ok d"
    and c: "check_depths 0 d = Ok ()"
    by (simp add: serialize_validate_def Let_def del: validate_bfs.simps split: if_splits sum.splits)
  from len have "nodes \<noteq> []" by auto
  then obtain L where "bfs_inv nodes d [] L {}"
    using validate_bfs_sound [OF d bfs_inv_init] by blast
  then show "wf_published nodes"
    using final_labels_wf c len by (simp add: check_depths_ok)
next
  assume wf: "wf_published nodes"
  then have len: "1 \<le> length nodes" "length nodes \<le> MLFQ_TREE_MAX_NODES" "nodes \<noteq> []"
    by (simp_all add: wf_published_def) auto
  obtain d where d: "validate_bfs nodes ((replicate (length nodes) usize_MAX)[0 := 0]) [0] = Ok d"
    using validate_bfs_complete [OF wf bfs_inv_init [OF len(3)]] by blast
  obtain L where inv: "bfs_inv nodes d [] L {}"
    using validate_bfs_sound [OF d bfs_inv_init [OF len(3)]] by blast
  have "d ! i \<le> MLFQ_TREE_MAX_DEPTH" if "i < length nodes" for i
    using wf_nodeD(2) [OF wf that] final_labels_shortest(2) [OF inv] le_trans by blast
  then have "check_depths 0 d = Ok ()"
    using inv by (auto simp: check_depths_ok bfs_inv_def in_set_conv_nth)
  with d len show "serialize_validate nodes = Ok ()"
    by (simp add: serialize_validate_def Let_def del: validate_bfs.simps)
qed

text \<open>
  C17. Validation accepts exactly the trees that meet the published-tree contract: the node
  count is within the store, every node is reachable from the root within the walk bound,
  every internal node splits on a populated feature, is reachable strictly above the bound,
  and has both children in range and after it.
\<close>

theorem serialize_validate_iff: "serialize_validate nodes = Ok () \<longleftrightarrow> wf_published nodes"
  by (rule validate_ok_wf)

end
