(* ===== verification/TreePredict.thy ===== *)
theory TreePredict
  imports TreeValid
begin

text \<open>
  What a prediction is. \<open>routes_to\<close> is the decision tree's own meaning, without bounds and
  masks: the leaf a feature vector is routed to. On a validated tree in which no node has two
  parents, which is what the fit produces, \<open>predict\<close> returns the value of that leaf; the walk
  of the BPF side over the published store returns the same on every validated tree. Both
  limits are sharp: a validated tree with shared nodes can exhaust the depth bound, and the
  two walks differ on features 9 to 15, which validation rejects.
\<close>

section \<open>Masks\<close>

lemma unat_and_2047:
  fixes x :: "'a :: len word"
  assumes "11 \<le> LENGTH('a)"
  shows "unat (x AND of_nat (MLFQ_TREE_MAX_NODES - 1)) = unat x mod 2048"
proof -
  have "(of_nat (MLFQ_TREE_MAX_NODES - 1) :: 'a word) = mask 11"
    by (simp add: const_defs mask_eq_exp_minus_1)
  then have "x AND of_nat (MLFQ_TREE_MAX_NODES - 1) = take_bit 11 x"
    by (simp only: take_bit_eq_mask)
  then show ?thesis
    by (simp only: unsigned_take_bit_eq) (simp add: take_bit_eq_mod)
qed

lemma unat_and_15: "unat (x AND 0xF :: u8) = unat x mod 16"
proof -
  have "x AND 0xF = take_bit 4 x" by (simp add: take_bit_eq_mask mask_eq_exp_minus_1)
  then show ?thesis by (simp only: unsigned_take_bit_eq) (simp add: take_bit_eq_mod)
qed

lemma slot_of_feature:
  assumes "unat i < MLFQ_TREE_NR_FEATURES"
  shows "feat_slots f ! unat (i AND 0xF) = feat_value f i"
  using assms feat_slots_nth [of i f] by (simp add: unat_and_15 const_defs)

section \<open>The leaf a feature vector is routed to\<close>

definition next_child :: "tree_node \<Rightarrow> tree_feats \<Rightarrow> nat" where
  "next_child n f = (if feat_value f (feature n) \<le> threshold n then unat (left n) else unat (right n))"

inductive routes_to :: "serialized_tree \<Rightarrow> tree_feats \<Rightarrow> nat \<Rightarrow> nat \<Rightarrow> bool" for nodes f where
  leaf: "i < length nodes \<Longrightarrow> is_leaf (nodes ! i) \<Longrightarrow> routes_to nodes f i i"
| split: "i < length nodes \<Longrightarrow> \<not> is_leaf (nodes ! i) \<Longrightarrow>
    routes_to nodes f (next_child (nodes ! i) f) j \<Longrightarrow> routes_to nodes f i j"

lemma routes_to_leaf: "routes_to nodes f i j \<Longrightarrow> j < length nodes \<and> is_leaf (nodes ! j)"
  by (induction rule: routes_to.induct) auto

lemma routes_to_unique: "routes_to nodes f i j \<Longrightarrow> routes_to nodes f i j' \<Longrightarrow> j = j'"
proof (induction arbitrary: j' rule: routes_to.induct)
  case (leaf i)
  then show ?case by (auto elim: routes_to.cases)
next
  case (split i j)
  from split.prems split.hyps(2) have "routes_to nodes f (next_child (nodes ! i) f) j'"
    by (auto elim: routes_to.cases)
  then show ?case by (rule split.IH)
qed

lemma next_child_in: "\<not> is_leaf n \<Longrightarrow> next_child n f \<in> set (children n)"
  by (simp add: next_child_def children_def)

section \<open>Trees without shared nodes\<close>

definition tree_shaped :: "serialized_tree \<Rightarrow> bool" where
  "tree_shaped nodes \<longleftrightarrow> (\<forall>i < length nodes. \<forall>j < length nodes.
     \<forall>c. c \<in> set (children (nodes ! i)) \<and> c \<in> set (children (nodes ! j)) \<longrightarrow> i = j)"

lemma reach_in_unique:
  assumes wf: "wf_published nodes" and shaped: "tree_shaped nodes"
  shows "reach_in nodes k i \<Longrightarrow> reach_in nodes m i \<Longrightarrow> k = m"
proof (induction arbitrary: m rule: reach_in.induct)
  case root
  show ?case
  proof (cases m)
    case 0
    then show ?thesis by simp
  next
    case (Suc m')
    with root obtain i where "i < length nodes" "0 \<in> set (children (nodes ! i))"
      by (auto elim: reach_in_SucE)
    with wf_children(1) [OF wf] show ?thesis by blast
  qed
next
  case (step k i c)
  show ?case
  proof (cases m)
    case 0
    with step.prems have "c = 0" by simp
    with wf_children(1) [OF wf step.hyps(2,3)] show ?thesis by simp
  next
    case (Suc m')
    with step.prems obtain i' where i': "reach_in nodes m' i'" "i' < length nodes"
      "c \<in> set (children (nodes ! i'))"
      by (auto elim: reach_in_SucE)
    with shaped step.hyps have "i' = i" by (auto simp: tree_shaped_def)
    with i' step.IH Suc show ?thesis by simp
  qed
qed

text \<open>One step of the masked walk is one step of the routing.\<close>

lemma predict_walk_internal:
  assumes wf: "wf_published nodes" and i: "unat idx < length nodes"
    and int: "\<not> is_leaf (nodes ! unat idx)"
  shows "\<exists>idx'. predict_walk (Suc k) nodes (feat_slots f) idx = predict_walk k nodes (feat_slots f) idx'
    \<and> unat idx' = next_child (nodes ! unat idx) f"
proof -
  let ?n = "nodes ! unat idx"
  have feat: "unat (feature ?n) < MLFQ_TREE_NR_FEATURES"
    using wf_nodeD(1) [OF wf i] int by (simp add: node_ok_def)
  have "unat (left ?n) < length nodes" "unat (right ?n) < length nodes"
    using wf_children(2) [OF wf i] int by (simp_all add: children_def)
  moreover have "length nodes \<le> 2048" using wf by (simp add: wf_published_def const_defs)
  ultimately have m: "unat (left ?n) mod 2048 = unat (left ?n)" "unat (right ?n) mod 2048 = unat (right ?n)"
    by simp_all
  let ?idx' = "(if feat_value f (feature ?n) \<le> threshold ?n then ucast (left ?n) else ucast (right ?n))
      AND (of_nat (MLFQ_TREE_MAX_NODES - 1) :: u64)"
  have "unat ?idx' = next_child ?n f"
    using m by (simp add: unat_and_2047 next_child_def del: One_nat_def)
  moreover have "predict_walk (Suc k) nodes (feat_slots f) idx = predict_walk k nodes (feat_slots f) ?idx'"
    using i int by (simp add: is_leaf_def Let_def slot_of_feature [OF feat])
  ultimately show ?thesis by blast
qed

lemma predict_walk_routes:
  assumes wf: "wf_published nodes" and shaped: "tree_shaped nodes"
  shows "reach_in nodes m (unat idx) \<Longrightarrow> k + m = MLFQ_TREE_MAX_DEPTH \<Longrightarrow> unat idx < length nodes \<Longrightarrow>
    \<exists>j. routes_to nodes f (unat idx) j \<and>
      (predict_walk k nodes (feat_slots f) idx = Inl (ucast (left (nodes ! j)))
       \<or> (\<exists>idx'. predict_walk k nodes (feat_slots f) idx = Inr idx' \<and> unat idx' = j))"
proof (induction k arbitrary: m idx)
  case 0
  have "is_leaf (nodes ! unat idx)"
  proof (rule ccontr)
    assume "\<not> is_leaf (nodes ! unat idx)"
    then obtain k where "k < MLFQ_TREE_MAX_DEPTH" "reach_in nodes k (unat idx)"
      using wf_nodeD(3) [OF wf 0(3)] by blast
    with reach_in_unique [OF wf shaped 0(1)] 0(2) show False by auto
  qed
  with 0(3) show ?case by (auto intro!: routes_to.leaf)
next
  case (Suc k)
  show ?case
  proof (cases "is_leaf (nodes ! unat idx)")
    case True
    with Suc.prems(3) routes_to.leaf show ?thesis by (fastforce simp: is_leaf_def Let_def)
  next
    case False
    obtain idx' where w: "predict_walk (Suc k) nodes (feat_slots f) idx = predict_walk k nodes (feat_slots f) idx'"
      and u: "unat idx' = next_child (nodes ! unat idx) f"
      using predict_walk_internal [OF wf Suc.prems(3) False] by blast
    have c: "unat idx' \<in> set (children (nodes ! unat idx))"
      using next_child_in [OF False] u by simp
    have "reach_in nodes (Suc m) (unat idx')"
      using Suc.prems(1,3) c by (rule reach_in.step)
    moreover have "unat idx' < length nodes"
      using wf_children(2) [OF wf Suc.prems(3) c] .
    ultimately obtain j where "routes_to nodes f (unat idx') j"
      "predict_walk k nodes (feat_slots f) idx' = Inl (ucast (left (nodes ! j)))
       \<or> (\<exists>idx''. predict_walk k nodes (feat_slots f) idx' = Inr idx'' \<and> unat idx'' = j)"
      using Suc.IH [of "Suc m" idx'] Suc.prems(2) by auto
    with routes_to.split [OF Suc.prems(3) False] u w show ?thesis by auto
  qed
qed

lemma predict_routed_leaf:
  assumes wf: "wf_published nodes" and shaped: "tree_shaped nodes"
  shows "\<exists>j. routes_to nodes f 0 j \<and> predict nodes f = ucast (left (nodes ! j))"
proof -
  have ne: "nodes \<noteq> []" "0 < length nodes" using wf by (auto simp: wf_published_def)
  obtain j where r: "routes_to nodes f 0 j" and p:
    "predict_walk MLFQ_TREE_MAX_DEPTH nodes (feat_slots f) 0 = Inl (ucast (left (nodes ! j)))
       \<or> (\<exists>idx'. predict_walk MLFQ_TREE_MAX_DEPTH nodes (feat_slots f) 0 = Inr idx' \<and> unat idx' = j)"
    using predict_walk_routes [OF wf shaped, of 0 0 MLFQ_TREE_MAX_DEPTH f] ne by auto
  have "j < length nodes" "right (nodes ! j) = 0"
    using routes_to_leaf [OF r] by (simp_all add: is_leaf_def)
  with p ne have "predict nodes f = ucast (left (nodes ! j))"
    by (auto simp: predict_def Let_def)
  with r show ?thesis by blast
qed

text \<open>
  On a validated tree in which no node has two parents, a prediction is the value of the
  one leaf the feature vector is routed to: neither the index mask nor the depth bound nor
  the exhaustion fallback shows.
\<close>

theorem predict_is_routed_leaf:
  assumes "serialize_validate nodes = Ok ()" and "tree_shaped nodes"
  shows "\<exists>!j. routes_to nodes f 0 j \<and> predict nodes f = ucast (left (nodes ! j))"
  using predict_routed_leaf [of nodes f] assms routes_to_unique
  unfolding validate_ok_wf by blast

definition split3 :: serialized_tree where
  "split3 = [\<lparr>threshold = 5, left = 1, right = 2, feature = 1, node_pad = replicate 7 0\<rparr>,
             node_default\<lparr>left := 100\<rparr>, node_default\<lparr>left := 200\<rparr>]"

lemma split3_nth [simp]:
  "length split3 = 3"
  "split3 ! 0 = \<lparr>threshold = 5, left = 1, right = 2, feature = 1, node_pad = replicate 7 0\<rparr>"
  "split3 ! Suc 0 = node_default\<lparr>left := 100\<rparr>" "split3 ! 2 = node_default\<lparr>left := 200\<rparr>"
  by (simp_all add: split3_def)

lemma validate_split3: "serialize_validate split3 = Ok ()"
  by (simp add: serialize_validate_def Let_def expand_node_def visit_child_def const_defs
      split3_def node_default_def word_le_nat_alt)

lemma tree_shaped_split3: "tree_shaped split3"
proof -
  have "split3 ! Suc (Suc 0) = node_default\<lparr>left := 200\<rparr>" by (simp add: split3_def)
  then show ?thesis
    unfolding tree_shaped_def split3_nth(1) numeral_3_eq_3 All_less_Suc
    by (simp add: children_def is_leaf_def node_default_def)
qed

theorem predict_is_routed_leaf_witness:
  "serialize_validate split3 = Ok () \<and> tree_shaped split3
   \<and> (\<exists>!j. routes_to split3 feats_default 0 j \<and> predict split3 feats_default = ucast (left (split3 ! j)))"
  using predict_is_routed_leaf [OF validate_split3 tree_shaped_split3, of feats_default]
    validate_split3 tree_shaped_split3 by blast

section \<open>The walk of the BPF side\<close>

lemma unat_and_2047_u32: "unat ((idx :: u32) AND of_nat (MLFQ_TREE_MAX_NODES - 1)) = unat idx mod 2048"
  by (rule unat_and_2047) simp

lemma pad_store_nth: "i < length nodes \<Longrightarrow> pad_store nodes ! i = nodes ! i"
  by (simp add: pad_store_def nth_append)

lemma feature_mask_in_range:
  "unat (i :: u8) < MLFQ_TREE_NR_FEATURES \<Longrightarrow> unat (i AND 0xF) = unat i
    \<and> \<not> of_nat MLFQ_TREE_NR_FEATURES \<le> i AND 0xF"
  by (simp add: bad_feature_iff unat_and_15) (simp add: const_defs)

text \<open>Two walks over the same tree end the same way.\<close>

definition same_end :: "nat \<Rightarrow> u64 + u64 \<Rightarrow> u64 + u32 \<Rightarrow> bool" where
  "same_end nr r b \<longleftrightarrow> (\<exists>v. r = Inl v \<and> b = Inl v)
     \<or> (\<exists>i j. r = Inr i \<and> b = Inr j \<and> unat i = unat j \<and> unat i < nr)"

lemma walks_agree:
  assumes wf: "wf_published nodes"
  shows "unat idx = unat bidx \<Longrightarrow> unat idx < length nodes \<Longrightarrow>
    same_end (length nodes) (predict_walk k nodes (feat_slots f) idx)
      (bpf_walk k (pad_store nodes) (feat_slots f) bidx)"
proof (induction k arbitrary: idx bidx)
  case 0
  then show ?case by (simp add: same_end_def)
next
  case (Suc k)
  let ?n = "nodes ! unat idx"
  have len: "length nodes \<le> 2048" using wf by (simp add: wf_published_def const_defs)
  then have "unat bidx mod 2048 = unat idx" using Suc.prems by simp
  then have n: "pad_store nodes ! unat (bidx AND of_nat (MLFQ_TREE_MAX_NODES - 1)) = ?n"
    using Suc.prems(2) by (simp only: unat_and_2047_u32 pad_store_nth)
  show ?case
  proof (cases "is_leaf ?n")
    case True
    then show ?thesis
      using Suc.prems n by (simp add: same_end_def is_leaf_def Let_def)
  next
    case False
    have feat: "unat (feature ?n) < MLFQ_TREE_NR_FEATURES"
      using wf_nodeD(1) [OF wf Suc.prems(2)] False by (simp add: node_ok_def)
    obtain idx' where w: "predict_walk (Suc k) nodes (feat_slots f) idx = predict_walk k nodes (feat_slots f) idx'"
      and u: "unat idx' = next_child ?n f"
      using predict_walk_internal [OF wf Suc.prems(2) False] by blast
    define b where "b = (if feat_value f (feature ?n) \<le> threshold ?n then left ?n else right ?n)"
    have "bpf_walk (Suc k) (pad_store nodes) (feat_slots f) bidx = bpf_walk k (pad_store nodes) (feat_slots f) b"
      using n False feature_mask_in_range [OF feat] slot_of_feature [OF feat, of f]
      by (simp add: is_leaf_def Let_def b_def)
    moreover have "unat idx' = unat b" using u by (simp add: b_def next_child_def)
    moreover have "unat idx' < length nodes"
      using wf_children(2) [OF wf Suc.prems(2)] next_child_in [OF False] u by simp
    ultimately show ?thesis using Suc.IH w by simp
  qed
qed

lemma bpf_walk_is_predict:
  assumes wf: "wf_published nodes"
  shows "mlfq_tree_walk (pad_store nodes) f = predict nodes f"
proof -
  have ne: "nodes \<noteq> []" "0 < length nodes" "length nodes \<le> 2048"
    using wf by (auto simp: wf_published_def const_defs)
  have "same_end (length nodes) (predict_walk MLFQ_TREE_MAX_DEPTH nodes (feat_slots f) 0)
      (bpf_walk MLFQ_TREE_MAX_DEPTH (pad_store nodes) (feat_slots f) 0)"
    by (rule walks_agree [OF wf]) (use ne in simp_all)
  then consider (ret) v where "predict_walk MLFQ_TREE_MAX_DEPTH nodes (feat_slots f) 0 = Inl v"
      "bpf_walk MLFQ_TREE_MAX_DEPTH (pad_store nodes) (feat_slots f) 0 = Inl v"
    | (stop) i j where "predict_walk MLFQ_TREE_MAX_DEPTH nodes (feat_slots f) 0 = Inr i"
      "bpf_walk MLFQ_TREE_MAX_DEPTH (pad_store nodes) (feat_slots f) 0 = Inr j"
      "unat i = unat j" "unat i < length nodes"
    unfolding same_end_def by blast
  then show ?thesis
  proof cases
    case ret
    with ne show ?thesis by (simp add: predict_def mlfq_tree_walk_def)
  next
    case stop
    then have "unat j mod 2048 = unat i" using ne by simp
    then have "pad_store nodes ! unat (j AND of_nat (MLFQ_TREE_MAX_NODES - 1)) = nodes ! unat i"
      using stop(4) by (simp only: unat_and_2047_u32 pad_store_nth)
    with stop ne show ?thesis by (simp add: predict_def mlfq_tree_walk_def Let_def)
  qed
qed

text \<open>
  C25. On every validated tree the walk the BPF side runs over the published store entry
  returns what \<open>predict\<close> returns, for every feature vector, although the one bounds its index
  by the node count and the other by the store mask.
\<close>

theorem bpf_walk_agrees:
  assumes "serialize_validate nodes = Ok ()"
  shows "mlfq_tree_walk (pad_store nodes) f = predict nodes f"
  using assms by (simp only: validate_ok_wf bpf_walk_is_predict)

theorem bpf_walk_agrees_witness:
  "serialize_validate split3 = Ok ()
   \<and> mlfq_tree_walk (pad_store split3) feats_default = predict split3 feats_default"
  using bpf_walk_agrees [OF validate_split3] validate_split3 by blast

section \<open>Where the two limits bite\<close>

text \<open>A split on feature 9, which the feature array holds and validation rejects.\<close>

definition split9 :: serialized_tree where
  "split9 = [\<lparr>threshold = 5, left = 1, right = 2, feature = 9, node_pad = replicate 7 0\<rparr>,
             node_default\<lparr>left := 100\<rparr>, node_default\<lparr>left := 200\<rparr>]"

text \<open>One step of either walk, with the bound as a number, to evaluate them.\<close>

lemma predict_walk_rec:
  "0 < k \<Longrightarrow> predict_walk k nodes feat idx =
     (if length nodes \<le> unat idx then Inl 0
      else let node = nodes ! unat idx
           in if right node = 0 then Inl (ucast (left node))
              else predict_walk (k - 1) nodes feat
                ((if feat ! unat (feature node AND 0xF) \<le> threshold node
                  then ucast (left node) else ucast (right node)) AND of_nat (MLFQ_TREE_MAX_NODES - 1)))"
  by (cases k) (simp_all add: Let_def)

lemma bpf_walk_rec:
  "0 < k \<Longrightarrow> bpf_walk k store feat idx =
     (let n = store ! (unat idx mod 2048)
      in if right n = 0 then Inl (ucast (left n))
         else if of_nat MLFQ_TREE_NR_FEATURES \<le> feature n AND 0xF then Inl 0
         else bpf_walk (k - 1) store feat
                (if feat ! unat (feature n AND 0xF) \<le> threshold n then left n else right n))"
  by (cases k) (simp_all add: Let_def unat_and_2047_u32 del: One_nat_def)

text \<open>
  Outside the validated trees the two walks differ: on a split on feature 9 the BPF walk
  stops with no prediction, while \<open>predict\<close> goes on to a leaf.
\<close>

theorem walks_differ_on_feature_9:
  "serialize_validate split9 = Err (Bad_feature 0 9)
   \<and> predict split9 feats_default = 100 \<and> mlfq_tree_walk (pad_store split9) feats_default = 0"
proof (intro conjI)
  show "serialize_validate split9 = Err (Bad_feature 0 9)"
    by (simp add: serialize_validate_def Let_def expand_node_def const_defs split9_def word_le_nat_alt)
  show "predict split9 feats_default = 100"
    by (simp add: predict_def predict_walk_rec Let_def feat_slots_def feats_default_def const_defs
        split9_def node_default_def)
  have "pad_store split9 ! 0 = split9 ! 0" by (rule pad_store_nth) (simp add: split9_def)
  then show "mlfq_tree_walk (pad_store split9) feats_default = 0"
    by (simp add: mlfq_tree_walk_def bpf_walk_rec Let_def const_defs split9_def word_le_nat_alt)
qed

text \<open>
  Internal nodes 0 to 12, each with the next two nodes as children, and two leaves: every
  node is at most 7 edges below the root, but the leftmost path has 13.
\<close>

definition ladder :: serialized_tree where
  "ladder = map (\<lambda>i. \<lparr>threshold = 5, left = of_nat (i + 1), right = of_nat (i + 2), feature = 0,
      node_pad = replicate 7 0\<rparr>) [0..<13] @ [node_default\<lparr>left := 100\<rparr>, node_default\<lparr>left := 200\<rparr>]"

lemma ladder_nth:
  "length ladder = 15"
  "ladder ! 0 = \<lparr>threshold = 5, left = 1, right = 2, feature = 0, node_pad = replicate 7 0\<rparr>"
  "ladder ! Suc 0 = \<lparr>threshold = 5, left = 2, right = 3, feature = 0, node_pad = replicate 7 0\<rparr>"
  "ladder ! 2 = \<lparr>threshold = 5, left = 3, right = 4, feature = 0, node_pad = replicate 7 0\<rparr>"
  "ladder ! 3 = \<lparr>threshold = 5, left = 4, right = 5, feature = 0, node_pad = replicate 7 0\<rparr>"
  "ladder ! 4 = \<lparr>threshold = 5, left = 5, right = 6, feature = 0, node_pad = replicate 7 0\<rparr>"
  "ladder ! 5 = \<lparr>threshold = 5, left = 6, right = 7, feature = 0, node_pad = replicate 7 0\<rparr>"
  "ladder ! 6 = \<lparr>threshold = 5, left = 7, right = 8, feature = 0, node_pad = replicate 7 0\<rparr>"
  "ladder ! 7 = \<lparr>threshold = 5, left = 8, right = 9, feature = 0, node_pad = replicate 7 0\<rparr>"
  "ladder ! 8 = \<lparr>threshold = 5, left = 9, right = 10, feature = 0, node_pad = replicate 7 0\<rparr>"
  "ladder ! 9 = \<lparr>threshold = 5, left = 10, right = 11, feature = 0, node_pad = replicate 7 0\<rparr>"
  "ladder ! 10 = \<lparr>threshold = 5, left = 11, right = 12, feature = 0, node_pad = replicate 7 0\<rparr>"
  "ladder ! 11 = \<lparr>threshold = 5, left = 12, right = 13, feature = 0, node_pad = replicate 7 0\<rparr>"
  "ladder ! 12 = \<lparr>threshold = 5, left = 13, right = 14, feature = 0, node_pad = replicate 7 0\<rparr>"
  "ladder ! 13 = node_default\<lparr>left := 100\<rparr>"
  "ladder ! 14 = node_default\<lparr>left := 200\<rparr>"
  by (simp_all add: ladder_def upt_rec)

lemma replicate_15: "replicate 15 u = [u,u,u,u,u,u,u,u,u,u,u,u,u,u,(u::nat)]"
  by (simp add: numeral_eq_Suc)
lemma list_update_numeral: "(u # us)[numeral k := x] = u # us[pred_numeral k := x]" by (simp add: numeral_eq_Suc)
lemma ladder_depths:
  "(replicate 15 unmet)
     [0 := 0, Suc 0 := Suc 0, 2 := Suc 0, 3 := Suc (Suc 0),
        4 := Suc (Suc 0), 5 := Suc (Suc (Suc 0)), 6 := Suc (Suc (Suc 0)),
        7 := Suc (Suc (Suc (Suc 0))), 8 := Suc (Suc (Suc (Suc 0))),
        9 := Suc (Suc (Suc (Suc (Suc 0)))),
        10 := Suc (Suc (Suc (Suc (Suc 0)))),
        11 := Suc (Suc (Suc (Suc (Suc (Suc 0))))),
        12 := Suc (Suc (Suc (Suc (Suc (Suc 0))))),
        13 := Suc (Suc (Suc (Suc (Suc (Suc (Suc 0)))))),
        14 := Suc (Suc (Suc (Suc (Suc (Suc (Suc 0))))))] = [0,1,1,2,2,3,3,4,4,5,5,6,6,7,7::nat]"
  by (simp add: replicate_15 list_update_numeral)

text \<open>
  Validation measures the shortest path to a node, so a tree with shared nodes can be
  accepted although a prediction walks past the depth bound and ends without a leaf.
\<close>

theorem shared_nodes_exhaust_walk:
  "serialize_validate ladder = Ok () \<and> predict ladder feats_default = 0
   \<and> filter (\<lambda>n. is_leaf n \<and> left n = 0) ladder = []"
proof (intro conjI)
  show "serialize_validate ladder = Ok ()"
    unfolding serialize_validate_def Let_def ladder_nth
    by (simp add: expand_node_def visit_child_def const_defs ladder_nth node_default_def
      word_le_nat_alt ladder_depths check_depths_ok)
  show "predict ladder feats_default = 0"
    by (simp add: predict_def predict_walk_rec Let_def feat_slots_def feats_default_def const_defs
        ladder_nth node_default_def)
  show "filter (\<lambda>n. is_leaf n \<and> left n = 0) ladder = []"
    by (simp add: ladder_def is_leaf_def node_default_def upt_rec)
qed

text \<open>
  The last test of validation never fires: a node the breadth-first pass does not reach
  keeps the depth \<open>usize::MAX\<close>, which the test before it already rejects as too deep.
\<close>

theorem never_not_reachable: "serialize_validate nodes \<noteq> Err (Not_reachable i)"
proof -
  have "check_depths k ds \<noteq> Err (Not_reachable i)" for k ds
    by (induction ds arbitrary: k) (auto simp: const_defs)
  moreover have "validate_bfs nodes d q \<noteq> Err (Not_reachable i)" for d q
    by (induction nodes d q rule: validate_bfs.induct)
      (auto simp: expand_node_def visit_child_def Let_def split: sum.splits prod.splits if_splits)
  ultimately show ?thesis
    by (auto simp: serialize_validate_def Let_def simp del: validate_bfs.simps split: sum.splits)
qed

end
