(* ===== verification/TreeGrow.thy ===== *)
theory TreeGrow
  imports TreeSplit TreePredict
begin

text \<open>
  What the growth produces. \<open>grow_inv\<close> is the invariant of the breadth-first loop: the nodes
  so far form a tree without shared nodes within the limits, every queued node is an empty
  placeholder that holds exactly the training samples routed to it, and every finished leaf is
  the weighted mean of the samples routed to it. At the end there are no placeholders left, so
  the tree passes validation and predicts the means.
\<close>

section \<open>Trees that grow at a leaf\<close>

definition extends :: "serialized_tree \<Rightarrow> serialized_tree \<Rightarrow> bool" where
  "extends nodes nodes' \<longleftrightarrow> length nodes \<le> length nodes'
     \<and> (\<forall>j < length nodes. \<not> is_leaf (nodes ! j) \<longrightarrow> nodes' ! j = nodes ! j)"

lemma extends_reach:
  assumes "extends nodes nodes'"
  shows "reach_in nodes k i \<Longrightarrow> reach_in nodes' k i"
proof (induction rule: reach_in.induct)
  case root
  then show ?case by (rule reach_in.root)
next
  case (step k i c)
  then have "\<not> is_leaf (nodes ! i)" by (auto simp: children_def)
  then show ?case
    using step assms by (intro reach_in.step [of nodes' k i]) (auto simp: extends_def)
qed

lemma extends_routes:
  assumes "extends nodes nodes'"
  shows "routes_to nodes f a j \<Longrightarrow> routes_to nodes' f j k \<Longrightarrow> routes_to nodes' f a k"
proof (induction rule: routes_to.induct)
  case (leaf i)
  then show ?case by simp
next
  case (split i j)
  then have "i < length nodes'" "\<not> is_leaf (nodes' ! i)" "nodes' ! i = nodes ! i"
    using assms by (simp_all add: extends_def)
  moreover have "routes_to nodes' f (next_child (nodes ! i) f) k"
    by (rule split.IH [OF split.prems])
  ultimately show ?case using routes_to.split [of i nodes' f k] by simp
qed

lemma routes_total:
  assumes "\<forall>i < length nodes. node_ok nodes i"
  shows "i < length nodes \<Longrightarrow> \<exists>j. routes_to nodes f i j"
proof (induction "length nodes - i" arbitrary: i rule: less_induct)
  case less
  show ?case
  proof (cases "is_leaf (nodes ! i)")
    case True
    with less.prems show ?thesis by (blast intro: routes_to.leaf)
  next
    case False
    let ?c = "next_child (nodes ! i) f"
    have "i < ?c" "?c < length nodes"
      using next_child_in [OF False] assms less.prems unfolding node_ok_def by blast+
    then obtain j where "routes_to nodes f ?c j"
      using less.hyps [of ?c] diff_less_mono2 [of i ?c "length nodes"] less.prems by blast
    with routes_to.split [OF less.prems False] show ?thesis by blast
  qed
qed

section \<open>The samples routed to a leaf\<close>

definition routed :: "serialized_tree \<Rightarrow> weighted_sample list \<Rightarrow> nat \<Rightarrow> weighted_sample list" where
  "routed nodes ws i = filter (\<lambda>x. routes_to nodes (feats (fst x)) 0 i) ws"

text \<open>Turning the leaf \<open>i\<close> into a split with two new leaves.\<close>

definition split_at :: "serialized_tree \<Rightarrow> nat \<Rightarrow> u8 \<Rightarrow> u64 \<Rightarrow> serialized_tree" where
  "split_at nodes i f t =
     nodes[i := split_node f t (of_nat (length nodes))] @ [node_default, node_default]"

definition leaf_at :: "serialized_tree \<Rightarrow> nat \<Rightarrow> weighted_sample list \<Rightarrow> serialized_tree" where
  "leaf_at nodes i xs = nodes[i := leaf_node xs]"

lemma is_leaf_leaf_node [simp]: "is_leaf (leaf_node xs)"
  by (simp add: leaf_node_def is_leaf_def split: prod.splits)

lemma is_leaf_default [simp]: "is_leaf node_default"
  by (simp add: node_default_def is_leaf_def)

lemma children_default [simp]: "children node_default = []" "children (leaf_node xs) = []"
  by (simp_all add: children_def)

text \<open>The situation in which a placeholder is split.\<close>

definition can_split :: "serialized_tree \<Rightarrow> nat \<Rightarrow> bool" where
  "can_split nodes i \<longleftrightarrow>
     length nodes + 2 \<le> MLFQ_TREE_MAX_NODES \<and> i < length nodes \<and> is_leaf (nodes ! i)"

lemma split_children:
  assumes "can_split nodes i"
  shows "unat (left (split_node f t (of_nat (length nodes)))) = length nodes"
    and "unat (right (split_node f t (of_nat (length nodes)))) = length nodes + 1"
    and "\<not> is_leaf (split_node f t (of_nat (length nodes)))"
    and "children (split_node f t (of_nat (length nodes))) = [length nodes, length nodes + 1]"
proof -
  have "length nodes + 1 < 4294967296" using assms by (simp add: can_split_def const_defs)
  then have l: "unat (of_nat (length nodes) :: u32) = length nodes"
    and r: "unat (of_nat (length nodes) + 1 :: u32) = length nodes + 1"
    using unat_of_nat_u32 [of "length nodes"] unat_of_nat_u32 [of "length nodes + 1"]
    by (simp_all add: add.commute)
  then show "unat (left (split_node f t (of_nat (length nodes)))) = length nodes"
    and ur: "unat (right (split_node f t (of_nat (length nodes)))) = length nodes + 1"
    by (simp_all add: split_node_def)
  then show nl: "\<not> is_leaf (split_node f t (of_nat (length nodes)))"
    by (auto simp: is_leaf_def)
  show "children (split_node f t (of_nat (length nodes))) = [length nodes, length nodes + 1]"
    using nl ur l by (simp add: children_def split_node_def)
qed

lemma split_at_nth:
  assumes "can_split nodes i"
  shows "length (split_at nodes i f t) = length nodes + 2"
    and "split_at nodes i f t ! i = split_node f t (of_nat (length nodes))"
    and "j < length nodes \<Longrightarrow> j \<noteq> i \<Longrightarrow> split_at nodes i f t ! j = nodes ! j"
    and "split_at nodes i f t ! length nodes = node_default"
    and "split_at nodes i f t ! Suc (length nodes) = node_default"
  using assms by (simp_all add: can_split_def split_at_def nth_append)

lemma split_extends:
  assumes "can_split nodes i"
  shows "extends nodes (split_at nodes i f t)"
  unfolding extends_def
proof (intro conjI allI impI)
  fix j assume j: "j < length nodes" "\<not> is_leaf (nodes ! j)"
  with assms have "j \<noteq> i" by (auto simp: can_split_def)
  with j show "split_at nodes i f t ! j = nodes ! j" by (simp add: split_at_nth [OF assms])
qed (simp add: split_at_nth [OF assms])

lemma split_routes_new:
  assumes cs: "can_split nodes i" and r: "routes_to nodes g 0 i"
  shows "routes_to (split_at nodes i f t) g 0 (if feat_value g f \<le> t then length nodes else Suc (length nodes))"
proof (rule extends_routes [OF split_extends [OF cs] r])
  let ?nodes = "split_at nodes i f t"
  let ?j = "if feat_value g f \<le> t then length nodes else Suc (length nodes)"
  note n = split_at_nth [OF cs, where f = f and t = t]
  have next_j: "next_child (?nodes ! i) g = ?j"
    unfolding n(2) next_child_def split_children [OF cs] by (simp add: split_node_def)
  have "i < length ?nodes" "\<not> is_leaf (?nodes ! i)"
    using cs n split_children(3) [OF cs] by (simp_all add: can_split_def)
  moreover have "?j < length ?nodes" "is_leaf (?nodes ! ?j)"
    using n by simp_all
  then have "routes_to ?nodes g (next_child (?nodes ! i) g) ?j"
    unfolding next_j by (rule routes_to.leaf)
  ultimately show "routes_to ?nodes g i ?j" by (rule routes_to.split)
qed

lemma split_routes_old:
  assumes cs: "can_split nodes i" and r: "routes_to nodes g 0 j" and "j \<noteq> i"
  shows "routes_to (split_at nodes i f t) g 0 j"
proof (rule extends_routes [OF split_extends [OF cs] r], rule routes_to.leaf)
  have "j < length nodes" "is_leaf (nodes ! j)" using routes_to_leaf [OF r] by auto
  then show "j < length (split_at nodes i f t)" "is_leaf (split_at nodes i f t ! j)"
    using split_at_nth [OF cs, where f = f and t = t] assms(3) by simp_all
qed

text \<open>Where a feature vector goes in the grown tree, in terms of where it went before.\<close>

lemma split_routes_iff:
  assumes cs: "can_split nodes i" and ok: "\<forall>j < length nodes. node_ok nodes j"
  shows "routes_to (split_at nodes i f t) g 0 j \<longleftrightarrow>
    (j \<noteq> i \<and> routes_to nodes g 0 j)
    \<or> (routes_to nodes g 0 i \<and> j = (if feat_value g f \<le> t then length nodes else Suc (length nodes)))"
proof -
  have "0 < length nodes" using cs by (auto simp: can_split_def)
  then obtain j0 where j0: "routes_to nodes g 0 j0" using routes_total [OF ok] by blast
  have old: "routes_to nodes g 0 k \<longleftrightarrow> k = j0" for k
    using j0 routes_to_unique by blast
  define j1 where "j1 = (if j0 = i then if feat_value g f \<le> t then length nodes else Suc (length nodes) else j0)"
  have "routes_to (split_at nodes i f t) g 0 j1"
    using split_routes_new [OF cs, of g f t] split_routes_old [OF cs j0, of f t] j0
    unfolding j1_def by (cases "j0 = i") simp_all
  then have new: "routes_to (split_at nodes i f t) g 0 k \<longleftrightarrow> k = j1" for k
    using routes_to_unique by blast
  show ?thesis unfolding old new j1_def by auto
qed

lemma split_routed:
  assumes cs: "can_split nodes i" and ok: "\<forall>j < length nodes. node_ok nodes j"
  shows "j < length nodes \<Longrightarrow> j \<noteq> i \<Longrightarrow> routed (split_at nodes i f t) ws j = routed nodes ws j"
    and "routed (split_at nodes i f t) ws (length nodes) = fst (partition (routed nodes ws i) f t)"
    and "routed (split_at nodes i f t) ws (Suc (length nodes)) = snd (partition (routed nodes ws i) f t)"
proof -
  have i: "i < length nodes" using cs by (simp add: can_split_def)
  have out: "\<not> routes_to nodes g 0 j" if "length nodes \<le> j" for g j
    using that routes_to_leaf [of nodes g 0 j] by auto
  note iff = split_routes_iff [OF cs ok]
  show "routed (split_at nodes i f t) ws j = routed nodes ws j" if "j < length nodes" "j \<noteq> i"
    unfolding routed_def iff using that by (intro filter_cong) auto
  show "routed (split_at nodes i f t) ws (length nodes) = fst (partition (routed nodes ws i) f t)"
    unfolding routed_def iff partition_filter fst_conv filter_filter sample_value_def
    using i out by (intro filter_cong) auto
  show "routed (split_at nodes i f t) ws (Suc (length nodes)) = snd (partition (routed nodes ws i) f t)"
    unfolding routed_def iff partition_filter snd_conv filter_filter sample_value_def
    using i out by (intro filter_cong) auto
qed

text \<open>Filling a placeholder with its prediction changes no route.\<close>

lemma leaf_at_nth:
  "length (leaf_at nodes i xs) = length nodes"
  "j \<noteq> i \<Longrightarrow> leaf_at nodes i xs ! j = nodes ! j"
  "i < length nodes \<Longrightarrow> leaf_at nodes i xs ! i = leaf_node xs"
  by (simp_all add: leaf_at_def)

lemma leaf_at_is_leaf:
  "is_leaf (nodes ! i) \<Longrightarrow> j < length nodes \<Longrightarrow> is_leaf (leaf_at nodes i xs ! j) = is_leaf (nodes ! j)"
  by (cases "j = i") (simp_all add: leaf_at_nth)

lemma leaf_at_children:
  "is_leaf (nodes ! i) \<Longrightarrow> j < length nodes \<Longrightarrow> children (leaf_at nodes i xs ! j) = children (nodes ! j)"
  by (cases "j = i") (simp_all add: leaf_at_nth children_def)

lemma leaf_at_extends: "is_leaf (nodes ! i) \<Longrightarrow> extends nodes (leaf_at nodes i xs)"
  unfolding extends_def
  by (metis leaf_at_nth(1,2) order_refl)

lemma leaf_at_routed:
  assumes leaf: "is_leaf (nodes ! i)" and ok: "\<forall>j < length nodes. node_ok nodes j" and ne: "0 < length nodes"
  shows "routed (leaf_at nodes i xs) ws j = routed nodes ws j"
proof -
  have "routes_to (leaf_at nodes i xs) g 0 k \<longleftrightarrow> routes_to nodes g 0 k" for g k
  proof -
    obtain j0 where j0: "routes_to nodes g 0 j0" using routes_total [OF ok ne] by blast
    have l: "j0 < length nodes" "is_leaf (nodes ! j0)" using routes_to_leaf [OF j0] by auto
    then have "routes_to (leaf_at nodes i xs) g j0 j0"
      by (intro routes_to.leaf) (simp_all add: leaf_at_nth(1) leaf_at_is_leaf [OF leaf])
    from extends_routes [OF leaf_at_extends [OF leaf] j0 this] j0 show ?thesis
      using routes_to_unique by blast
  qed
  then show ?thesis by (simp add: routed_def)
qed

section \<open>The invariant of the growth loop\<close>

text \<open>A node sits within the depth bound, strictly if it is internal.\<close>

definition depth_ok :: "nat \<Rightarrow> serialized_tree \<Rightarrow> nat \<Rightarrow> bool" where
  "depth_ok d nodes i \<longleftrightarrow> (\<exists>k \<le> d. reach_in nodes k i) \<and> (\<not> is_leaf (nodes ! i) \<longrightarrow> (\<exists>k < d. reach_in nodes k i))"

definition spec_ok :: "fit_params \<Rightarrow> serialized_tree \<Rightarrow> weighted_sample list \<Rightarrow> node_spec \<Rightarrow> bool" where
  "spec_ok p nodes ws spec \<longleftrightarrow> spec_idx spec < length nodes \<and> is_leaf (nodes ! spec_idx spec)
     \<and> spec_depth spec \<le> max_depth p \<and> reach_in nodes (spec_depth spec) (spec_idx spec)
     \<and> spec_samples spec = routed nodes ws (spec_idx spec)"

definition leaf_count_ok :: "fit_params \<Rightarrow> serialized_tree \<Rightarrow> weighted_sample list \<Rightarrow> bool" where
  "leaf_count_ok p nodes ws \<longleftrightarrow> (\<forall>i < length nodes. is_leaf (nodes ! i) \<longrightarrow>
     length nodes = 1 \<or> min_samples_leaf p \<le> length (routed nodes ws i) \<and> routed nodes ws i \<noteq> [])"

definition shape_ok :: "fit_params \<Rightarrow> serialized_tree \<Rightarrow> bool" where
  "shape_ok p nodes \<longleftrightarrow> 1 \<le> length nodes \<and> length nodes \<le> max_nodes p \<and> tree_shaped nodes
     \<and> (\<forall>i < length nodes. node_ok nodes i \<and> depth_ok (max_depth p) nodes i)"

definition grow_inv :: "fit_params \<Rightarrow> weighted_sample list \<Rightarrow> serialized_tree \<Rightarrow> node_spec list \<Rightarrow> bool" where
  "grow_inv p ws nodes queue \<longleftrightarrow> shape_ok p nodes \<and> leaf_count_ok p nodes ws
     \<and> distinct (map spec_idx queue) \<and> (\<forall>spec \<in> set queue. spec_ok p nodes ws spec)
     \<and> (\<forall>i < length nodes. is_leaf (nodes ! i) \<longrightarrow>
          i \<in> spec_idx ` set queue \<or> nodes ! i = leaf_node (routed nodes ws i))"

end
