(* ===== verification/TreeFitOk.thy ===== *)
theory TreeFitOk
  imports TreeGrow
begin

text \<open>
  The fit is correct. Both branches of a growth step keep \<open>grow_inv\<close>, so the finished tree
  passes \<open>serialize_validate\<close>, has no shared nodes, and predicts for every feature vector the
  weighted mean of the training samples of its leaf; the scratch arena leaves no trace in it.
\<close>

section \<open>Every step keeps the invariant\<close>

lemma split_at_children:
  assumes cs: "can_split nodes i" and j: "j < length nodes + 2"
  shows "children (split_at nodes i f t ! j) =
    (if j = i then [length nodes, length nodes + 1] else if j < length nodes then children (nodes ! j) else [])"
proof -
  have i: "i < length nodes" using cs by (simp add: can_split_def)
  consider "j = i" | "j \<noteq> i" "j < length nodes" | "j = length nodes" | "j = Suc (length nodes)"
    using j by linarith
  then show ?thesis
    by cases (use i in \<open>simp_all add: split_at_nth [OF cs] split_children(4) [OF cs]\<close>)
qed

lemma split_at_node_ok:
  assumes cs: "can_split nodes i" and ok: "\<forall>j < length nodes. node_ok nodes j"
    and f: "unat f < MLFQ_TREE_NR_FEATURES" and j: "j < length nodes + 2"
  shows "node_ok (split_at nodes i f t) j"
proof -
  have i: "i < length nodes" using cs by (simp add: can_split_def)
  consider "j = i" | "j \<noteq> i" "j < length nodes" | "j = length nodes" | "j = Suc (length nodes)"
    using j by linarith
  then show ?thesis
  proof cases
    case 1
    then show ?thesis
      using i f split_at_nth(1,2) [OF cs, of f t] split_at_children [OF cs j, of f t]
      by (simp add: node_ok_def split_node_def)
  next
    case 2
    then have "node_ok nodes j" using ok by blast
    then show ?thesis
      using 2 split_at_nth(1,3) [OF cs, where f = f and t = t] split_at_children [OF cs j, of f t]
      by (auto simp: node_ok_def)
  qed (simp_all add: node_ok_def split_at_nth [OF cs])
qed

lemma split_at_tree_shaped:
  assumes cs: "can_split nodes i" and ok: "\<forall>j < length nodes. node_ok nodes j" and sh: "tree_shaped nodes"
  shows "tree_shaped (split_at nodes i f t)"
proof -
  have old: "c < length nodes" if "c \<in> set (children (nodes ! j))" "j < length nodes" for c j
    using ok that unfolding node_ok_def by blast
  show ?thesis
    unfolding tree_shaped_def split_at_nth(1) [OF cs]
  proof (intro allI impI)
    fix a b c assume a: "a < length nodes + 2" and b: "b < length nodes + 2"
      and c: "c \<in> set (children (split_at nodes i f t ! a)) \<and> c \<in> set (children (split_at nodes i f t ! b))"
    show "a = b"
      using c sh old [of c a] old [of c b]
      unfolding split_at_children [OF cs a] split_at_children [OF cs b] tree_shaped_def
      by (auto split: if_splits)
  qed
qed

lemma split_at_depth_ok:
  assumes cs: "can_split nodes i" and ok: "\<forall>j < length nodes. depth_ok d nodes j"
    and r: "reach_in nodes k i" "k < d" and j: "j < length nodes + 2"
  shows "depth_ok d (split_at nodes i f t) j"
proof -
  let ?nodes = "split_at nodes i f t"
  have i: "i < length nodes" using cs by (simp add: can_split_def)
  note ext = extends_reach [OF split_extends [OF cs, of f t]]
  have new: "reach_in ?nodes (Suc k) c" if "c = length nodes \<or> c = Suc (length nodes)" for c
    by (rule reach_in.step [OF ext [OF r(1)]])
      (use i that in \<open>auto simp: split_at_nth [OF cs] split_children(4) [OF cs]\<close>)
  consider "j = i" | "j \<noteq> i" "j < length nodes" | "j = length nodes" | "j = Suc (length nodes)"
    using j by linarith
  then show ?thesis
  proof cases
    case 1
    with ext [OF r(1)] r(2) show ?thesis unfolding depth_ok_def by (meson less_imp_le)
  next
    case 2
    with ok have "depth_ok d nodes j" by blast
    moreover have "?nodes ! j = nodes ! j" by (rule split_at_nth(3) [OF cs 2(2,1)])
    ultimately show ?thesis
      unfolding depth_ok_def by (metis ext)
  next
    case 3
    with new [of j] r(2) split_at_nth(4) [OF cs, of f t] show ?thesis
      unfolding depth_ok_def by (auto intro: exI [of _ "Suc k"])
  next
    case 4
    with new [of j] r(2) split_at_nth(5) [OF cs, of f t] show ?thesis
      unfolding depth_ok_def by (auto intro: exI [of _ "Suc k"])
  qed
qed

lemma split_at_shape:
  assumes cs: "can_split nodes i" and sh: "shape_ok p nodes" and room: "length nodes + 2 \<le> max_nodes p"
    and r: "reach_in nodes k i" "k < max_depth p" and f: "unat f < MLFQ_TREE_NR_FEATURES"
  shows "shape_ok p (split_at nodes i f t)"
proof -
  have ok: "\<forall>j < length nodes. node_ok nodes j" "\<forall>j < length nodes. depth_ok (max_depth p) nodes j"
    and ts: "tree_shaped nodes"
    using sh by (simp_all add: shape_ok_def)
  show ?thesis
    unfolding shape_ok_def
    using room split_at_tree_shaped [OF cs ok(1) ts] split_at_node_ok [OF cs ok(1) f]
      split_at_depth_ok [OF cs ok(2) r]
    by (simp add: split_at_nth(1) [OF cs])
qed

text \<open>The leaves of the grown tree: the old ones but \<open>i\<close>, and the two new ones.\<close>

lemma split_at_leaf_cases:
  assumes cs: "can_split nodes i" and j: "j < length (split_at nodes i f t)"
    and l: "is_leaf (split_at nodes i f t ! j)"
  obtains (old) "j \<noteq> i" "j < length nodes" "is_leaf (nodes ! j)" "split_at nodes i f t ! j = nodes ! j"
  | (left_leaf) "j = length nodes" | (right_leaf) "j = Suc (length nodes)"
proof -
  have "j \<noteq> i"
    using l split_at_nth(2) [OF cs, of f t] split_children(3) [OF cs, of f t] by auto
  moreover have "j < length nodes \<Longrightarrow> split_at nodes i f t ! j = nodes ! j"
    using \<open>j \<noteq> i\<close> by (simp add: split_at_nth(3) [OF cs])
  moreover have "j < length nodes \<or> j = length nodes \<or> j = Suc (length nodes)"
    using j unfolding split_at_nth(1) [OF cs] by linarith
  ultimately show ?thesis using l that by metis
qed

lemma split_at_leaf_count:
  assumes cs: "can_split nodes i" and ok: "\<forall>j < length nodes. node_ok nodes j"
    and lc: "leaf_count_ok p nodes ws"
    and sides: "min_samples_leaf p \<le> length (fst (partition (routed nodes ws i) f t))"
      "min_samples_leaf p \<le> length (snd (partition (routed nodes ws i) f t))"
      "fst (partition (routed nodes ws i) f t) \<noteq> []" "snd (partition (routed nodes ws i) f t) \<noteq> []"
  shows "leaf_count_ok p (split_at nodes i f t) ws"
  unfolding leaf_count_ok_def
proof (intro allI impI)
  fix j assume j: "j < length (split_at nodes i f t)" and l: "is_leaf (split_at nodes i f t ! j)"
  from cs j l have "min_samples_leaf p \<le> length (routed (split_at nodes i f t) ws j) \<and> routed (split_at nodes i f t) ws j \<noteq> []"
  proof (cases rule: split_at_leaf_cases)
    case old
    then have "length nodes \<noteq> 1" using cs by (auto simp: can_split_def)
    with old lc show ?thesis
      unfolding leaf_count_ok_def split_routed(1) [OF cs ok old(2,1)] by blast
  next
    case left_leaf
    with sides show ?thesis by (simp only: split_routed(2) [OF cs ok] simp_thms)
  next
    case right_leaf
    with sides show ?thesis by (simp only: split_routed(3) [OF cs ok] simp_thms)
  qed
  then show "length (split_at nodes i f t) = 1 \<or> min_samples_leaf p \<le> length (routed (split_at nodes i f t) ws j)
      \<and> routed (split_at nodes i f t) ws j \<noteq> []" by blast
qed

section \<open>The loop\<close>

text \<open>What the step does to the nodes and to the queue, the two parts that drive the loop.\<close>

lemma node_split_fst:
  "fst (node_split p spec n srt) = (if splittable p spec n
     then best_split (spec_samples spec) (min_samples_leaf p) (node_sse (spec_samples spec)) (min_rel_var_reduction p)
     else None)"
  by (simp add: node_split_def best_split_with_scratch_fst)

definition child_specs :: "nat \<Rightarrow> node_spec \<Rightarrow> u8 \<Rightarrow> u64 \<Rightarrow> node_spec list" where
  "child_specs n spec f t =
     [\<lparr>spec_idx = unat (of_nat n :: u32), spec_samples = fst (partition (spec_samples spec) f t),
       spec_depth = spec_depth spec + 1\<rparr>,
      \<lparr>spec_idx = unat (of_nat n + 1 :: u32), spec_samples = snd (partition (spec_samples spec) f t),
       spec_depth = spec_depth spec + 1\<rparr>]"

lemma grow_step_view:
  "fs_nodes (grow_step p spec s) =
    (case fst (node_split p spec (length (fs_nodes s)) (fs_sorted s)) of
       Some (f, t) \<Rightarrow> split_at (fs_nodes s) (spec_idx spec) f t
     | None \<Rightarrow> leaf_at (fs_nodes s) (spec_idx spec) (spec_samples spec))"
  "fs_queue (grow_step p spec s) =
    (case fst (node_split p spec (length (fs_nodes s)) (fs_sorted s)) of
       Some (f, t) \<Rightarrow> fs_queue s @ child_specs (length (fs_nodes s)) spec f t
     | None \<Rightarrow> fs_queue s)"
  by (cases p spec s rule: grow_step_cases; simp add: split_at_def leaf_at_def child_specs_def)+

lemma grow_inv_leaf:
  assumes inv: "grow_inv p ws nodes (spec # queue)"
  shows "grow_inv p ws (leaf_at nodes (spec_idx spec) (spec_samples spec)) queue"
proof -
  let ?i = "spec_idx spec" and ?nodes = "leaf_at nodes (spec_idx spec) (spec_samples spec)"
  have i: "?i < length nodes" and leaf: "is_leaf (nodes ! ?i)" and smp: "spec_samples spec = routed nodes ws ?i"
    and sh: "shape_ok p nodes" and lc: "leaf_count_ok p nodes ws"
    and q: "distinct (map spec_idx queue)" "?i \<notin> spec_idx ` set queue"
      "\<And>x. x \<in> set queue \<Longrightarrow> spec_ok p nodes ws x"
    and fin: "\<And>j. j < length nodes \<Longrightarrow> is_leaf (nodes ! j) \<Longrightarrow>
      j = ?i \<or> j \<in> spec_idx ` set queue \<or> nodes ! j = leaf_node (routed nodes ws j)"
    using inv by (auto simp: grow_inv_def spec_ok_def)
  have ok: "\<forall>j < length nodes. node_ok nodes j" and ne: "0 < length nodes"
    using sh by (auto simp: shape_ok_def)
  note ext = extends_reach [OF leaf_at_extends [OF leaf, of "spec_samples spec"]]
  note rt = leaf_at_routed [OF leaf ok ne, of "spec_samples spec" ws]
  note ch = leaf_at_children [OF leaf] and lf = leaf_at_is_leaf [OF leaf] and len = leaf_at_nth(1)
  have nok: "node_ok ?nodes j" if "j < length nodes" for j
  proof (cases "j = ?i")
    case True
    then show ?thesis using i by (simp add: node_ok_def leaf_at_nth)
  next
    case False
    have "node_ok nodes j" using ok that by blast
    with False show ?thesis by (simp add: node_ok_def leaf_at_nth)
  qed
  have "tree_shaped ?nodes"
    unfolding tree_shaped_def len
  proof (intro allI impI)
    fix a b c assume "a < length nodes" "b < length nodes"
      and "c \<in> set (children (?nodes ! a)) \<and> c \<in> set (children (?nodes ! b))"
    then show "a = b" using sh unfolding shape_ok_def tree_shaped_def by (simp only: ch)
  qed
  moreover have "depth_ok (max_depth p) ?nodes j" if "j < length nodes" for j
    using sh that ext unfolding shape_ok_def depth_ok_def lf [OF that] by meson
  ultimately have "shape_ok p ?nodes"
    using sh nok by (simp add: shape_ok_def len)
  moreover have "leaf_count_ok p ?nodes ws"
    using lc by (simp add: leaf_count_ok_def len lf rt)
  moreover have "spec_ok p ?nodes ws x" if "x \<in> set queue" for x
    using q(3) [OF that] ext by (simp add: spec_ok_def len lf rt)
  moreover have "j \<in> spec_idx ` set queue \<or> ?nodes ! j = leaf_node (routed ?nodes ws j)"
    if "j < length nodes" "is_leaf (nodes ! j)" for j
  proof (cases "j = ?i")
    case True
    then show ?thesis using i smp rt by (simp add: leaf_at_nth)
  next
    case False
    then show ?thesis using fin [OF that] rt by (simp add: leaf_at_nth)
  qed
  ultimately show ?thesis
    using q(1) by (simp add: grow_inv_def len lf)
qed

lemma grow_inv_split:
  assumes inv: "grow_inv p ws nodes (spec # queue)"
    and lim: "max_nodes p \<le> MLFQ_TREE_MAX_NODES" "length nodes + 2 \<le> max_nodes p" "spec_depth spec < max_depth p"
    and best: "best_split (spec_samples spec) (min_samples_leaf p) sse mr = Some (f, t)"
  shows "grow_inv p ws (split_at nodes (spec_idx spec) f t) (queue @ child_specs (length nodes) spec f t)"
proof -
  let ?i = "spec_idx spec" and ?nodes = "split_at nodes (spec_idx spec) f t"
  have i: "?i < length nodes" and leaf: "is_leaf (nodes ! ?i)" and smp: "spec_samples spec = routed nodes ws ?i"
    and sh: "shape_ok p nodes" and lc: "leaf_count_ok p nodes ws"
    and r: "reach_in nodes (spec_depth spec) ?i"
    and q: "distinct (map spec_idx queue)" "?i \<notin> spec_idx ` set queue"
      "\<And>x. x \<in> set queue \<Longrightarrow> spec_ok p nodes ws x"
    and fin: "\<And>j. j < length nodes \<Longrightarrow> is_leaf (nodes ! j) \<Longrightarrow>
      j = ?i \<or> j \<in> spec_idx ` set queue \<or> nodes ! j = leaf_node (routed nodes ws j)"
    using inv by (auto simp: grow_inv_def spec_ok_def)
  have ok: "\<forall>j < length nodes. node_ok nodes j" using sh by (simp add: shape_ok_def)
  have cs: "can_split nodes ?i" using lim i leaf by (simp add: can_split_def)
  note bs = best_split_sound [OF best]
  note sides = bs(2-5) [unfolded smp]
  note ext = extends_reach [OF split_extends [OF cs, of f t]]
  note len = split_at_nth(1) [OF cs]
  have idx: "map spec_idx (child_specs (length nodes) spec f t) = [length nodes, Suc (length nodes)]"
    using split_children(1,2) [OF cs] by (simp add: child_specs_def split_node_def)
  have fresh: "x < length nodes" if "x \<in> spec_idx ` set queue" for x
    using q(3) that by (auto simp: spec_ok_def)
  have "distinct (map spec_idx (queue @ child_specs (length nodes) spec f t))"
    unfolding map_append idx using q(1) fresh by fastforce
  moreover have "spec_ok p ?nodes ws x" if x: "x \<in> set queue" for x
  proof -
    have "spec_idx x \<noteq> ?i" using q(2) x by (metis image_eqI)
    moreover have "spec_idx x < length nodes" using q(3) [OF x] by (simp add: spec_ok_def)
    ultimately show ?thesis
      using q(3) [OF x] ext
      by (simp add: spec_ok_def len split_at_nth(3) [OF cs] split_routed(1) [OF cs ok])
  qed
  moreover have "spec_ok p ?nodes ws x" if x: "x \<in> set (child_specs (length nodes) spec f t)" for x
  proof -
    have c: "reach_in ?nodes (Suc (spec_depth spec)) c" if "c = length nodes \<or> c = Suc (length nodes)" for c
      by (rule reach_in.step [OF ext [OF r]])
        (use i that in \<open>auto simp: len split_at_nth(2) [OF cs] split_children(4) [OF cs]\<close>)
    have u: "unat (of_nat (length nodes) :: u32) = length nodes" "unat (of_nat (length nodes) + 1 :: u32) = Suc (length nodes)"
      using split_children(1,2) [OF cs, of f t] by (simp_all add: split_node_def)
    consider (l) "x = \<lparr>spec_idx = length nodes, spec_samples = fst (partition (spec_samples spec) f t),
        spec_depth = Suc (spec_depth spec)\<rparr>"
      | (r) "x = \<lparr>spec_idx = Suc (length nodes), spec_samples = snd (partition (spec_samples spec) f t),
        spec_depth = Suc (spec_depth spec)\<rparr>"
      using x unfolding child_specs_def u by auto
    then show ?thesis
    proof cases
      case l
      then show ?thesis
        using lim(3) c [of "length nodes"]
        by (simp add: spec_ok_def len split_at_nth(4) [OF cs] smp split_routed(2) [OF cs ok])
    next
      case r
      then show ?thesis
        using lim(3) c [of "Suc (length nodes)"]
        by (simp add: spec_ok_def len split_at_nth(5) [OF cs] smp split_routed(3) [OF cs ok])
    qed
  qed
  moreover have "shape_ok p ?nodes"
    by (rule split_at_shape [OF cs sh lim(2) r lim(3) bs(1)])
  moreover have "leaf_count_ok p ?nodes ws"
    by (rule split_at_leaf_count [OF cs ok lc sides])
  moreover have "j \<in> spec_idx ` set (queue @ child_specs (length nodes) spec f t) \<or> ?nodes ! j = leaf_node (routed ?nodes ws j)"
    if j: "j < length ?nodes" and l: "is_leaf (?nodes ! j)" for j
    using cs j l
  proof (cases rule: split_at_leaf_cases)
    case old
    then show ?thesis using fin [OF old(2,3)] split_routed(1) [OF cs ok old(2,1)] by auto
  next
    case left_leaf
    then have "j \<in> set (map spec_idx (child_specs (length nodes) spec f t))" unfolding idx by simp
    then show ?thesis unfolding set_append image_Un set_map by blast
  next
    case right_leaf
    then have "j \<in> set (map spec_idx (child_specs (length nodes) spec f t))" unfolding idx by simp
    then show ?thesis unfolding set_append image_Un set_map by blast
  qed
  ultimately show ?thesis
    unfolding grow_inv_def set_append by blast
qed

lemma grow_inv_step:
  assumes inv: "grow_inv p ws (fs_nodes s) (spec # queue)" and lim: "max_nodes p \<le> MLFQ_TREE_MAX_NODES"
  shows "grow_inv p ws (fs_nodes (grow_step p spec (s\<lparr>fs_queue := queue\<rparr>)))
    (fs_queue (grow_step p spec (s\<lparr>fs_queue := queue\<rparr>)))"
proof (cases "fst (node_split p spec (length (fs_nodes s)) (fs_sorted s))")
  case None
  then show ?thesis using grow_inv_leaf [OF inv] by (simp add: grow_step_view)
next
  case (Some ft)
  obtain f t where ft: "ft = (f, t)" by force
  have sp: "splittable p spec (length (fs_nodes s))"
    and best: "best_split (spec_samples spec) (min_samples_leaf p) (node_sse (spec_samples spec))
      (min_rel_var_reduction p) = Some (f, t)"
    using Some ft unfolding node_split_fst by (auto split: if_splits)
  have "length (fs_nodes s) + 2 \<le> max_nodes p" "spec_depth spec < max_depth p"
    using sp by (auto simp: splittable_def split: prod.splits)
  from grow_inv_split [OF inv lim this best] show ?thesis
    using Some ft by (simp add: grow_step_view)
qed

lemma grow_inv_loop:
  "max_nodes p \<le> MLFQ_TREE_MAX_NODES \<Longrightarrow> grow_inv p ws (fs_nodes s) (fs_queue s) \<Longrightarrow>
    grow_inv p ws (fs_nodes (grow p s)) []"
proof (induction p s rule: grow.induct)
  case (1 p s)
  show ?case
  proof (cases "fs_queue s")
    case Nil
    then show ?thesis using "1.prems" by (simp add: grow.simps [of p s])
  next
    case (Cons spec queue)
    have "grow_inv p ws (fs_nodes (grow_step p spec (s\<lparr>fs_queue := queue\<rparr>)))
      (fs_queue (grow_step p spec (s\<lparr>fs_queue := queue\<rparr>)))"
      by (rule grow_inv_step) (use "1.prems" Cons in \<open>simp_all\<close>)
    from "1.IH" [OF Cons "1.prems"(1) this] show ?thesis
      using Cons by (simp add: grow.simps [of p s])
  qed
qed

lemma grow_inv_start:
  assumes "1 \<le> max_nodes p"
  shows "grow_inv p ws [node_default] [\<lparr>spec_idx = 0, spec_samples = ws, spec_depth = 0\<rparr>]"
proof -
  have "routes_to [node_default] g 0 0" for g by (rule routes_to.leaf) simp_all
  then have "routed [node_default] ws 0 = ws" by (simp add: routed_def)
  with assms show ?thesis
    by (auto simp: grow_inv_def shape_ok_def leaf_count_ok_def spec_ok_def tree_shaped_def node_ok_def
        depth_ok_def)
qed

text \<open>Clearing and refilling a buffer is the fresh computation.\<close>

lemma sample_weights_into_eq: "sample_weights_into powf n out = sample_weights powf n"
proof -
  have "foldl (\<lambda>out i. out @ [g i]) acc xs = acc @ map g xs" for g :: "nat \<Rightarrow> f64" and acc xs
    by (induction xs arbitrary: acc) auto
  then show ?thesis by (simp add: sample_weights_into_def sample_weights_def)
qed

definition weighted_window :: "powf \<Rightarrow> tree_sample list \<Rightarrow> weighted_sample list" where
  "weighted_window powf samples = zip samples (sample_weights powf (length samples))"

lemma fit_inv:
  assumes "samples \<noteq> []" and "0 < max_nodes p" and "max_nodes p \<le> MLFQ_TREE_MAX_NODES"
  shows "grow_inv p (weighted_window powf samples) (fst (fit_with_scratch powf samples p scratch)) []"
  using assms grow_inv_start [of p "weighted_window powf samples"]
  by (auto simp: fit_with_scratch_def Let_def sample_weights_into_eq weighted_window_def intro!: grow_inv_loop)

section \<open>The fitted tree\<close>

definition fit_limits :: "fit_params \<Rightarrow> bool" where
  "fit_limits p \<longleftrightarrow> max_depth p \<le> MLFQ_TREE_MAX_DEPTH \<and> 0 < max_nodes p \<and> max_nodes p \<le> MLFQ_TREE_MAX_NODES"

lemma fit_wf:
  assumes "samples \<noteq> []" and "fit_limits p"
  shows "wf_published (fst (fit_with_scratch powf samples p scratch))"
    and "tree_shaped (fst (fit_with_scratch powf samples p scratch))"
proof -
  have "shape_ok p (fst (fit_with_scratch powf samples p scratch))"
    using fit_inv assms by (auto simp: fit_limits_def grow_inv_def)
  with assms(2) show "wf_published (fst (fit_with_scratch powf samples p scratch))"
    and "tree_shaped (fst (fit_with_scratch powf samples p scratch))"
    unfolding shape_ok_def wf_published_def fit_limits_def depth_ok_def
    by (meson le_trans less_le_trans)+
qed

text \<open>
  C6. Every tree the fit grows from a non-empty window within the limits of the store passes
  validation, and no node of it has two parents, whatever the buffers held before.
\<close>

theorem fit_passes_validation:
  assumes "samples \<noteq> []" and "fit_limits p"
  shows "serialize_validate (fst (fit_with_scratch powf samples p scratch)) = Ok ()
    \<and> tree_shaped (fst (fit_with_scratch powf samples p scratch))"
  using fit_wf [OF assms] by (simp only: validate_ok_wf simp_thms)

definition example_params :: fit_params where
  "example_params = \<lparr>max_depth = MLFQ_TREE_MAX_DEPTH, min_samples_leaf = 32,
     max_nodes = MLFQ_TREE_MAX_NODES, min_rel_var_reduction = DEFAULT_MIN_REL_VAR_REDUCTION\<rparr>"

definition sample1 :: tree_sample where
  "sample1 = \<lparr>pid = 7, sample_queue = 1, feats = feats_default, label_ns = 500, version = MLFQ_TREE_SAMPLE_VERSION\<rparr>"

lemma example_params_limits: "fit_limits example_params"
  by (simp add: fit_limits_def example_params_def const_defs)

theorem fit_passes_validation_witness:
  "fit_limits example_params
   \<and> serialize_validate (fst (fit_with_scratch (\<lambda>x y. x) [sample1] example_params fit_scratch_new)) = Ok ()"
  using fit_passes_validation [of "[sample1]" example_params "\<lambda>x y. x" fit_scratch_new] example_params_limits
  by simp

lemma fit_leaf:
  assumes "samples \<noteq> []" and "fit_limits p"
    and "nodes = fst (fit_with_scratch powf samples p scratch)" and "ws = weighted_window powf samples"
  shows "\<exists>j. routes_to nodes f 0 j \<and> nodes ! j = leaf_node (routed nodes ws j)
    \<and> predict nodes f = ucast (left (leaf_node (routed nodes ws j)))
    \<and> (length nodes = 1 \<or> min_samples_leaf p \<le> length (routed nodes ws j) \<and> routed nodes ws j \<noteq> [])"
proof -
  have wf: "wf_published nodes" "tree_shaped nodes" unfolding assms(3) using fit_wf assms by blast+
  obtain j where r: "routes_to nodes f 0 j" and p: "predict nodes f = ucast (left (nodes ! j))"
    using predict_routed_leaf [OF wf] by blast
  have j: "j < length nodes" "is_leaf (nodes ! j)" using routes_to_leaf [OF r] by auto
  have "grow_inv p ws nodes []"
    unfolding assms(3,4) using fit_inv assms(1,2) by (auto simp: fit_limits_def)
  then have "nodes ! j = leaf_node (routed nodes ws j)"
    and "length nodes = 1 \<or> min_samples_leaf p \<le> length (routed nodes ws j) \<and> routed nodes ws j \<noteq> []"
    using j unfolding grow_inv_def leaf_count_ok_def by auto
  with r p show ?thesis by metis
qed

text \<open>The training samples that end in the same leaf as a feature vector.\<close>

definition same_leaf :: "serialized_tree \<Rightarrow> tree_feats \<Rightarrow> tree_feats \<Rightarrow> bool" where
  "same_leaf nodes f g \<longleftrightarrow> (\<exists>j. routes_to nodes f 0 j \<and> routes_to nodes g 0 j)"

definition weighted_mean :: "weighted_sample list \<Rightarrow> u64" where
  "weighted_mean ws = (case label_totals ws of (sw, swy, swy2) \<Rightarrow> f_to_u64 (f_div swy sw))"

lemma leaf_node_left: "left (leaf_node ws) = leaf_prediction (weighted_mean ws)"
  by (simp add: leaf_node_def weighted_mean_def split: prod.splits)

lemma routed_same_leaf:
  assumes "routes_to nodes f 0 j"
  shows "routed nodes ws j = filter (\<lambda>x. same_leaf nodes f (feats (fst x))) ws"
  unfolding routed_def same_leaf_def using assms routes_to_unique
  by (intro filter_cong) blast+

text \<open>
  C10. A fitted tree predicts, for any feature vector, the weighted mean of the labels of the
  training samples that end in the same leaf, clamped to the field of the node; and unless
  the tree is one leaf, these are at least \<open>min_samples_leaf\<close> samples and at least one.
\<close>

theorem fit_predicts_leaf_mean:
  assumes "samples \<noteq> []" and "fit_limits p"
  shows "predict (fst (fit_with_scratch powf samples p scratch)) f
      = ucast (leaf_prediction (weighted_mean
          (filter (\<lambda>x. same_leaf (fst (fit_with_scratch powf samples p scratch)) f (feats (fst x)))
             (weighted_window powf samples))))
    \<and> (length (fst (fit_with_scratch powf samples p scratch)) = 1
       \<or> max 1 (min_samples_leaf p)
           \<le> length (filter (\<lambda>x. same_leaf (fst (fit_with_scratch powf samples p scratch)) f (feats (fst x)))
                (weighted_window powf samples)))"
proof -
  let ?nodes = "fst (fit_with_scratch powf samples p scratch)" and ?ws = "weighted_window powf samples"
  obtain j where j: "routes_to ?nodes f 0 j"
    "predict ?nodes f = ucast (left (leaf_node (routed ?nodes ?ws j)))"
    "length ?nodes = 1 \<or> min_samples_leaf p \<le> length (routed ?nodes ?ws j) \<and> routed ?nodes ?ws j \<noteq> []"
    using fit_leaf [OF assms refl refl] by blast
  have "routed ?nodes ?ws j \<noteq> [] \<Longrightarrow> 1 \<le> length (routed ?nodes ?ws j)"
    by (simp add: Suc_le_eq)
  with j(2,3) show ?thesis
    unfolding leaf_node_left routed_same_leaf [OF j(1), of ?ws] by auto
qed

theorem fit_predicts_leaf_mean_witness:
  "fit_limits example_params
   \<and> predict (fst (fit_with_scratch (\<lambda>x y. x) [sample1] example_params fit_scratch_new)) feats_default
     = ucast (leaf_prediction (weighted_mean
          (filter (\<lambda>x. same_leaf (fst (fit_with_scratch (\<lambda>x y. x) [sample1] example_params fit_scratch_new))
                feats_default (feats (fst x)))
             (weighted_window (\<lambda>x y. x) [sample1]))))"
  using fit_predicts_leaf_mean [of "[sample1]" example_params "\<lambda>x y. x" fit_scratch_new feats_default]
    example_params_limits by simp

section \<open>The scratch arena\<close>

lemma grow_view:
  "fs_nodes s = fs_nodes s' \<Longrightarrow> fs_queue s = fs_queue s' \<Longrightarrow> fs_nodes (grow p s) = fs_nodes (grow p s')"
proof (induction p s arbitrary: s' rule: grow.induct)
  case (1 p s)
  show ?case
  proof (cases "fs_queue s")
    case Nil
    then show ?thesis using "1.prems" by (simp add: grow.simps [of p s] grow.simps [of p s'])
  next
    case (Cons spec queue)
    have "fs_nodes (grow_step p spec (s\<lparr>fs_queue := queue\<rparr>)) = fs_nodes (grow_step p spec (s'\<lparr>fs_queue := queue\<rparr>))"
      "fs_queue (grow_step p spec (s\<lparr>fs_queue := queue\<rparr>)) = fs_queue (grow_step p spec (s'\<lparr>fs_queue := queue\<rparr>))"
      using "1.prems"(1) by (simp_all add: grow_step_view node_split_fst split: option.splits)
    from "1.IH" [OF Cons this] Cons "1.prems"(2) show ?thesis
      by (simp add: grow.simps [of p s] grow.simps [of p s'])
  qed
qed

text \<open>
  The tree does not depend on what the scratch arena held: a fit that reuses a dirty arena
  returns what \<open>fit\<close> returns.
\<close>

theorem fit_with_scratch_is_fit: "fst (fit_with_scratch powf samples p scratch) = fit powf samples p"
  unfolding fit_def fit_with_scratch_def Let_def sample_weights_into_eq
  by (auto intro!: grow_view)

end
