(* ===== verification/PublishRace.thy ===== *)
theory PublishRace
  imports TreePredict
begin

text \<open>
  The double buffer under concurrency. A publisher copies the nodes of a tree into the inactive
  entry, in any number of pieces, and then commits the meta word
  (\<open>publish_tree\<close>, \<open>src/scx/src/main.rs\<close>); a reader loads the meta word once and then reads
  one node per step (\<open>mlfq_tree_predict\<close>, \<open>mlfq_tree_walk\<close>, \<open>src/scx/src/bpf/intf.h\<close>). The
  fields \<open>loaded\<close> and \<open>commits\<close> are history: the tree committed when the reader loaded the meta
  word, and the commits since. With \<open>slow\<close> set no publish writes once a reader has been
  overtaken by a commit, which is what the publish cadence is meant to give.
\<close>

section \<open>States and steps\<close>

datatype publisher = P_idle | P_writing serialized_tree nat

datatype reader = R_idle | R_walk nat tree_feats nat u32 | R_done tree_feats u64

record race =
  active :: nat
  entry :: "nat \<Rightarrow> tree_node list"
  current :: serialized_tree
  pub :: publisher
  rd :: reader
  loaded :: serialized_tree
  commits :: nat

definition copy_nodes :: "nat \<Rightarrow> nat \<Rightarrow> tree_node list \<Rightarrow> tree_node list \<Rightarrow> tree_node list" where
  "copy_nodes i j new old = take i old @ take (j - i) (drop i new) @ drop j old"

definition read_node :: "tree_node list \<Rightarrow> u32 \<Rightarrow> tree_node" where
  "read_node store idx = store ! unat (idx AND of_nat (MLFQ_TREE_MAX_NODES - 1))"

definition overtaken :: "race \<Rightarrow> bool" where
  "overtaken s \<longleftrightarrow> (case rd s of R_walk k f n i \<Rightarrow> 0 < commits s | _ \<Rightarrow> False)"

definition walk_step :: "nat \<Rightarrow> tree_feats \<Rightarrow> nat \<Rightarrow> u32 \<Rightarrow> tree_node \<Rightarrow> reader" where
  "walk_step key f k idx n =
     (case k of
        0 \<Rightarrow> R_done f (if right n = 0 then ucast (left n) else 0)
      | Suc k' \<Rightarrow>
          if right n = 0 then R_done f (ucast (left n))
          else let feat_id = feature n AND 0xF
               in if of_nat MLFQ_TREE_NR_FEATURES \<le> feat_id then R_done f 0
                  else R_walk key f k' (if feat_slots f ! unat feat_id \<le> threshold n then left n else right n))"

inductive rstep :: "bool \<Rightarrow> race \<Rightarrow> race \<Rightarrow> bool" for slow where
  start: "pub s = P_idle \<Longrightarrow> serialize_validate t = Ok () \<Longrightarrow> rstep slow s (s\<lparr>pub := P_writing t 0\<rparr>)"
| copy: "pub s = P_writing t i \<Longrightarrow> i < j \<Longrightarrow> j \<le> MLFQ_TREE_MAX_NODES \<Longrightarrow> \<not> (slow \<and> overtaken s) \<Longrightarrow>
    rstep slow s (s\<lparr>pub := P_writing t j,
      entry := (entry s)(1 - active s := copy_nodes i j (pad_store t) (entry s (1 - active s)))\<rparr>)"
| commit: "pub s = P_writing t MLFQ_TREE_MAX_NODES \<Longrightarrow>
    rstep slow s (s\<lparr>pub := P_idle, active := 1 - active s, current := t, commits := commits s + 1\<rparr>)"
| load: "rd s = R_idle \<or> rd s = R_done g v \<Longrightarrow>
    rstep slow s (s\<lparr>rd := R_walk (active s) f MLFQ_TREE_MAX_DEPTH 0, loaded := current s, commits := 0\<rparr>)"
| walk: "rd s = R_walk key f k idx \<Longrightarrow>
    rstep slow s (s\<lparr>rd := walk_step key f k idx (read_node (entry s key) idx)\<rparr>)"

definition race_init :: "serialized_tree \<Rightarrow> tree_node list \<Rightarrow> race" where
  "race_init t old = \<lparr>active = 0, entry = (\<lambda>k. if k = 0 then pad_store t else old), current = t,
     pub = P_idle, rd = R_idle, loaded = t, commits = 0\<rparr>"

inductive rreach :: "bool \<Rightarrow> race \<Rightarrow> bool" for slow where
  init: "serialize_validate t = Ok () \<Longrightarrow> length old = MLFQ_TREE_MAX_NODES \<Longrightarrow> rreach slow (race_init t old)"
| step: "rreach slow s \<Longrightarrow> rstep slow s s' \<Longrightarrow> rreach slow s'"

section \<open>The invariant\<close>

text \<open>The value a walk still has to return from where it is.\<close>

definition rest_of_walk :: "tree_node list \<Rightarrow> tree_feats \<Rightarrow> nat \<Rightarrow> u32 \<Rightarrow> u64" where
  "rest_of_walk store f k idx =
     (case bpf_walk k store (feat_slots f) idx of
        Inl v \<Rightarrow> v
      | Inr i \<Rightarrow> let n = read_node store i in if right n = 0 then ucast (left n) else 0)"

lemma rest_of_walk_start: "rest_of_walk store f MLFQ_TREE_MAX_DEPTH 0 = mlfq_tree_walk store f"
  by (simp add: rest_of_walk_def mlfq_tree_walk_def read_node_def Let_def split: sum.split)

definition reader_ok :: "tree_node list \<Rightarrow> serialized_tree \<Rightarrow> reader \<Rightarrow> bool" where
  "reader_ok store t r \<longleftrightarrow>
     (case r of
        R_idle \<Rightarrow> True
      | R_walk key f k idx \<Rightarrow> rest_of_walk store f k idx = predict t f
      | R_done f v \<Rightarrow> v = predict t f)"

lemma walk_step_ok:
  assumes "rest_of_walk store f k idx = predict t f"
  shows "reader_ok store t (walk_step key f k idx (read_node store idx))"
  using assms
  by (cases k) (simp_all add: reader_ok_def walk_step_def rest_of_walk_def read_node_def Let_def split: if_splits)

definition entries_ok :: "race \<Rightarrow> bool" where
  "entries_ok s \<longleftrightarrow> active s \<le> 1 \<and> entry s (active s) = pad_store (current s)
     \<and> length (entry s (1 - active s)) = MLFQ_TREE_MAX_NODES \<and> wf_published (current s)
     \<and> (case pub s of P_idle \<Rightarrow> True
        | P_writing t i \<Rightarrow> wf_published t \<and> i \<le> MLFQ_TREE_MAX_NODES
            \<and> take i (entry s (1 - active s)) = take i (pad_store t))"

text \<open>A walking reader reads the tree it loaded, in the active entry or in the one just left.\<close>

definition walking_ok :: "race \<Rightarrow> bool" where
  "walking_ok s \<longleftrightarrow>
     (case rd s of
        R_walk key f k idx \<Rightarrow> entry s key = pad_store (loaded s)
          \<and> (commits s = 0 \<and> key = active s
             \<or> commits s = 1 \<and> key = 1 - active s \<and> (\<forall>t i. pub s = P_writing t i \<longrightarrow> i = 0))
      | _ \<Rightarrow> True)"

definition race_inv :: "race \<Rightarrow> bool" where
  "race_inv s \<longleftrightarrow> entries_ok s \<and> walking_ok s \<and> reader_ok (pad_store (loaded s)) (loaded s) (rd s)"

lemma pad_store_length_wf: "wf_published t \<Longrightarrow> length (pad_store t) = MLFQ_TREE_MAX_NODES"
  by (simp add: wf_published_def pad_store_def)

lemma copy_nodes_take:
  assumes "take i old = take i new" and "i \<le> j" and "j \<le> length old" and "length old = length new"
  shows "take j (copy_nodes i j new old) = take j new" and "length (copy_nodes i j new old) = length old"
proof -
  have e: "take i old @ take (j - i) (drop i new) = take j new"
    unfolding assms(1) using assms(2) by (metis le_add_diff_inverse take_add)
  show "take j (copy_nodes i j new old) = take j new"
    unfolding copy_nodes_def append_assoc [symmetric] e using assms by simp
  show "length (copy_nodes i j new old) = length old"
    using assms by (simp add: copy_nodes_def)
qed

lemma race_inv_step:
  assumes inv: "race_inv s" and step: "rstep True s s'"
  shows "race_inv s'"
  using step
proof cases
  case (start t)
  with inv show ?thesis
    by (auto simp: race_inv_def entries_ok_def walking_ok_def validate_ok_wf split: reader.splits)
next
  case (copy t i j)
  have c: "take j (copy_nodes i j (pad_store t) (entry s (1 - active s))) = take j (pad_store t)"
    "length (copy_nodes i j (pad_store t) (entry s (1 - active s))) = MLFQ_TREE_MAX_NODES"
    using copy_nodes_take [of i "entry s (1 - active s)" "pad_store t" j] inv copy
    by (auto simp: race_inv_def entries_ok_def pad_store_length_wf)
  have "active s \<noteq> 1 - active s" by arith
  then show ?thesis
    using inv copy c
    by (auto simp: race_inv_def entries_ok_def walking_ok_def overtaken_def split: reader.splits publisher.splits)
next
  case (commit t)
  then have "entry s (1 - active s) = pad_store t"
    using inv by (auto simp: race_inv_def entries_ok_def pad_store_length_wf)
  then show ?thesis
    using inv commit
    by (auto simp: race_inv_def entries_ok_def walking_ok_def pad_store_length_wf const_defs split: reader.splits)
next
  case (load g v f)
  have "mlfq_tree_walk (pad_store (current s)) f = predict (current s) f"
    by (rule bpf_walk_is_predict) (use inv in \<open>simp add: race_inv_def entries_ok_def\<close>)
  with inv load show ?thesis
    by (auto simp: race_inv_def entries_ok_def walking_ok_def reader_ok_def rest_of_walk_start split: publisher.splits)
next
  case (walk key f k idx)
  then have e: "entry s key = pad_store (loaded s)"
    and r: "rest_of_walk (pad_store (loaded s)) f k idx = predict (loaded s) f"
    using inv by (simp_all add: race_inv_def walking_ok_def reader_ok_def)
  have "reader_ok (pad_store (loaded s)) (loaded s) (walk_step key f k idx (read_node (entry s key) idx))"
    unfolding e by (rule walk_step_ok [OF r])
  then show ?thesis
    using inv walk by (auto simp: race_inv_def entries_ok_def walking_ok_def walk_step_def Let_def
        split: nat.splits if_splits publisher.splits)
qed

lemma race_inv_init:
  "serialize_validate t = Ok () \<Longrightarrow> length old = MLFQ_TREE_MAX_NODES \<Longrightarrow> race_inv (race_init t old)"
  by (simp add: race_inv_def race_init_def entries_ok_def walking_ok_def reader_ok_def validate_ok_wf)

lemma rreach_inv: "rreach True s \<Longrightarrow> race_inv s"
  by (induction rule: rreach.induct) (auto intro: race_inv_init race_inv_step)

section \<open>Runs\<close>

lemma reach_load:
  "rreach w s \<Longrightarrow> rd s = R_idle
   \<Longrightarrow> s' = s\<lparr>rd := R_walk (active s) f MLFQ_TREE_MAX_DEPTH 0, loaded := current s, commits := 0\<rparr>
   \<Longrightarrow> rreach w s'"
  using rreach.step rstep.load by metis

lemma reach_walk:
  "rreach w s \<Longrightarrow> rd s = R_walk key f k idx
   \<Longrightarrow> s' = s\<lparr>rd := walk_step key f k idx (read_node (entry s key) idx)\<rparr> \<Longrightarrow> rreach w s'"
  using rreach.step rstep.walk by metis

lemma reach_copy:
  "rreach False s \<Longrightarrow> pub s = P_idle \<Longrightarrow> serialize_validate t = Ok () \<Longrightarrow> 0 < j \<Longrightarrow> j \<le> MLFQ_TREE_MAX_NODES
   \<Longrightarrow> s' = s\<lparr>pub := P_writing t j,
        entry := (entry s)(1 - active s := copy_nodes 0 j (pad_store t) (entry s (1 - active s)))\<rparr>
   \<Longrightarrow> rreach False s'"
  using rreach.step [OF rreach.step [OF _ rstep.start] rstep.copy [where i = 0 and t = t and j = j]] by simp

lemma reach_publish:
  assumes "rreach False s" and "pub s = P_idle" and "serialize_validate t = Ok ()"
    and "s' = s\<lparr>active := 1 - active s, current := t, commits := commits s + 1,
      entry := (entry s)(1 - active s := copy_nodes 0 MLFQ_TREE_MAX_NODES (pad_store t) (entry s (1 - active s)))\<rparr>"
  shows "rreach False s'"
proof -
  let ?c = "s\<lparr>pub := P_writing t MLFQ_TREE_MAX_NODES,
    entry := (entry s)(1 - active s := copy_nodes 0 MLFQ_TREE_MAX_NODES (pad_store t) (entry s (1 - active s)))\<rparr>"
  have "rreach False ?c" by (rule reach_copy [OF assms(1-3)]) (simp_all add: const_defs)
  from rreach.step [OF this rstep.commit [of ?c t]] show ?thesis using assms(2,4) by (cases s) simp
qed

lemma walk_step_rec:
  "0 < k \<Longrightarrow> walk_step key f k idx n =
     (if right n = 0 then R_done f (ucast (left n))
      else if of_nat MLFQ_TREE_NR_FEATURES \<le> feature n AND 0xF then R_done f 0
      else R_walk key f (k - 1)
        (if feat_slots f ! unat (feature n AND 0xF) \<le> threshold n then left n else right n))"
  by (cases k) (simp_all add: walk_step_def Let_def)

lemma read_node_mod: "read_node store idx = store ! (unat idx mod 2048)"
  by (simp only: read_node_def unat_and_2047_u32)

lemma read_node_pad: "unat idx < length t \<Longrightarrow> length t \<le> 2048 \<Longrightarrow> read_node (pad_store t) idx = t ! unat idx"
  by (simp add: read_node_mod pad_store_nth)

lemma split3_walk:
  "walk_step key feats_default MLFQ_TREE_MAX_DEPTH 0 (read_node (pad_store split3) 0) = R_walk key feats_default 11 1"
  "walk_step key feats_default 11 1 (read_node (pad_store split3) 1) = R_done feats_default 100"
  by (simp_all add: read_node_pad walk_step_rec const_defs feats_default_def feat_slots_def node_default_def
      word_le_nat_alt)

text \<open>
  C4. If no publish writes nodes while an overtaken reader is still walking, every prediction that
  completes is the prediction of the tree that was committed when its reader loaded the meta
  word, however the copy of the nodes, the commits and the reads interleave.
\<close>

theorem no_torn_prediction:
  assumes "rreach True s" and "rd s = R_done f v"
  shows "v = predict (loaded s) f"
  using rreach_inv [OF assms(1)] assms(2) by (simp add: race_inv_def reader_ok_def)

theorem no_torn_prediction_witness:
  "\<exists>s. rreach True s \<and> rd s = R_done feats_default 100 \<and> (100::u64) = predict (loaded s) feats_default"
proof -
  define s0 where "s0 = race_init split3 (replicate MLFQ_TREE_MAX_NODES node_default)"
  define s1 where "s1 = s0\<lparr>rd := R_walk 0 feats_default MLFQ_TREE_MAX_DEPTH 0, loaded := split3, commits := 0\<rparr>"
  define s2 where "s2 = s1\<lparr>rd := R_walk 0 feats_default 11 1\<rparr>"
  define s3 where "s3 = s2\<lparr>rd := R_done feats_default 100\<rparr>"
  note defs = s0_def s1_def s2_def s3_def race_init_def
  have "rreach True s0" unfolding s0_def by (rule rreach.init [OF validate_split3]) simp
  then have "rreach True s1" by (rule reach_load) (simp_all add: defs)
  then have "rreach True s2" by (rule reach_walk, simp add: defs) (simp add: defs split3_walk)
  then have r: "rreach True s3" by (rule reach_walk, simp add: defs) (simp add: defs split3_walk)
  have d: "rd s3 = R_done feats_default 100" by (simp add: s3_def)
  from r d no_torn_prediction [OF r d] show ?thesis by blast
qed

section \<open>A reader overtaken by one commit\<close>

definition leaf1 :: serialized_tree where
  "leaf1 = [node_default\<lparr>left := 700\<rparr>]"

definition split5 :: serialized_tree where
  "split5 = [\<lparr>threshold = 5, left = 1, right = 2, feature = 1, node_pad = replicate 7 0\<rparr>,
             \<lparr>threshold = 5, left = 3, right = 4, feature = 1, node_pad = replicate 7 0\<rparr>,
             node_default\<lparr>left := 300\<rparr>, node_default\<lparr>left := 400\<rparr>, node_default\<lparr>left := 500\<rparr>]"

lemma split5_nth:
  "length split5 = 5"
  "split5 ! 0 = \<lparr>threshold = 5, left = 1, right = 2, feature = 1, node_pad = replicate 7 0\<rparr>"
  "split5 ! Suc 0 = \<lparr>threshold = 5, left = 3, right = 4, feature = 1, node_pad = replicate 7 0\<rparr>"
  "split5 ! 2 = node_default\<lparr>left := 300\<rparr>" "split5 ! 3 = node_default\<lparr>left := 400\<rparr>"
  "split5 ! 4 = node_default\<lparr>left := 500\<rparr>"
  by (simp_all add: split5_def)

lemma validate_leaf1: "serialize_validate leaf1 = Ok ()"
  by (simp add: serialize_validate_def Let_def expand_node_def const_defs leaf1_def node_default_def)

lemma replicate_5: "replicate 5 u = [u, u, u, u, (u::nat)]"
  by (simp add: numeral_eq_Suc)

lemma validate_split5: "serialize_validate split5 = Ok ()"
  by (simp add: serialize_validate_def Let_def expand_node_def visit_child_def const_defs split5_nth
      node_default_def word_le_nat_alt replicate_5 list_update_numeral)

lemma copy_nodes_nth:
  assumes "j \<le> length new" and "j \<le> length old"
  shows "copy_nodes 0 j new old ! i = (if i < j then new ! i else old ! i)"
  using assms by (simp add: copy_nodes_def nth_append min_absorb2)

lemma mixed_store:
  "read_node (copy_nodes 0 2 (pad_store split5) (pad_store split3)) 1 = split5 ! 1"
  "read_node (copy_nodes 0 2 (pad_store split5) (pad_store split3)) 3 = node_default"
proof -
  have l: "2 \<le> length (pad_store split5)" "2 \<le> length (pad_store split3)"
    by (simp_all add: pad_store_def split5_def split3_def)
  have "pad_store split3 ! 3 = node_default" by (simp add: pad_store_def nth_append const_defs)
  then show "read_node (copy_nodes 0 2 (pad_store split5) (pad_store split3)) 1 = split5 ! 1"
    "read_node (copy_nodes 0 2 (pad_store split5) (pad_store split3)) 3 = node_default"
    by (simp_all add: read_node_mod copy_nodes_nth [OF l] pad_store_nth split5_nth)
qed

text \<open>
  One completed publish and the start of the next are enough to tear a prediction: a reader
  that has read the root of the first tree goes on in an entry that holds two nodes of the third
  tree and the rest of the first, and returns 0, which none of the three trees predicts.
\<close>

theorem torn_after_one_commit:
  "\<exists>s. rreach False s \<and> rd s = R_done feats_default 0 \<and> commits s = 1
     \<and> loaded s = split3 \<and> predict split3 feats_default = 100
     \<and> current s = leaf1 \<and> predict leaf1 feats_default = 700
     \<and> pub s = P_writing split5 2 \<and> predict split5 feats_default = 400"
proof -
  define s0 where "s0 = race_init split3 (replicate MLFQ_TREE_MAX_NODES node_default)"
  define s1 where "s1 = s0\<lparr>rd := R_walk 0 feats_default MLFQ_TREE_MAX_DEPTH 0, loaded := split3, commits := 0\<rparr>"
  define s2 where "s2 = s1\<lparr>rd := R_walk 0 feats_default 11 1\<rparr>"
  define s3 where "s3 = s2\<lparr>active := 1, current := leaf1, commits := 1,
    entry := (entry s2)(1 := copy_nodes 0 MLFQ_TREE_MAX_NODES (pad_store leaf1) (entry s2 1))\<rparr>"
  define s4 where "s4 = s3\<lparr>pub := P_writing split5 2,
    entry := (entry s3)(0 := copy_nodes 0 2 (pad_store split5) (pad_store split3))\<rparr>"
  define s5 where "s5 = s4\<lparr>rd := R_walk 0 feats_default 10 3\<rparr>"
  define s6 where "s6 = s5\<lparr>rd := R_done feats_default 0\<rparr>"
  note defs = s0_def s1_def s2_def s3_def s4_def s5_def s6_def race_init_def
  have w: "walk_step 0 feats_default 11 1 (split5 ! Suc 0) = R_walk 0 feats_default 10 3"
    "walk_step 0 feats_default 10 3 node_default = R_done feats_default 0"
    by (simp_all add: walk_step_rec split5_nth feats_default_def feat_slots_def node_default_def const_defs
        word_le_nat_alt)
  have "rreach False s0" unfolding s0_def by (rule rreach.init [OF validate_split3]) simp
  then have "rreach False s1" by (rule reach_load) (simp_all add: defs)
  then have "rreach False s2" by (rule reach_walk, simp add: defs) (simp add: defs split3_walk)
  then have "rreach False s3" by (rule reach_publish [where t = leaf1]) (simp_all add: defs validate_leaf1)
  then have "rreach False s4" by (rule reach_copy [where t = split5 and j = 2]) (simp_all add: defs validate_split5 const_defs)
  then have "rreach False s5" by (rule reach_walk, simp add: defs) (simp add: defs mixed_store w)
  then have "rreach False s6" by (rule reach_walk, simp add: defs) (simp add: defs mixed_store w)
  moreover have "predict split3 feats_default = 100" "predict leaf1 feats_default = 700"
    "predict split5 feats_default = 400"
    by (simp_all add: predict_def predict_walk_rec Let_def feat_slots_def feats_default_def const_defs
        split3_def leaf1_def split5_def node_default_def)
  ultimately show ?thesis by (intro exI [of _ s6]) (simp add: defs)
qed

end
