(* ===== verification/TopoPlan.thy ===== *)
theory TopoPlan
  imports Intf
begin

text \<open>
  The pure planning of \<open>src/scx/src/topology.rs\<close>: the primary-CPU mask, the cache domains, the
  SMT sibling table, the largest domain, the membership bitmaps and the per-domain CPU lists,
  with the test \<open>mlfq_bitmap_test_cpu\<close> of \<open>src/scx/src/bpf/intf.h\<close> that reads a bitmap.
\<close>

section \<open>Plans\<close>

record capacity_plan =
  primary_all :: bool
  primary_cpus :: "u32 list"

definition plan_primary_mask :: "u32 list \<Rightarrow> nat \<Rightarrow> capacity_plan" where
  "plan_primary_mask cpus nr_online =
     (if cpus = [] \<or> nr_online \<le> length cpus
      then \<lparr>primary_all = True, primary_cpus = []\<rparr>
      else \<lparr>primary_all = False, primary_cpus = remdups_adj (sort cpus)\<rparr>)"

record llc_plan =
  nr_llcs :: u32
  has_primary :: "u8 list"
  llc_cpus :: "u32 list list"
  cpu_llc :: "u32 list"

definition llc_plan_off :: llc_plan where
  "llc_plan_off = \<lparr>nr_llcs = 0, has_primary = replicate MLFQ_MAX_LLCS 0, llc_cpus = [],
     cpu_llc = replicate MLFQ_MAX_CPUS (of_nat MLFQ_MAX_LLCS)\<rparr>"

text \<open>One iteration of the loop over the \<open>(cpu, llc)\<close> pairs.\<close>

fun place_cpu :: "u32 \<times> u32 \<Rightarrow> u32 list \<times> u32 list list \<Rightarrow> u32 list \<times> u32 list list" where
  "place_cpu (cpu, llc) (cl, groups) =
     (if MLFQ_MAX_CPUS \<le> unat cpu then (cl, groups)
      else (cl[unat cpu := llc], groups[unat llc := groups ! unat llc @ [cpu]]))"

definition mark_primaries :: "u32 list \<Rightarrow> u32 list list \<Rightarrow> u8 list \<Rightarrow> u8 list" where
  "mark_primaries primaries groups hp =
     foldl (\<lambda>hp llc. if list_ex (\<lambda>cpu. cpu \<in> set primaries) (groups ! llc) then hp[llc := 1] else hp)
       hp [0..<length groups]"

definition plan_llcs :: "(u32 \<times> u32) list \<Rightarrow> u32 list \<Rightarrow> nat \<Rightarrow> llc_plan" where
  "plan_llcs cpu_to_llc primaries max_llcs =
     (if cpu_to_llc = [] then llc_plan_off
      else let max_llc = Max (set (map snd cpu_to_llc))
           in if max_llc = u32_MAX then llc_plan_off
              else let nr = max_llc + 1
                   in if max_llcs < unat nr then llc_plan_off
                      else let (cl, groups) = fold place_cpu cpu_to_llc
                                 (cpu_llc llc_plan_off, replicate (unat nr) [])
                           in \<lparr>nr_llcs = nr,
                               has_primary = mark_primaries primaries groups (has_primary llc_plan_off),
                               llc_cpus = groups, cpu_llc = cl\<rparr>)"

record sibling_plan =
  smt_on :: bool
  cpu_sibling :: "u32 list"
  cpu_core :: "u32 list"

text \<open>
  The \<open>BTreeMap\<close> of the cores: the pushed CPUs of each core, and the keys in ascending order.
\<close>

definition valid_pairs :: "(u32 \<times> u32) list \<Rightarrow> (u32 \<times> u32) list" where
  "valid_pairs xs = filter (\<lambda>(cpu, core). unat cpu < MLFQ_MAX_CPUS) xs"

definition core_keys :: "(u32 \<times> u32) list \<Rightarrow> u32 list" where
  "core_keys xs = sort (remdups (map snd xs))"

definition core_members :: "(u32 \<times> u32) list \<Rightarrow> u32 \<Rightarrow> u32 list" where
  "core_members xs core = map fst (filter (\<lambda>(cpu, k). k = core) xs)"

text \<open>One iteration over the cores: sort, dedup, and give every CPU its lowest other member.\<close>

definition pair_core :: "u32 list \<Rightarrow> bool \<times> u32 list \<Rightarrow> bool \<times> u32 list" where
  "pair_core members st =
     (let cpus = remdups_adj (sort members); (smt, sib) = st
      in if length cpus < 2 then (smt, sib)
         else (True, foldl (\<lambda>sib cpu. sib[unat cpu :=
                 (case find (\<lambda>c. c \<noteq> cpu) cpus of Some c \<Rightarrow> c | None \<Rightarrow> cpu)]) sib cpus))"

definition plan_sibling_table :: "(u32 \<times> u32) list \<Rightarrow> sibling_plan" where
  "plan_sibling_table cpu_to_core =
     (let valid = valid_pairs cpu_to_core;
          cc = foldl (\<lambda>cc (cpu, core). cc[unat cpu := core])
                 (replicate MLFQ_MAX_CPUS (of_nat MLFQ_MAX_CPUS)) valid;
          (smt, sib) = foldl (\<lambda>st core. pair_core (core_members valid core) st)
                 (False, map of_nat [0..<MLFQ_MAX_CPUS]) (core_keys valid)
      in \<lparr>smt_on = smt, cpu_sibling = sib, cpu_core = cc\<rparr>)"

text \<open>The first index of the maximum, unless the maximum occurs twice.\<close>

definition scan_max :: "u64 \<Rightarrow> u64 list \<Rightarrow> nat option \<times> bool" where
  "scan_max m xs =
     foldl (\<lambda>(argmax, tied) (i, s).
              if s = m then (if argmax \<noteq> None then (argmax, True) else (Some i, tied))
              else (argmax, tied))
       (None, False) (enumerate 0 xs)"

definition pick_largest_llc :: "u64 list \<Rightarrow> u32 \<Rightarrow> u32 option" where
  "pick_largest_llc sizes nr =
     (if unat nr < 2 then None
      else let xs = take (min (unat nr) (length sizes)) sizes
           in if xs = [] then None
              else let (argmax, tied) = scan_max (Max (set xs)) xs
                   in if tied then None else map_option of_nat argmax)"

section \<open>Bitmaps and CPU lists\<close>

definition bitmap_word :: "nat \<Rightarrow> nat" where
  "bitmap_word cpu = cpu div 64"

definition bitmap_mask :: "nat \<Rightarrow> u64" where
  "bitmap_mask cpu = push_bit (cpu mod 64) 1"

definition set_cpu :: "u32 \<Rightarrow> u64 list \<Rightarrow> u64 list" where
  "set_cpu cpu words =
     (if MLFQ_MAX_CPUS \<le> unat cpu then words
      else words[bitmap_word (unat cpu) := words ! bitmap_word (unat cpu) OR bitmap_mask (unat cpu)])"

definition build_bitmap :: "u32 list \<Rightarrow> u64 list" where
  "build_bitmap cpus = fold set_cpu cpus (replicate MLFQ_BITMAP_WORDS 0)"

definition mlfq_bitmap_test_cpu :: "u64 list \<Rightarrow> u32 \<Rightarrow> bool" where
  "mlfq_bitmap_test_cpu words cpu =
     (if MLFQ_MAX_CPUS \<le> unat cpu then False
      else words ! unat (drop_bit 6 cpu) AND push_bit (unat (cpu AND 63)) 1 \<noteq> 0)"

record llc_cpu_list =
  list_nr :: u32
  list_cpus :: "u32 list"

definition empty_cpu_list :: llc_cpu_list where
  "empty_cpu_list = \<lparr>list_nr = 0, list_cpus = replicate MLFQ_MAX_LLC_CPUS 0\<rparr>"

definition push_cpu :: "u32 \<Rightarrow> llc_cpu_list \<Rightarrow> llc_cpu_list" where
  "push_cpu cpu l =
     (if MLFQ_MAX_CPUS \<le> unat cpu then l
      else \<lparr>list_nr = list_nr l + 1, list_cpus = (list_cpus l)[unat (list_nr l) := cpu]\<rparr>)"

definition build_llc_cpu_list :: "u32 list \<Rightarrow> llc_cpu_list" where
  "build_llc_cpu_list cpus =
     (if MLFQ_MAX_LLC_CPUS < length cpus then empty_cpu_list else fold push_cpu cpus empty_cpu_list)"

end
