(* ===== verification/TopoOk.thy ===== *)
theory TopoOk
  imports TopoPlan
begin

text \<open>
  The plans are right: the bitmap the loader builds is the CPU set the BPF test reads back, the
  domain groups and the per-CPU table describe the same map, the sibling of a CPU is the
  lowest other CPU of its core, the largest domain is the strict maximum, and the CPU lists
  hold the valid CPUs in order or nothing at all.
\<close>

section \<open>Bitmaps\<close>

lemma and_single_bit: "(w :: u64) AND push_bit n 1 \<noteq> 0 \<longleftrightarrow> bit w n"
proof
  assume "w AND push_bit n 1 \<noteq> 0"
  then obtain k where "bit (w AND push_bit n 1) k" by (metis bit_0_eq bit_eqI bot_apply bot_bool_def)
  then show "bit w n" by (auto simp: bit_simps)
next
  assume b: "bit w n"
  then have "n < 64" by (auto dest: bit_imp_le_length)
  with b have "bit (w AND push_bit n 1) n" by (simp add: bit_simps)
  then show "w AND push_bit n 1 \<noteq> 0" by auto
qed

lemma word_index: "unat (drop_bit 6 (cpu :: u32)) = unat cpu div 64" "unat (cpu AND 63) = unat cpu mod 64"
proof -
  show "unat (drop_bit 6 cpu) = unat cpu div 64" by (simp add: drop_bit_eq_div unat_div)
  have "cpu AND 63 = take_bit 6 cpu" by (simp add: take_bit_eq_mask mask_eq_exp_minus_1)
  then show "unat (cpu AND 63) = unat cpu mod 64" by (simp only: unsigned_take_bit_eq) (simp add: take_bit_eq_mod)
qed

lemma test_cpu_bit:
  "mlfq_bitmap_test_cpu words cpu \<longleftrightarrow> unat cpu < MLFQ_MAX_CPUS \<and> bit (words ! (unat cpu div 64)) (unat cpu mod 64)"
  by (simp only: mlfq_bitmap_test_cpu_def and_single_bit word_index) auto

lemma set_cpu_test:
  assumes "length words = MLFQ_BITMAP_WORDS"
  shows "length (set_cpu c words) = MLFQ_BITMAP_WORDS"
    and "mlfq_bitmap_test_cpu (set_cpu c words) cpu \<longleftrightarrow>
      mlfq_bitmap_test_cpu words cpu \<or> (cpu = c \<and> unat cpu < MLFQ_MAX_CPUS)"
proof -
  show "length (set_cpu c words) = MLFQ_BITMAP_WORDS" using assms by (simp add: set_cpu_def)
  show "mlfq_bitmap_test_cpu (set_cpu c words) cpu \<longleftrightarrow>
      mlfq_bitmap_test_cpu words cpu \<or> (cpu = c \<and> unat cpu < MLFQ_MAX_CPUS)"
  proof (cases "unat c < MLFQ_MAX_CPUS \<and> unat cpu < MLFQ_MAX_CPUS")
    case False
    then show ?thesis by (auto simp: test_cpu_bit set_cpu_def)
  next
    case True
    then have len: "unat c div 64 < length words" using assms by (simp add: const_defs less_mult_imp_div_less)
    have eq: "cpu = c \<longleftrightarrow> unat cpu div 64 = unat c div 64 \<and> unat cpu mod 64 = unat c mod 64"
      by (metis div_mult_mod_eq word_unat_eq_iff)
    show ?thesis
    proof (cases "unat cpu div 64 = unat c div 64")
      case False
      with True eq show ?thesis
        by (auto simp: test_cpu_bit set_cpu_def bitmap_word_def)
    next
      case same: True
      have "bit (bitmap_mask (unat c)) (unat cpu mod 64) \<longleftrightarrow> unat cpu mod 64 = unat c mod 64"
        by (auto simp: bitmap_mask_def bit_simps)
      with True same eq len show ?thesis
        by (simp add: test_cpu_bit set_cpu_def bitmap_word_def bit_or_iff)
    qed
  qed
qed

lemma fold_set_cpu:
  "length words = MLFQ_BITMAP_WORDS \<Longrightarrow>
    mlfq_bitmap_test_cpu (fold set_cpu cpus words) cpu \<longleftrightarrow>
      mlfq_bitmap_test_cpu words cpu \<or> (cpu \<in> set cpus \<and> unat cpu < MLFQ_MAX_CPUS)"
proof (induction cpus arbitrary: words)
  case Nil
  then show ?case by simp
next
  case (Cons c cpus)
  show ?case
    using Cons.IH [OF set_cpu_test(1) [OF Cons.prems]] set_cpu_test(2) [OF Cons.prems] by auto
qed

lemma build_bitmap_test:
  "mlfq_bitmap_test_cpu (build_bitmap cpus) cpu \<longleftrightarrow> cpu \<in> set cpus \<and> unat cpu < MLFQ_MAX_CPUS"
proof -
  have "\<not> mlfq_bitmap_test_cpu (replicate MLFQ_BITMAP_WORDS 0) cpu"
    by (auto simp: test_cpu_bit const_defs)
  then show ?thesis
    unfolding build_bitmap_def by (subst fold_set_cpu) simp_all
qed

text \<open>
  The BPF membership test reads back exactly the CPUs of the list the loader built the bitmap
  from, without those beyond the CPU bound.
\<close>

theorem bitmap_roundtrip:
  "mlfq_bitmap_test_cpu (build_bitmap cpus) cpu \<longleftrightarrow> cpu \<in> set cpus \<and> unat cpu < MLFQ_MAX_CPUS"
  by (rule build_bitmap_test)

section \<open>CPU lists\<close>

definition stored :: "llc_cpu_list \<Rightarrow> u32 list" where
  "stored l = take (unat (list_nr l)) (list_cpus l)"

lemma push_cpu_stored:
  assumes "length (list_cpus l) = MLFQ_MAX_LLC_CPUS" and "unat (list_nr l) < MLFQ_MAX_LLC_CPUS"
  shows "length (list_cpus (push_cpu c l)) = MLFQ_MAX_LLC_CPUS"
    and "stored (push_cpu c l) = stored l @ (if unat c < MLFQ_MAX_CPUS then [c] else [])"
    and "unat (list_nr (push_cpu c l)) = unat (list_nr l) + (if unat c < MLFQ_MAX_CPUS then 1 else 0)"
proof -
  have u: "unat (list_nr l + 1) = Suc (unat (list_nr l))"
    using assms(2) by (simp add: unat_word_ariths const_defs)
  show "length (list_cpus (push_cpu c l)) = MLFQ_MAX_LLC_CPUS"
    "unat (list_nr (push_cpu c l)) = unat (list_nr l) + (if unat c < MLFQ_MAX_CPUS then 1 else 0)"
    using assms u by (simp_all add: push_cpu_def)
  show "stored (push_cpu c l) = stored l @ (if unat c < MLFQ_MAX_CPUS then [c] else [])"
    using assms u by (simp add: stored_def push_cpu_def take_Suc_conv_app_nth)
qed

lemma fold_push_cpu:
  "length (list_cpus l) = MLFQ_MAX_LLC_CPUS \<Longrightarrow> unat (list_nr l) + length cpus \<le> MLFQ_MAX_LLC_CPUS \<Longrightarrow>
    stored (fold push_cpu cpus l) = stored l @ filter (\<lambda>c. unat c < MLFQ_MAX_CPUS) cpus
    \<and> unat (list_nr (fold push_cpu cpus l)) = unat (list_nr l) + length (filter (\<lambda>c. unat c < MLFQ_MAX_CPUS) cpus)"
proof (induction cpus arbitrary: l)
  case Nil
  then show ?case by simp
next
  case (Cons c cpus)
  then have "unat (list_nr l) < MLFQ_MAX_LLC_CPUS" by simp
  note p = push_cpu_stored [OF Cons.prems(1) this, of c]
  have "unat (list_nr (push_cpu c l)) + length cpus \<le> MLFQ_MAX_LLC_CPUS" using p(3) Cons.prems(2) by simp
  from Cons.IH [OF p(1) this] p(2,3) show ?case by simp
qed

text \<open>
  The list of a domain holds its valid CPUs in order, with their number; a domain above the
  bound publishes an empty list instead of a part of it.
\<close>

theorem cpu_list_contents:
  "stored (build_llc_cpu_list cpus) =
     (if MLFQ_MAX_LLC_CPUS < length cpus then [] else filter (\<lambda>c. unat c < MLFQ_MAX_CPUS) cpus)
   \<and> unat (list_nr (build_llc_cpu_list cpus)) = length (stored (build_llc_cpu_list cpus))"
proof (cases "MLFQ_MAX_LLC_CPUS < length cpus")
  case True
  then show ?thesis by (simp add: build_llc_cpu_list_def empty_cpu_list_def stored_def)
next
  case False
  then have "length (list_cpus empty_cpu_list) = MLFQ_MAX_LLC_CPUS"
    "unat (list_nr empty_cpu_list) + length cpus \<le> MLFQ_MAX_LLC_CPUS"
    by (simp_all add: empty_cpu_list_def)
  note f = fold_push_cpu [OF this]
  have "stored empty_cpu_list = []" "list_nr empty_cpu_list = 0"
    by (simp_all add: empty_cpu_list_def stored_def)
  with f False show ?thesis by (simp add: build_llc_cpu_list_def)
qed

section \<open>Cache domains\<close>

lemma place_cpu_simp:
  "place_cpu p st = (if MLFQ_MAX_CPUS \<le> unat (fst p) then st
     else ((fst st)[unat (fst p) := snd p],
           (snd st)[unat (snd p) := snd st ! unat (snd p) @ [fst p]]))"
  by (cases p; cases st) simp

lemma fold_place_length:
  "length (fst (fold place_cpu ps st)) = length (fst st) \<and> length (snd (fold place_cpu ps st)) = length (snd st)"
  by (induction ps arbitrary: st) (simp_all add: place_cpu_simp)

lemma fold_place_table:
  "distinct (map fst ps) \<Longrightarrow> unat c < MLFQ_MAX_CPUS \<Longrightarrow> length (fst st) = MLFQ_MAX_CPUS \<Longrightarrow>
    fst (fold place_cpu ps st) ! unat c = (case map_of ps c of Some l \<Rightarrow> l | None \<Rightarrow> fst st ! unat c)"
proof (induction ps arbitrary: st)
  case Nil
  then show ?case by simp
next
  case (Cons p ps)
  have IH: "fst (fold place_cpu ps (place_cpu p st)) ! unat c
    = (case map_of ps c of Some l \<Rightarrow> l | None \<Rightarrow> fst (place_cpu p st) ! unat c)"
    using Cons.prems by (intro Cons.IH) (simp_all add: place_cpu_simp)
  show ?case
  proof (cases "fst p = c")
    case True
    then have "map_of ps c = None" using Cons.prems(1) by (auto simp: map_of_eq_None_iff)
    moreover have "fst (place_cpu p st) ! unat c = snd p"
      using True Cons.prems by (simp add: place_cpu_simp)
    moreover have "map_of (p # ps) c = Some (snd p)" using True by (cases p) simp
    ultimately show ?thesis using IH by simp
  next
    case False
    then have "unat (fst p) \<noteq> unat c" by (simp add: word_unat_eq_iff)
    then have "fst (place_cpu p st) ! unat c = fst st ! unat c" by (simp add: place_cpu_simp)
    moreover have "map_of (p # ps) c = map_of ps c" using False by (cases p) simp
    ultimately show ?thesis using IH by (simp only: fold_Cons o_apply)
  qed
qed

lemma fold_place_groups:
  "\<forall>p \<in> set ps. unat (snd p) < length (snd st) \<Longrightarrow> unat l < length (snd st) \<Longrightarrow>
    c \<in> set (snd (fold place_cpu ps st) ! unat l) \<longleftrightarrow>
      c \<in> set (snd st ! unat l) \<or> (unat c < MLFQ_MAX_CPUS \<and> (c, l) \<in> set ps)"
proof (induction ps arbitrary: st)
  case Nil
  then show ?case by simp
next
  case (Cons p ps)
  obtain c' l' where p: "p = (c', l')" by force
  have l': "unat l' < length (snd st)" using Cons.prems(1) p by simp
  have "c \<in> set (snd (fold place_cpu ps (place_cpu p st)) ! unat l) \<longleftrightarrow>
      c \<in> set (snd (place_cpu p st) ! unat l) \<or> (unat c < MLFQ_MAX_CPUS \<and> (c, l) \<in> set ps)"
    using Cons.prems by (intro Cons.IH) (simp_all add: place_cpu_simp)
  moreover have "c \<in> set (snd (place_cpu p st) ! unat l) \<longleftrightarrow>
      c \<in> set (snd st ! unat l) \<or> (unat c < MLFQ_MAX_CPUS \<and> c = c' \<and> l = l')"
    using l' p by (auto simp: place_cpu_simp nth_list_update word_unat_eq_iff)
  ultimately show ?case using p by auto
qed

lemma mark_primaries_nth:
  "length groups \<le> length hp \<Longrightarrow> i < length hp \<Longrightarrow>
    mark_primaries prim groups hp ! i =
      (if i < length groups \<and> list_ex (\<lambda>c. c \<in> set prim) (groups ! i) then 1 else hp ! i)"
proof -
  assume len: "length groups \<le> length hp" and i: "i < length hp"
  let ?step = "\<lambda>hp l. if list_ex (\<lambda>c. c \<in> set prim) (groups ! l) then hp[l := 1] else hp"
  have "length (foldl ?step hp [0..<n]) = length hp \<and>
    foldl ?step hp [0..<n] ! i = (if i < n \<and> list_ex (\<lambda>c. c \<in> set prim) (groups ! i) then 1 else hp ! i)" for n
    using i by (induction n) (auto simp: nth_list_update less_Suc_eq)
  then show ?thesis by (simp add: mark_primaries_def)
qed

lemma plan_llcs_on:
  assumes "nr_llcs (plan_llcs ps prim m) \<noteq> 0" and "m \<le> MLFQ_MAX_LLCS"
  obtains nr st where "nr_llcs (plan_llcs ps prim m) = nr" "unat nr \<le> MLFQ_MAX_LLCS" "0 < unat nr"
    "\<forall>p \<in> set ps. unat (snd p) < unat nr"
    "st = fold place_cpu ps (cpu_llc llc_plan_off, replicate (unat nr) [])"
    "cpu_llc (plan_llcs ps prim m) = fst st" "llc_cpus (plan_llcs ps prim m) = snd st"
    "has_primary (plan_llcs ps prim m) = mark_primaries prim (snd st) (has_primary llc_plan_off)"
proof -
  let ?mx = "Max (set (map snd ps))"
  have off: "nr_llcs llc_plan_off = 0" by (simp add: llc_plan_off_def)
  have ne: "ps \<noteq> []" and mx: "?mx \<noteq> u32_MAX" and le: "\<not> m < unat (?mx + 1)"
    using assms(1) off by (auto simp: plan_llcs_def Let_def split: if_splits)
  have "unat ?mx \<noteq> unat u32_MAX" using mx by (simp only: word_unat_eq_iff not_False_eq_True)
  then have "unat ?mx < 4294967295" using unsigned_less [of ?mx, where ?'a = nat] by simp
  then have u: "unat (?mx + 1) = Suc (unat ?mx)" by (simp add: unat_word_ariths)
  have all: "unat (snd p) < unat (?mx + 1)" if "p \<in> set ps" for p
  proof -
    have "snd p \<le> ?mx" using that by (intro Max_ge) auto
    then show ?thesis unfolding u by (simp add: word_le_nat_alt less_Suc_eq_le)
  qed
  define st where "st = fold place_cpu ps (cpu_llc llc_plan_off, replicate (unat (?mx + 1)) [])"
  have P: "plan_llcs ps prim m = \<lparr>nr_llcs = ?mx + 1,
      has_primary = mark_primaries prim (snd st) (has_primary llc_plan_off), llc_cpus = snd st, cpu_llc = fst st\<rparr>"
    using ne mx le by (simp add: plan_llcs_def Let_def st_def case_prod_beta)
  show ?thesis
    by (rule that [of "?mx + 1" st]) (use P all le u assms(2) st_def in auto)
qed

lemma plan_llcs_view:
  assumes "distinct (map fst ps)" and "nr_llcs (plan_llcs ps prim MLFQ_MAX_LLCS) \<noteq> 0"
    and "unat cpu < MLFQ_MAX_CPUS" and "unat llc < unat (nr_llcs (plan_llcs ps prim MLFQ_MAX_LLCS))"
  shows "cpu_llc (plan_llcs ps prim MLFQ_MAX_LLCS) ! unat cpu
      = (case map_of ps cpu of Some l \<Rightarrow> l | None \<Rightarrow> of_nat MLFQ_MAX_LLCS)
    \<and> (cpu \<in> set (llc_cpus (plan_llcs ps prim MLFQ_MAX_LLCS) ! unat llc) \<longleftrightarrow> map_of ps cpu = Some llc)
    \<and> has_primary (plan_llcs ps prim MLFQ_MAX_LLCS) ! unat llc
      = (if list_ex (\<lambda>c. c \<in> set prim) (llc_cpus (plan_llcs ps prim MLFQ_MAX_LLCS) ! unat llc) then 1 else 0)"
proof -
  obtain nr st where on: "nr_llcs (plan_llcs ps prim MLFQ_MAX_LLCS) = nr" "unat nr \<le> MLFQ_MAX_LLCS" "0 < unat nr"
    "\<forall>p \<in> set ps. unat (snd p) < unat nr"
    "st = fold place_cpu ps (cpu_llc llc_plan_off, replicate (unat nr) [])"
    "cpu_llc (plan_llcs ps prim MLFQ_MAX_LLCS) = fst st" "llc_cpus (plan_llcs ps prim MLFQ_MAX_LLCS) = snd st"
    "has_primary (plan_llcs ps prim MLFQ_MAX_LLCS) = mark_primaries prim (snd st) (has_primary llc_plan_off)"
    by (rule plan_llcs_on [OF assms(2) order_refl])
  have llc: "unat llc < unat nr" using assms(4) on(1) by simp
  have len: "length (cpu_llc llc_plan_off) = MLFQ_MAX_CPUS" "length (has_primary llc_plan_off) = MLFQ_MAX_LLCS"
    by (simp_all add: llc_plan_off_def)
  have "fst st ! unat cpu = (case map_of ps cpu of Some l \<Rightarrow> l | None \<Rightarrow> cpu_llc llc_plan_off ! unat cpu)"
    unfolding on(5) using fold_place_table [OF assms(1,3)] len by (simp split: option.splits)
  moreover have "cpu_llc llc_plan_off ! unat cpu = of_nat MLFQ_MAX_LLCS"
    using assms(3) by (simp add: llc_plan_off_def)
  moreover have "cpu \<in> set (snd st ! unat llc) \<longleftrightarrow> map_of ps cpu = Some llc"
    unfolding on(5) using fold_place_groups [of ps "(cpu_llc llc_plan_off, replicate (unat nr) [])" llc cpu]
      on(4) llc assms(1,3) by (simp add: map_of_eq_Some_iff)
  moreover have "length (snd st) = unat nr" unfolding on(5) by (simp add: fold_place_length)
  then have "has_primary (plan_llcs ps prim MLFQ_MAX_LLCS) ! unat llc
      = (if list_ex (\<lambda>c. c \<in> set prim) (snd st ! unat llc) then 1 else 0)"
    unfolding on(8) using mark_primaries_nth [of "snd st" "has_primary llc_plan_off" "unat llc" prim] len on(2) llc
    by (simp add: llc_plan_off_def)
  ultimately show ?thesis unfolding on(6,7) by (simp split: option.splits)
qed

text \<open>
  C33. When the plan is on, the per-CPU table gives every mapped CPU its domain and every other CPU
  the sentinel, the group of a domain holds exactly the CPUs mapped to it, and a domain is
  marked primary exactly when one of its CPUs is.
\<close>

theorem plan_llcs_spec:
  assumes "distinct (map fst ps)" and "nr_llcs (plan_llcs ps prim MLFQ_MAX_LLCS) \<noteq> 0"
    and "unat cpu < MLFQ_MAX_CPUS" and "unat llc < unat (nr_llcs (plan_llcs ps prim MLFQ_MAX_LLCS))"
  shows "cpu_llc (plan_llcs ps prim MLFQ_MAX_LLCS) ! unat cpu
      = (case map_of ps cpu of Some l \<Rightarrow> l | None \<Rightarrow> of_nat MLFQ_MAX_LLCS)
    \<and> (cpu \<in> set (llc_cpus (plan_llcs ps prim MLFQ_MAX_LLCS) ! unat llc) \<longleftrightarrow> map_of ps cpu = Some llc)
    \<and> has_primary (plan_llcs ps prim MLFQ_MAX_LLCS) ! unat llc
      = (if list_ex (\<lambda>c. c \<in> set prim) (llc_cpus (plan_llcs ps prim MLFQ_MAX_LLCS) ! unat llc) then 1 else 0)"
  by (rule plan_llcs_view [OF assms])

lemma plan_two_domains: "nr_llcs (plan_llcs [(0, 0), (1, 1)] [1] MLFQ_MAX_LLCS) = 2"
  by (simp add: plan_llcs_def Let_def const_defs case_prod_beta)

theorem plan_llcs_spec_witness:
  "nr_llcs (plan_llcs [(0, 0), (1, 1)] [1] MLFQ_MAX_LLCS) \<noteq> 0
   \<and> cpu_llc (plan_llcs [(0, 0), (1, 1)] [1] MLFQ_MAX_LLCS) ! 1 = 1
   \<and> 0 \<notin> set (llc_cpus (plan_llcs [(0, 0), (1, 1)] [1] MLFQ_MAX_LLCS) ! 1)"
proof -
  have nz: "nr_llcs (plan_llcs [(0, 0), (1, 1)] [1] MLFQ_MAX_LLCS) \<noteq> 0" by (simp add: plan_two_domains)
  have "distinct (map fst [(0 :: u32, 0 :: u32), (1, 1)])" by simp
  note spec = plan_llcs_spec [OF this nz]
  show ?thesis
    using spec [of 1 1] spec [of 0 1] nz by (simp add: plan_two_domains [unfolded const_defs] const_defs)
qed

section \<open>Siblings\<close>

lemma find_sorted_Min:
  "sorted xs \<Longrightarrow> find P xs = (if \<exists>x \<in> set xs. P x then Some (Min {x \<in> set xs. P x}) else None)"
proof (induction xs)
  case Nil
  then show ?case by simp
next
  case (Cons x xs)
  show ?case
  proof (cases "P x")
    case True
    then have "Min {y \<in> set (x # xs). P y} = x"
      using Cons.prems by (intro Min_eqI) auto
    with True show ?thesis by simp
  next
    case False
    then have "{y \<in> set (x # xs). P y} = {y \<in> set xs. P y}" by auto
    with False Cons show ?thesis by simp
  qed
qed

definition sibling_in :: "u32 set \<Rightarrow> u32 \<Rightarrow> u32" where
  "sibling_in cpus cpu = (if cpus - {cpu} = {} then cpu else Min (cpus - {cpu}))"

lemma find_other:
  "(case find (\<lambda>c. c \<noteq> cpu) (remdups_adj (sort xs)) of Some c \<Rightarrow> c | None \<Rightarrow> cpu) = sibling_in (set xs) cpu"
proof -
  have "{x \<in> set xs. x \<noteq> cpu} = set xs - {cpu}" by auto
  then show ?thesis
    by (auto simp: find_sorted_Min sorted_remdups_adj sibling_in_def)
qed

lemma foldl_update_nth:
  "\<forall>c \<in> set xs. unat c < length sib \<Longrightarrow>
    length (foldl (\<lambda>sib c. sib[unat c := g c]) sib xs) = length sib
    \<and> (unat cpu < length sib \<longrightarrow>
        foldl (\<lambda>sib c. sib[unat c := g c]) sib xs ! unat cpu = (if cpu \<in> set xs then g cpu else sib ! unat cpu))"
proof (induction xs rule: rev_induct)
  case Nil
  then show ?case by simp
next
  case (snoc x xs)
  have "unat x = unat cpu \<longleftrightarrow> x = cpu" by (simp add: word_unat_eq_iff)
  with snoc show ?case by (auto simp: nth_list_update)
qed

lemma distinct_remdups_adj_sorted: "sorted xs \<Longrightarrow> distinct (remdups_adj xs)"
proof (induction xs rule: remdups_adj.induct)
  case (3 x y xs)
  show ?case
  proof (cases "x = y")
    case True
    with 3 show ?thesis by simp
  next
    case False
    have sy: "sorted (y # xs)" and "x \<le> y" using "3.prems" by auto
    with False have "x < y" by simp
    with sy have "x \<notin> set (y # xs)" by auto
    then have "x \<notin> set (remdups_adj (y # xs))" by (simp only: remdups_adj_set not_False_eq_True)
    with False "3.IH"(2) [OF False sy] show ?thesis by simp
  qed
qed simp_all

lemma length_remdups_adj_sort: "length (remdups_adj (sort xs)) = card (set xs)"
proof -
  have "card (set (remdups_adj (sort xs))) = length (remdups_adj (sort xs))"
    by (rule distinct_card) (rule distinct_remdups_adj_sorted [OF sorted_sort])
  then show ?thesis by simp
qed

lemma pair_core_eq:
  "pair_core m st = (if card (set m) < 2 then st
     else (True, foldl (\<lambda>sib c. sib[unat c := sibling_in (set m) c]) (snd st) (remdups_adj (sort m))))"
  by (cases st) (simp add: pair_core_def Let_def length_remdups_adj_sort find_other)

lemma sibling_in_small: "card A < 2 \<Longrightarrow> finite A \<Longrightarrow> c \<in> A \<Longrightarrow> sibling_in A c = c"
proof -
  assume "card A < 2" "finite A" "c \<in> A"
  then have "card (A - {c}) = 0" by (simp add: card_Diff_singleton)
  with \<open>finite A\<close> show ?thesis by (simp add: sibling_in_def)
qed

lemma pair_core_nth:
  assumes "\<forall>c \<in> set m. unat c < length (snd st)" and "unat cpu < length (snd st)"
    and "snd st ! unat cpu = cpu \<or> cpu \<notin> set m"
  shows "length (snd (pair_core m st)) = length (snd st)"
    and "snd (pair_core m st) ! unat cpu = (if cpu \<in> set m then sibling_in (set m) cpu else snd st ! unat cpu)"
    and "fst (pair_core m st) \<longleftrightarrow> fst st \<or> 2 \<le> card (set m)"
proof -
  note u = foldl_update_nth [of "remdups_adj (sort m)" "snd st" "sibling_in (set m)" cpu]
  show "length (snd (pair_core m st)) = length (snd st)"
    using u assms(1) by (simp add: pair_core_eq)
  show "fst (pair_core m st) \<longleftrightarrow> fst st \<or> 2 \<le> card (set m)" by (auto simp: pair_core_eq)
  show "snd (pair_core m st) ! unat cpu = (if cpu \<in> set m then sibling_in (set m) cpu else snd st ! unat cpu)"
  proof (cases "card (set m) < 2")
    case True
    then show ?thesis using assms(3) sibling_in_small [OF True] by (auto simp: pair_core_eq)
  next
    case False
    then show ?thesis using u assms(1,2) by (simp add: pair_core_eq)
  qed
qed

text \<open>The loop over the cores: every CPU is touched by the iteration of its own core only.\<close>

lemma fold_cores:
  fixes M :: "u32 \<Rightarrow> u32 list" and core :: "u32 \<Rightarrow> u32 option"
  assumes M: "\<And>k c. c \<in> set (M k) \<longleftrightarrow> core c = Some k" and small: "\<And>k c. c \<in> set (M k) \<Longrightarrow> unat c < MLFQ_MAX_CPUS"
  shows "distinct ks \<Longrightarrow> st = foldl (\<lambda>st k. pair_core (M k) st) (False, map of_nat [0..<MLFQ_MAX_CPUS]) ks \<Longrightarrow>
    length (snd st) = MLFQ_MAX_CPUS
    \<and> (\<forall>cpu. unat cpu < MLFQ_MAX_CPUS \<longrightarrow> snd st ! unat cpu =
         (case core cpu of Some k \<Rightarrow> if k \<in> set ks then sibling_in (set (M k)) cpu else cpu | None \<Rightarrow> cpu))
    \<and> (fst st \<longleftrightarrow> (\<exists>k \<in> set ks. 2 \<le> card (set (M k))))"
proof (induction ks arbitrary: st rule: rev_induct)
  case Nil
  then show ?case by (auto split: option.splits)
next
  case (snoc k ks)
  define st0 where "st0 = foldl (\<lambda>st k. pair_core (M k) st) (False, map of_nat [0..<MLFQ_MAX_CPUS]) ks"
  have st: "st = pair_core (M k) st0" using snoc.prems(2) by (simp add: st0_def)
  have k: "k \<notin> set ks" "distinct ks" using snoc.prems(1) by auto
  have len: "length (snd st0) = MLFQ_MAX_CPUS"
    and tab: "\<And>cpu. unat cpu < MLFQ_MAX_CPUS \<Longrightarrow> snd st0 ! unat cpu =
         (case core cpu of Some k \<Rightarrow> if k \<in> set ks then sibling_in (set (M k)) cpu else cpu | None \<Rightarrow> cpu)"
    and smt: "fst st0 \<longleftrightarrow> (\<exists>k \<in> set ks. 2 \<le> card (set (M k)))"
    using snoc.IH [OF k(2) st0_def] by blast+
  have small': "\<forall>c \<in> set (M k). unat c < length (snd st0)" using small len by auto
  have at: "snd st0 ! unat cpu = cpu \<or> cpu \<notin> set (M k)" if "unat cpu < MLFQ_MAX_CPUS" for cpu
    using tab [OF that] k(1) M [of cpu k] by auto
  have "snd st ! unat cpu =
      (case core cpu of Some k' \<Rightarrow> if k' \<in> set (ks @ [k]) then sibling_in (set (M k')) cpu else cpu | None \<Rightarrow> cpu)"
    if cpu: "unat cpu < MLFQ_MAX_CPUS" for cpu
    using pair_core_nth(2) [OF small' _ at [OF cpu]] cpu len tab [OF cpu] M [of cpu k] k(1)
    unfolding st by (auto split: option.splits)
  moreover have "length (snd st) = MLFQ_MAX_CPUS" "fst st \<longleftrightarrow> (\<exists>k \<in> set (ks @ [k]). 2 \<le> card (set (M k)))"
    using pair_core_nth(1,3) [OF small', of 0] at [of 0] len smt unfolding st by (auto simp: const_defs)
  ultimately show ?case by blast
qed

lemma foldl_table:
  "\<forall>p \<in> set ps. unat (fst p) < length cc \<Longrightarrow> distinct (map fst ps) \<Longrightarrow> unat cpu < length cc \<Longrightarrow>
    foldl (\<lambda>cc (c, k). cc[unat c := k]) cc ps ! unat cpu = (case map_of ps cpu of Some k \<Rightarrow> k | None \<Rightarrow> cc ! unat cpu)"
proof (induction ps arbitrary: cc)
  case Nil
  then show ?case by simp
next
  case (Cons p ps)
  obtain c k where p: "p = (c, k)" by force
  have IH: "foldl (\<lambda>cc (c, k). cc[unat c := k]) (cc[unat c := k]) ps ! unat cpu
    = (case map_of ps cpu of Some k' \<Rightarrow> k' | None \<Rightarrow> cc[unat c := k] ! unat cpu)"
    using Cons.prems by (intro Cons.IH) simp_all
  show ?case
  proof (cases "c = cpu")
    case True
    then have "map_of ps cpu = None" using Cons.prems(2) p by (auto simp: map_of_eq_None_iff)
    with IH True p Cons.prems(3) show ?thesis by simp
  next
    case False
    then have "cc[unat c := k] ! unat cpu = cc ! unat cpu" by (simp add: word_unat_eq_iff)
    with IH False p show ?thesis by (simp split: option.splits)
  qed
qed

definition core_mates :: "(u32 \<times> u32) list \<Rightarrow> u32 \<Rightarrow> u32 set" where
  "core_mates ps cpu = {c. unat c < MLFQ_MAX_CPUS \<and> (\<exists>k. (cpu, k) \<in> set ps \<and> (c, k) \<in> set ps)}"

text \<open>
  The sibling of every CPU is the lowest other CPU of its core, or the CPU itself when there is
  none; its core entry is the core of the map or the sentinel; and SMT is on exactly when some
  CPU has a sibling that is not itself. The order of the map does not matter.
\<close>

theorem sibling_table_spec:
  assumes dist: "distinct (map fst ps)" and cpu: "unat cpu < MLFQ_MAX_CPUS"
  shows "cpu_sibling (plan_sibling_table ps) ! unat cpu = sibling_in (core_mates ps cpu) cpu
    \<and> cpu_core (plan_sibling_table ps) ! unat cpu
        = (case map_of ps cpu of Some k \<Rightarrow> k | None \<Rightarrow> of_nat MLFQ_MAX_CPUS)
    \<and> (smt_on (plan_sibling_table ps)
        \<longleftrightarrow> (\<exists>c. unat c < MLFQ_MAX_CPUS \<and> cpu_sibling (plan_sibling_table ps) ! unat c \<noteq> c))"
proof -
  let ?v = "valid_pairs ps"
  have dv: "distinct (map fst ?v)" using dist by (simp add: valid_pairs_def distinct_map_filter)
  have vs: "(c, k) \<in> set ?v \<longleftrightarrow> (c, k) \<in> set ps \<and> unat c < MLFQ_MAX_CPUS" for c k
    by (auto simp: valid_pairs_def)
  have M: "c \<in> set (core_members ?v k) \<longleftrightarrow> map_of ?v c = Some k" for c k
    using dv by (auto simp: core_members_def map_of_eq_Some_iff image_iff)
  have Mset: "set (core_members ?v k) = {c. (c, k) \<in> set ps \<and> unat c < MLFQ_MAX_CPUS}" for k
    by (auto simp: core_members_def vs image_iff)
  define st where "st = foldl (\<lambda>st k. pair_core (core_members ?v k) st) (False, map of_nat [0..<MLFQ_MAX_CPUS]) (core_keys ?v)"
  have P: "cpu_sibling (plan_sibling_table ps) = snd st" "smt_on (plan_sibling_table ps) = fst st"
    "cpu_core (plan_sibling_table ps) = foldl (\<lambda>cc (c, k). cc[unat c := k])
       (replicate MLFQ_MAX_CPUS (of_nat MLFQ_MAX_CPUS)) ?v"
    by (simp_all add: plan_sibling_table_def Let_def st_def case_prod_beta)
  have keys: "distinct (core_keys ?v)" "\<And>c k. map_of ?v c = Some k \<Longrightarrow> k \<in> set (core_keys ?v)"
    using dv by (force simp: core_keys_def map_of_eq_Some_iff)+
  have small: "\<And>k c. c \<in> set (core_members ?v k) \<Longrightarrow> unat c < MLFQ_MAX_CPUS" by (simp add: Mset)
  have fc: "length (snd st) = MLFQ_MAX_CPUS
    \<and> (\<forall>cpu. unat cpu < MLFQ_MAX_CPUS \<longrightarrow> snd st ! unat cpu =
         (case map_of ?v cpu of Some k \<Rightarrow> if k \<in> set (core_keys ?v) then sibling_in (set (core_members ?v k)) cpu else cpu
          | None \<Rightarrow> cpu))
    \<and> (fst st \<longleftrightarrow> (\<exists>k \<in> set (core_keys ?v). 2 \<le> card (set (core_members ?v k))))"
    by (rule fold_cores [OF M _ keys(1) st_def]) (rule small)
  have sib: "snd st ! unat c = sibling_in (core_mates ps c) c" if c: "unat c < MLFQ_MAX_CPUS" for c
  proof (cases "map_of ?v c")
    case None
    then have "c \<notin> fst ` set ?v" by (simp only: map_of_eq_None_iff not_False_eq_True)
    then have "(c, k) \<notin> set ps" for k using c vs [of c k] by (metis fst_conv image_eqI)
    then have "core_mates ps c = {}" by (auto simp: core_mates_def)
    moreover have "snd st ! unat c = c" using fc c None by auto
    ultimately show ?thesis by (simp add: sibling_in_def)
  next
    case (Some k)
    then have k: "(c, k) \<in> set ps" using dv vs by (auto simp: map_of_eq_Some_iff)
    then have "(c, k') \<in> set ps \<longleftrightarrow> k' = k" for k'
      using dist by (metis map_of_eq_Some_iff option.inject)
    then have "core_mates ps c = set (core_members ?v k)" by (auto simp: core_mates_def Mset)
    with fc c Some keys(2) [OF Some] show ?thesis by auto
  qed
  have "fst st \<longleftrightarrow> (\<exists>c. unat c < MLFQ_MAX_CPUS \<and> snd st ! unat c \<noteq> c)"
  proof
    assume "fst st"
    then obtain k where k: "2 \<le> card (set (core_members ?v k))" using fc by blast
    then obtain c where c: "c \<in> set (core_members ?v k)" by (metis card.empty ex_in_conv not_numeral_le_zero)
    let ?A = "set (core_members ?v k)"
    have "?A - {c} \<noteq> {}"
    proof
      assume "?A - {c} = {}"
      then have "?A \<subseteq> {c}" by blast
      then have "card ?A \<le> card {c}" by (intro card_mono) auto
      with k show False by simp
    qed
    then have "sibling_in ?A c \<in> ?A - {c}" by (simp add: sibling_in_def) (use Min_in [of "?A - {c}"] in auto)
    moreover have "snd st ! unat c = sibling_in ?A c"
      using fc small [OF c] c keys(2) M by auto
    ultimately show "\<exists>c. unat c < MLFQ_MAX_CPUS \<and> snd st ! unat c \<noteq> c" using small [OF c] by auto
  next
    assume "\<exists>c. unat c < MLFQ_MAX_CPUS \<and> snd st ! unat c \<noteq> c"
    then obtain c where c: "unat c < MLFQ_MAX_CPUS" "snd st ! unat c \<noteq> c" by blast
    then obtain k where k: "map_of ?v c = Some k" "snd st ! unat c = sibling_in (set (core_members ?v k)) c"
      using fc by (auto split: option.splits if_splits)
    have "c \<in> set (core_members ?v k)" using M k(1) by blast
    then have "2 \<le> card (set (core_members ?v k))"
      using c(2) k(2) sibling_in_small [of "set (core_members ?v k)" c] by (cases "card (set (core_members ?v k)) < 2") simp_all
    with fc keys(2) [OF k(1)] show "fst st" by blast
  qed
  moreover have "map_of ?v cpu = map_of ps cpu"
    unfolding valid_pairs_def using cpu by (induction ps) auto
  moreover have "foldl (\<lambda>cc (c, k). cc[unat c := k]) (replicate MLFQ_MAX_CPUS (of_nat MLFQ_MAX_CPUS)) ?v ! unat cpu
      = (case map_of ?v cpu of Some k \<Rightarrow> k | None \<Rightarrow> of_nat MLFQ_MAX_CPUS)"
    using foldl_table [of ?v "replicate MLFQ_MAX_CPUS (of_nat MLFQ_MAX_CPUS)" cpu] dv cpu
    by (auto simp: valid_pairs_def split: option.splits)
  ultimately show ?thesis unfolding P using sib cpu by auto
qed

theorem sibling_table_spec_witness:
  "distinct (map fst [(0 :: u32, 7 :: u32), (1, 7)])
   \<and> cpu_sibling (plan_sibling_table [(0, 7), (1, 7)]) ! unat (0 :: u32)
     = sibling_in (core_mates [(0, 7), (1, 7)] 0) 0"
  using sibling_table_spec [of "[(0, 7), (1, 7)]" 0] by (simp add: const_defs)

section \<open>The largest domain\<close>

lemma scan_max_snoc:
  "scan_max m (xs @ [x]) =
     (if x = m then (if fst (scan_max m xs) \<noteq> None then (fst (scan_max m xs), True)
                     else (Some (length xs), snd (scan_max m xs)))
      else scan_max m xs)"
  by (simp add: scan_max_def enumerate_append_eq case_prod_beta)

lemma scan_max_spec:
  "(case fst (scan_max m xs) of None \<Rightarrow> m \<notin> set xs | Some i \<Rightarrow> i < length xs \<and> xs ! i = m)
   \<and> (snd (scan_max m xs) \<longleftrightarrow> 2 \<le> count_list xs m)"
proof (induction xs rule: rev_induct)
  case Nil
  then show ?case by (simp add: scan_max_def)
next
  case (snoc x xs)
  have "0 < count_list xs m" if "fst (scan_max m xs) = Some i" for i
    using snoc that nth_mem [of i xs] by (simp add: count_list_0_iff flip: neq0_conv)
  with snoc show ?case
    unfolding scan_max_snoc by (auto simp: nth_append split: option.splits)
qed

lemma count_two_indices:
  assumes "i < length xs" "j < length xs" "i < j" "xs ! i = m" "xs ! j = m"
  shows "2 \<le> count_list xs m"
proof -
  have "m \<in> set (take j xs)" using assms by (auto simp: in_set_conv_nth intro!: exI [of _ i])
  moreover have "m \<in> set (drop j xs)" using assms by (auto simp: in_set_conv_nth intro!: exI [of _ 0])
  ultimately have "0 < count_list (take j xs) m" "0 < count_list (drop j xs) m"
    by (simp_all add: count_list_0_iff flip: neq0_conv)
  moreover have "count_list xs m = count_list (take j xs) m + count_list (drop j xs) m"
    by (metis append_take_drop_id count_list_append)
  ultimately show ?thesis by simp
qed

lemma one_index_count:
  assumes "\<forall>j < length xs. xs ! j = m \<longrightarrow> j = i"
  shows "count_list xs m \<le> 1"
proof (rule ccontr)
  assume "\<not> count_list xs m \<le> 1"
  then obtain n where "count_list xs m = Suc (Suc n)" by (metis One_nat_def Suc_le_mono le0 old.nat.exhaust)
  then obtain pre rest where xs: "xs = pre @ m # rest" and c: "count_list rest m = Suc n"
    by (metis count_list_Suc_split_first)
  then obtain j where j: "j < length rest" "rest ! j = m" by (metis count_notin in_set_conv_nth nat.distinct(1))
  have "length pre = i" using assms xs by (metis length_append length_Cons less_add_same_cancel1 nth_append_length zero_less_Suc)
  moreover have "length pre + Suc j = i"
    using assms [rule_format, of "length pre + Suc j"] xs j by (simp add: nth_append)
  ultimately show False by simp
qed

text \<open>
  The pick is the domain whose cache is strictly larger than that of every other domain
  considered; with fewer than two domains or a tie there is none.
\<close>

theorem pick_largest_llc_spec:
  "pick_largest_llc sizes nr = Some l \<longleftrightarrow>
     2 \<le> unat nr \<and> unat l < min (unat nr) (length sizes)
     \<and> list_all (\<lambda>j. j = unat l \<or> sizes ! j < sizes ! unat l) [0..<min (unat nr) (length sizes)]"
proof -
  define n where "n = min (unat nr) (length sizes)"
  define xs where "xs = take n sizes"
  have len: "length xs = n" and nth: "\<And>j. j < n \<Longrightarrow> xs ! j = sizes ! j"
    by (simp_all add: xs_def n_def)
  have n32: "n < 4294967296" using unsigned_less [of nr, where ?'a = nat] by (simp add: n_def)
  let ?m = "Max (set xs)"
  note sm = scan_max_spec [of ?m xs]
  have le: "xs ! j \<le> ?m" if "j < n" for j using that len by (intro Max_ge) auto
  have main: "pick_largest_llc sizes nr = Some l \<longleftrightarrow> 2 \<le> unat nr \<and> xs \<noteq> []
      \<and> \<not> 2 \<le> count_list xs ?m \<and> map_option of_nat (fst (scan_max ?m xs)) = Some l"
    using sm by (auto simp: pick_largest_llc_def Let_def case_prod_beta simp flip: n_def xs_def)
  have "xs \<noteq> [] \<and> \<not> 2 \<le> count_list xs ?m \<and> map_option of_nat (fst (scan_max ?m xs)) = Some l
    \<longleftrightarrow> unat l < n \<and> (\<forall>j < n. j = unat l \<or> xs ! j < xs ! unat l)"
  proof
    assume a: "xs \<noteq> [] \<and> \<not> 2 \<le> count_list xs ?m \<and> map_option of_nat (fst (scan_max ?m xs)) = Some l"
    then obtain i where i: "fst (scan_max ?m xs) = Some i" "l = of_nat i" by auto
    with sm len have im: "i < n" "xs ! i = ?m" by auto
    then have l: "unat l = i" using i(2) n32 unat_of_nat_u32 by simp
    have "j = i \<or> xs ! j < xs ! i" if j: "j < n" for j
    proof -
      have "xs ! j \<noteq> ?m \<or> j = i"
        using a count_two_indices [of i xs j ?m] count_two_indices [of j xs i ?m] im j len by (metis nat_neq_iff)
      with le [OF j] im(2) show ?thesis by (auto simp: order_less_le)
    qed
    with im l show "unat l < n \<and> (\<forall>j < n. j = unat l \<or> xs ! j < xs ! unat l)" by simp
  next
    assume b: "unat l < n \<and> (\<forall>j < n. j = unat l \<or> xs ! j < xs ! unat l)"
    then have ne: "xs \<noteq> []" using len by auto
    have "xs ! j \<le> xs ! unat l" if "j < n" for j using b that by (metis order_less_imp_le order_refl)
    then have mx: "?m = xs ! unat l"
      using b len by (intro Max_eqI) (auto simp: in_set_conv_nth)
    have u: "j = unat l" if "j < n" "xs ! j = ?m" for j using b that mx by (metis order_less_irrefl)
    then have "\<not> 2 \<le> count_list xs ?m" using one_index_count [of xs ?m "unat l"] len by fastforce
    moreover have "fst (scan_max ?m xs) = Some (unat l)"
      using sm u len b mx nth_mem [of "unat l" xs] by (auto split: option.splits)
    ultimately show "xs \<noteq> [] \<and> \<not> 2 \<le> count_list xs ?m \<and> map_option of_nat (fst (scan_max ?m xs)) = Some l"
      using ne by simp
  qed
  moreover have "(\<forall>j < n. j = unat l \<or> xs ! j < xs ! unat l) \<longleftrightarrow> list_all (\<lambda>j. j = unat l \<or> sizes ! j < sizes ! unat l) [0..<n]"
    if "unat l < n" using nth that by (auto simp: list_all_iff)
  ultimately show ?thesis unfolding main n_def [symmetric] by blast
qed

end
