(* ===== verification/Config.thy ===== *)
theory Config
  imports Intf
begin

text \<open>
  \<open>src/scx/src/config.rs\<close>: the validated scheduling constants. \<open>config\<close> is \<open>struct Config\<close>,
  \<open>config_default\<close> its \<open>Default\<close>, \<open>validate\<close> and \<open>apply\<close> its methods, and \<open>config_builder\<close>
  with its setters and \<open>build\<close> the test-only builder. \<open>config_valid\<close> states the invariants
  the BPF side relies on, and the lemmas show that \<open>validate\<close> accepts exactly those
  configurations and that what \<open>apply\<close> writes is what the BPF side reads.
\<close>

section \<open>The configuration\<close>

record config =
  q1_slice_ns :: u64
  q2_slice_ns :: u64
  q3_slice_ns :: u64
  budget_max_ns :: u64
  alpha :: u64
  t_l_ns :: u64
  t_h_ns :: u64
  ema_half_life_ns :: u64
  aging_period_ns :: u64
  short_sleep_ns :: u64
  short_sleep_rate_limit_ns :: u64
  hysteresis_sleep_ns :: u64
  long_sleep_ns :: u64
  sameq_preempt_min_run_ns :: u64
  preempt_slice_ns :: u64
  q1_quota :: u32
  q2_quota :: u32
  dispatch_max_batch :: u32
  rtdl_drain_interval_ns :: u64
  tree_t_int_ns :: u64
  tree_t_bound_ns :: u64
  adapt_enabled :: bool

definition config_default :: config where
  "config_default = \<lparr>
     q1_slice_ns = MLFQ_Q1_SLICE_NS,
     q2_slice_ns = MLFQ_Q2_SLICE_NS,
     q3_slice_ns = MLFQ_Q3_SLICE_NS,
     budget_max_ns = MLFQ_BUDGET_MAX_NS,
     alpha = MLFQ_ALPHA,
     t_l_ns = MLFQ_T_L_NS,
     t_h_ns = MLFQ_T_H_NS,
     ema_half_life_ns = MLFQ_EMA_HALF_LIFE_NS,
     aging_period_ns = MLFQ_AGING_PERIOD_NS,
     short_sleep_ns = 32 * NSEC_PER_MSEC,
     short_sleep_rate_limit_ns = MLFQ_SHORT_SLEEP_RATE_LIMIT_NS,
     hysteresis_sleep_ns = MLFQ_HYSTERESIS_SLEEP_NS,
     long_sleep_ns = MLFQ_LONG_SLEEP_NS,
     sameq_preempt_min_run_ns = MLFQ_SAMEQ_PREEMPT_MIN_RUN_NS,
     preempt_slice_ns = MLFQ_PREEMPT_SLICE_NS,
     q1_quota = MLFQ_Q1_QUOTA,
     q2_quota = MLFQ_Q2_QUOTA,
     dispatch_max_batch = MLFQ_DISPATCH_MAX_BATCH,
     rtdl_drain_interval_ns = MLFQ_RTDL_DRAIN_INTERVAL_NS,
     tree_t_int_ns = MLFQ_TREE_T_INT_NS,
     tree_t_bound_ns = MLFQ_TREE_T_BOUND_NS,
     adapt_enabled = True \<rparr>"

section \<open>Validation\<close>

text \<open>One constructor per \<open>bail!\<close>, with the values its message prints.\<close>

datatype config_error =
    Slices_zero u64 u64 u64
  | Budget_max_zero
  | Alpha_zero
  | T_L_zero
  | T_L_not_below_T_H u64 u64
  | T_H_not_below_budget u64 u64
  | Half_life_zero
  | Aging_period_zero
  | Short_sleep_zero
  | Rate_limit_zero
  | Hysteresis_zero
  | Long_sleep_zero
  | Quotas_zero u32 u32
  | Batch_zero
  | No_Q3_headroom u32 u32 u32
  | Batch_exceeds_ops u32 u32
  | Rtdl_interval_zero
  | T_INT_zero
  | T_INT_not_below_T_BOUND u64 u64
  | Rodata_missing

definition validate :: "config \<Rightarrow> config_error + unit" where
  "validate c =
    (if q1_slice_ns c = 0 \<or> q2_slice_ns c = 0 \<or> q3_slice_ns c = 0
       then Err (Slices_zero (q1_slice_ns c) (q2_slice_ns c) (q3_slice_ns c))
     else if budget_max_ns c = 0 then Err Budget_max_zero
     else if alpha c = 0 then Err Alpha_zero
     else if t_l_ns c = 0 then Err T_L_zero
     else if t_h_ns c \<le> t_l_ns c then Err (T_L_not_below_T_H (t_l_ns c) (t_h_ns c))
     else if budget_max_ns c \<le> t_h_ns c
       then Err (T_H_not_below_budget (t_h_ns c) (budget_max_ns c))
     else if ema_half_life_ns c = 0 then Err Half_life_zero
     else if aging_period_ns c = 0 then Err Aging_period_zero
     else if short_sleep_ns c = 0 then Err Short_sleep_zero
     else if short_sleep_rate_limit_ns c = 0 then Err Rate_limit_zero
     else if hysteresis_sleep_ns c = 0 then Err Hysteresis_zero
     else if long_sleep_ns c = 0 then Err Long_sleep_zero
     else if q1_quota c = 0 \<or> q2_quota c = 0 then Err (Quotas_zero (q1_quota c) (q2_quota c))
     else if dispatch_max_batch c = 0 then Err Batch_zero
     else if (ucast (dispatch_max_batch c) :: u64)
               \<le> (ucast (q1_quota c) :: u64) + (ucast (q2_quota c) :: u64)
       then Err (No_Q3_headroom (q1_quota c) (q2_quota c) (dispatch_max_batch c))
     else if MLFQ_DISPATCH_MAX_BATCH < dispatch_max_batch c
       then Err (Batch_exceeds_ops (dispatch_max_batch c) MLFQ_DISPATCH_MAX_BATCH)
     else if rtdl_drain_interval_ns c = 0 then Err Rtdl_interval_zero
     else if tree_t_int_ns c = 0 then Err T_INT_zero
     else if tree_t_bound_ns c \<le> tree_t_int_ns c
       then Err (T_INT_not_below_T_BOUND (tree_t_int_ns c) (tree_t_bound_ns c))
     else Ok ())"

section \<open>Writing the constants into the read-only data\<close>

text \<open>\<open>None\<close> is an object without a \<open>.rodata\<close> section.\<close>

definition apply_config :: "config \<Rightarrow> rodata option \<Rightarrow> config_error + rodata" where
  "apply_config c skel = (case skel of None \<Rightarrow> Err Rodata_missing | Some r \<Rightarrow> Ok (r\<lparr>
     mlfq_q1_slice_ns := q1_slice_ns c,
     mlfq_q2_slice_ns := q2_slice_ns c,
     mlfq_q3_slice_ns := q3_slice_ns c,
     mlfq_budget_max_ns := budget_max_ns c,
     mlfq_alpha := alpha c,
     mlfq_t_l_ns := t_l_ns c,
     mlfq_t_h_ns := t_h_ns c,
     mlfq_ema_half_life_ns := ema_half_life_ns c,
     mlfq_aging_period_ns := aging_period_ns c,
     mlfq_short_sleep_ns := short_sleep_ns c,
     mlfq_short_sleep_rate_limit_ns := short_sleep_rate_limit_ns c,
     mlfq_hysteresis_sleep_ns := hysteresis_sleep_ns c,
     mlfq_long_sleep_ns := long_sleep_ns c,
     mlfq_sameq_preempt_min_run_ns := sameq_preempt_min_run_ns c,
     mlfq_preempt_slice_ns := preempt_slice_ns c,
     mlfq_q1_quota := q1_quota c,
     mlfq_q2_quota := q2_quota c,
     mlfq_dispatch_max_batch := dispatch_max_batch c,
     mlfq_rtdl_drain_interval_ns := rtdl_drain_interval_ns c,
     mlfq_tree_t_int_ns := tree_t_int_ns c,
     mlfq_tree_t_bound_ns := tree_t_bound_ns c,
     mlfq_adapt_enabled := adapt_enabled c \<rparr>))"

section \<open>The builder\<close>

named_theorems builder_defs \<open>the setters of the builder\<close>

record config_builder =
  b_q1_slice_ns :: "u64 option"
  b_q2_slice_ns :: "u64 option"
  b_q3_slice_ns :: "u64 option"
  b_budget_max_ns :: "u64 option"
  b_alpha :: "u64 option"
  b_t_l_ns :: "u64 option"
  b_t_h_ns :: "u64 option"
  b_ema_half_life_ns :: "u64 option"
  b_aging_period_ns :: "u64 option"
  b_short_sleep_ns :: "u64 option"
  b_short_sleep_rate_limit_ns :: "u64 option"
  b_hysteresis_sleep_ns :: "u64 option"
  b_long_sleep_ns :: "u64 option"
  b_sameq_preempt_min_run_ns :: "u64 option"
  b_preempt_slice_ns :: "u64 option"
  b_q1_quota :: "u32 option"
  b_q2_quota :: "u32 option"
  b_dispatch_max_batch :: "u32 option"
  b_rtdl_drain_interval_ns :: "u64 option"
  b_tree_t_int_ns :: "u64 option"
  b_tree_t_bound_ns :: "u64 option"
  b_adapt_enabled :: "bool option"

definition builder_default :: config_builder where
  "builder_default = \<lparr>
     b_q1_slice_ns = None,
     b_q2_slice_ns = None,
     b_q3_slice_ns = None,
     b_budget_max_ns = None,
     b_alpha = None,
     b_t_l_ns = None,
     b_t_h_ns = None,
     b_ema_half_life_ns = None,
     b_aging_period_ns = None,
     b_short_sleep_ns = None,
     b_short_sleep_rate_limit_ns = None,
     b_hysteresis_sleep_ns = None,
     b_long_sleep_ns = None,
     b_sameq_preempt_min_run_ns = None,
     b_preempt_slice_ns = None,
     b_q1_quota = None,
     b_q2_quota = None,
     b_dispatch_max_batch = None,
     b_rtdl_drain_interval_ns = None,
     b_tree_t_int_ns = None,
     b_tree_t_bound_ns = None,
     b_adapt_enabled = None \<rparr>"

definition set_q1_slice_ns :: "u64 \<Rightarrow> config_builder \<Rightarrow> config_builder" where
  [builder_defs]: "set_q1_slice_ns v b = b\<lparr>b_q1_slice_ns := Some v\<rparr>"

definition set_q2_slice_ns :: "u64 \<Rightarrow> config_builder \<Rightarrow> config_builder" where
  [builder_defs]: "set_q2_slice_ns v b = b\<lparr>b_q2_slice_ns := Some v\<rparr>"

definition set_q3_slice_ns :: "u64 \<Rightarrow> config_builder \<Rightarrow> config_builder" where
  [builder_defs]: "set_q3_slice_ns v b = b\<lparr>b_q3_slice_ns := Some v\<rparr>"

definition set_budget_max_ns :: "u64 \<Rightarrow> config_builder \<Rightarrow> config_builder" where
  [builder_defs]: "set_budget_max_ns v b = b\<lparr>b_budget_max_ns := Some v\<rparr>"

definition set_alpha :: "u64 \<Rightarrow> config_builder \<Rightarrow> config_builder" where
  [builder_defs]: "set_alpha v b = b\<lparr>b_alpha := Some v\<rparr>"

definition set_t_l_ns :: "u64 \<Rightarrow> config_builder \<Rightarrow> config_builder" where
  [builder_defs]: "set_t_l_ns v b = b\<lparr>b_t_l_ns := Some v\<rparr>"

definition set_t_h_ns :: "u64 \<Rightarrow> config_builder \<Rightarrow> config_builder" where
  [builder_defs]: "set_t_h_ns v b = b\<lparr>b_t_h_ns := Some v\<rparr>"

definition set_ema_half_life_ns :: "u64 \<Rightarrow> config_builder \<Rightarrow> config_builder" where
  [builder_defs]: "set_ema_half_life_ns v b = b\<lparr>b_ema_half_life_ns := Some v\<rparr>"

definition set_aging_period_ns :: "u64 \<Rightarrow> config_builder \<Rightarrow> config_builder" where
  [builder_defs]: "set_aging_period_ns v b = b\<lparr>b_aging_period_ns := Some v\<rparr>"

definition set_short_sleep_ns :: "u64 \<Rightarrow> config_builder \<Rightarrow> config_builder" where
  [builder_defs]: "set_short_sleep_ns v b = b\<lparr>b_short_sleep_ns := Some v\<rparr>"

definition set_short_sleep_rate_limit_ns :: "u64 \<Rightarrow> config_builder \<Rightarrow> config_builder" where
  [builder_defs]: "set_short_sleep_rate_limit_ns v b = b\<lparr>b_short_sleep_rate_limit_ns := Some v\<rparr>"

definition set_hysteresis_sleep_ns :: "u64 \<Rightarrow> config_builder \<Rightarrow> config_builder" where
  [builder_defs]: "set_hysteresis_sleep_ns v b = b\<lparr>b_hysteresis_sleep_ns := Some v\<rparr>"

definition set_long_sleep_ns :: "u64 \<Rightarrow> config_builder \<Rightarrow> config_builder" where
  [builder_defs]: "set_long_sleep_ns v b = b\<lparr>b_long_sleep_ns := Some v\<rparr>"

definition set_sameq_preempt_min_run_ns :: "u64 \<Rightarrow> config_builder \<Rightarrow> config_builder" where
  [builder_defs]: "set_sameq_preempt_min_run_ns v b = b\<lparr>b_sameq_preempt_min_run_ns := Some v\<rparr>"

definition set_preempt_slice_ns :: "u64 \<Rightarrow> config_builder \<Rightarrow> config_builder" where
  [builder_defs]: "set_preempt_slice_ns v b = b\<lparr>b_preempt_slice_ns := Some v\<rparr>"

definition set_q1_quota :: "u32 \<Rightarrow> config_builder \<Rightarrow> config_builder" where
  [builder_defs]: "set_q1_quota v b = b\<lparr>b_q1_quota := Some v\<rparr>"

definition set_q2_quota :: "u32 \<Rightarrow> config_builder \<Rightarrow> config_builder" where
  [builder_defs]: "set_q2_quota v b = b\<lparr>b_q2_quota := Some v\<rparr>"

definition set_dispatch_max_batch :: "u32 \<Rightarrow> config_builder \<Rightarrow> config_builder" where
  [builder_defs]: "set_dispatch_max_batch v b = b\<lparr>b_dispatch_max_batch := Some v\<rparr>"

definition set_rtdl_drain_interval_ns :: "u64 \<Rightarrow> config_builder \<Rightarrow> config_builder" where
  [builder_defs]: "set_rtdl_drain_interval_ns v b = b\<lparr>b_rtdl_drain_interval_ns := Some v\<rparr>"

definition set_tree_t_int_ns :: "u64 \<Rightarrow> config_builder \<Rightarrow> config_builder" where
  [builder_defs]: "set_tree_t_int_ns v b = b\<lparr>b_tree_t_int_ns := Some v\<rparr>"

definition set_tree_t_bound_ns :: "u64 \<Rightarrow> config_builder \<Rightarrow> config_builder" where
  [builder_defs]: "set_tree_t_bound_ns v b = b\<lparr>b_tree_t_bound_ns := Some v\<rparr>"

definition set_adapt_enabled :: "bool \<Rightarrow> config_builder \<Rightarrow> config_builder" where
  [builder_defs]: "set_adapt_enabled v b = b\<lparr>b_adapt_enabled := Some v\<rparr>"

definition assemble :: "config_builder \<Rightarrow> config" where
  "assemble b = \<lparr>
     q1_slice_ns = unwrap_or (b_q1_slice_ns b) (q1_slice_ns config_default),
     q2_slice_ns = unwrap_or (b_q2_slice_ns b) (q2_slice_ns config_default),
     q3_slice_ns = unwrap_or (b_q3_slice_ns b) (q3_slice_ns config_default),
     budget_max_ns = unwrap_or (b_budget_max_ns b) (budget_max_ns config_default),
     alpha = unwrap_or (b_alpha b) (alpha config_default),
     t_l_ns = unwrap_or (b_t_l_ns b) (t_l_ns config_default),
     t_h_ns = unwrap_or (b_t_h_ns b) (t_h_ns config_default),
     ema_half_life_ns = unwrap_or (b_ema_half_life_ns b) (ema_half_life_ns config_default),
     aging_period_ns = unwrap_or (b_aging_period_ns b) (aging_period_ns config_default),
     short_sleep_ns = unwrap_or (b_short_sleep_ns b) (short_sleep_ns config_default),
     short_sleep_rate_limit_ns = unwrap_or (b_short_sleep_rate_limit_ns b) (short_sleep_rate_limit_ns config_default),
     hysteresis_sleep_ns = unwrap_or (b_hysteresis_sleep_ns b) (hysteresis_sleep_ns config_default),
     long_sleep_ns = unwrap_or (b_long_sleep_ns b) (long_sleep_ns config_default),
     sameq_preempt_min_run_ns = unwrap_or (b_sameq_preempt_min_run_ns b) (sameq_preempt_min_run_ns config_default),
     preempt_slice_ns = unwrap_or (b_preempt_slice_ns b) (preempt_slice_ns config_default),
     q1_quota = unwrap_or (b_q1_quota b) (q1_quota config_default),
     q2_quota = unwrap_or (b_q2_quota b) (q2_quota config_default),
     dispatch_max_batch = unwrap_or (b_dispatch_max_batch b) (dispatch_max_batch config_default),
     rtdl_drain_interval_ns = unwrap_or (b_rtdl_drain_interval_ns b) (rtdl_drain_interval_ns config_default),
     tree_t_int_ns = unwrap_or (b_tree_t_int_ns b) (tree_t_int_ns config_default),
     tree_t_bound_ns = unwrap_or (b_tree_t_bound_ns b) (tree_t_bound_ns config_default),
     adapt_enabled = unwrap_or (b_adapt_enabled b) (adapt_enabled config_default) \<rparr>"

definition build :: "config_builder \<Rightarrow> config_error + config" where
  "build b = (let cfg = assemble b in case validate cfg of Inl e \<Rightarrow> Err e | Inr u \<Rightarrow> Ok cfg)"

section \<open>What a valid configuration is\<close>

text \<open>
  The invariants of the BPF side, on the numbers the words stand for: every window is
  non-zero, the two pairs of band edges are strictly ordered below the gauge ceiling, and
  after both quotas are used a dispatch batch still has room for Q3 within the move budget
  of the ops table.
\<close>

definition config_valid :: "config \<Rightarrow> bool" where
  "config_valid c \<longleftrightarrow>
     0 < unat (q1_slice_ns c) \<and> 0 < unat (q2_slice_ns c) \<and> 0 < unat (q3_slice_ns c)
   \<and> 0 < unat (alpha c)
   \<and> 0 < unat (t_l_ns c) \<and> unat (t_l_ns c) < unat (t_h_ns c)
   \<and> unat (t_h_ns c) < unat (budget_max_ns c)
   \<and> 0 < unat (ema_half_life_ns c) \<and> 0 < unat (aging_period_ns c)
   \<and> 0 < unat (short_sleep_ns c) \<and> 0 < unat (short_sleep_rate_limit_ns c)
   \<and> 0 < unat (hysteresis_sleep_ns c) \<and> 0 < unat (long_sleep_ns c)
   \<and> 0 < unat (q1_quota c) \<and> 0 < unat (q2_quota c)
   \<and> unat (q1_quota c) + unat (q2_quota c) < unat (dispatch_max_batch c)
   \<and> unat (dispatch_max_batch c) \<le> unat MLFQ_DISPATCH_MAX_BATCH
   \<and> 0 < unat (rtdl_drain_interval_ns c)
   \<and> 0 < unat (tree_t_int_ns c) \<and> unat (tree_t_int_ns c) < unat (tree_t_bound_ns c)"

text \<open>The 64-bit sum of two 32-bit quotas does not wrap.\<close>

lemma unat_quota_sum:
  fixes a b :: u32
  shows "unat ((ucast a :: u64) + ucast b) = unat a + unat b"
proof -
  have "unat a < 4294967296" and "unat b < 4294967296"
    using unsigned_less [of a, where ?'a = nat] unsigned_less [of b, where ?'a = nat] by simp_all
  then show ?thesis by (simp add: unat_word_ariths)
qed

lemma quota_headroom_iff:
  fixes a b n :: u32
  shows "(ucast n :: u64) \<le> ucast a + ucast b \<longleftrightarrow> unat n \<le> unat a + unat b"
  by (simp add: word_le_nat_alt unat_quota_sum)

lemma word_pos_iff: "w = (0 :: 'a :: len word) \<longleftrightarrow> unat w = 0"
  by (simp add: unat_eq_zero)

text \<open>\<open>validate\<close> succeeds exactly on the valid configurations.\<close>

lemma validate_ok_cases: "validate c = Inr u \<longleftrightarrow> config_valid c"
  unfolding validate_def config_valid_def quota_headroom_iff word_pos_iff word_le_nat_alt
    word_less_nat_alt
  by (simp add: unat_quota_sum not_le not_less conj_ac)

text \<open>
  \<open>validate\<close> accepts a configuration exactly when it satisfies the invariants the BPF
  side relies on; the machine comparisons, the 64-bit sum of the quotas included, agree with
  the arithmetic of the numbers.
\<close>

theorem validate_ok_iff: "validate c = Ok () \<longleftrightarrow> config_valid c"
  by (rule validate_ok_cases)

lemma config_default_valid: "config_valid config_default"
  by (simp add: config_valid_def config_default_def const_defs)

section \<open>What is written is what is read\<close>

text \<open>The constants as the BPF side reads them back, and the globals \<open>apply\<close> must not touch.\<close>

definition config_of_rodata :: "rodata \<Rightarrow> config" where
  "config_of_rodata r = \<lparr>
     q1_slice_ns = mlfq_q1_slice_ns r,
     q2_slice_ns = mlfq_q2_slice_ns r,
     q3_slice_ns = mlfq_q3_slice_ns r,
     budget_max_ns = mlfq_budget_max_ns r,
     alpha = mlfq_alpha r,
     t_l_ns = mlfq_t_l_ns r,
     t_h_ns = mlfq_t_h_ns r,
     ema_half_life_ns = mlfq_ema_half_life_ns r,
     aging_period_ns = mlfq_aging_period_ns r,
     short_sleep_ns = mlfq_short_sleep_ns r,
     short_sleep_rate_limit_ns = mlfq_short_sleep_rate_limit_ns r,
     hysteresis_sleep_ns = mlfq_hysteresis_sleep_ns r,
     long_sleep_ns = mlfq_long_sleep_ns r,
     sameq_preempt_min_run_ns = mlfq_sameq_preempt_min_run_ns r,
     preempt_slice_ns = mlfq_preempt_slice_ns r,
     q1_quota = mlfq_q1_quota r,
     q2_quota = mlfq_q2_quota r,
     dispatch_max_batch = mlfq_dispatch_max_batch r,
     rtdl_drain_interval_ns = mlfq_rtdl_drain_interval_ns r,
     tree_t_int_ns = mlfq_tree_t_int_ns r,
     tree_t_bound_ns = mlfq_tree_t_bound_ns r,
     adapt_enabled = mlfq_adapt_enabled r \<rparr>"

definition rodata_topology :: "rodata \<Rightarrow> bool \<times> u32 \<times> u8 list \<times> u32 list \<times> u32 \<times> bool \<times> u32 list \<times> u32 list \<times> u32" where
  "rodata_topology r = (mlfq_primary_all r, mlfq_nr_llcs r, mlfq_llc_has_primary r,
     mlfq_cpu_llc r, mlfq_idle_tracking r, mlfq_smt_on r, mlfq_cpu_sibling r,
     mlfq_cpu_core r, mlfq_llc_largest r)"

text \<open>
  Applying a configuration to an object with a \<open>.rodata\<close> section succeeds, the BPF side
  then reads back exactly that configuration, and the topology tables are untouched; without
  the section it is an error.
\<close>

theorem apply_config_roundtrip:
  "(\<exists>r'. apply_config c (Some r) = Ok r' \<and> config_of_rodata r' = c
      \<and> rodata_topology r' = rodata_topology r)
   \<and> apply_config c None = Err Rodata_missing"
  by (simp_all add: apply_config_def config_of_rodata_def rodata_topology_def)

section \<open>The builder\<close>

lemma assemble_default: "assemble builder_default = config_default"
  by (simp add: assemble_def builder_default_def)

text \<open>
  \<open>build\<close> returns a configuration exactly when the assembled one satisfies the
  invariants, returns that one, and the empty builder gives the default configuration; an
  error of \<open>build\<close> is the error \<open>validate\<close> reports.
\<close>

theorem build_spec:
  "(build b = Ok c \<longleftrightarrow> c = assemble b \<and> config_valid (assemble b))
   \<and> (build b = Err e \<longleftrightarrow> validate (assemble b) = Err e)
   \<and> build builder_default = Ok config_default"
proof -
  have "build builder_default = Ok config_default"
    using validate_ok_cases [of config_default] config_default_valid
    by (simp add: build_def assemble_default)
  then show ?thesis
    using validate_ok_cases [of "assemble b"] by (auto simp: build_def Let_def split: sum.splits)
qed

end
