(* ===== verification/Decimal.thy ===== *)
theory Decimal
  imports Prelude
begin

text \<open>
  Decimal text, as the standard library of Rust prints and parses it: \<open>{}\<close> of an unsigned and
  of a signed integer, \<open>str::parse\<close> of an unsigned type, \<open>trim\<close> and \<open>strip_suffix\<close>. The texts
  of this program are ASCII (sysfs files, log lines), so a string is a list of bytes. Printing
  then parsing is the identity, which makes the printed text an unambiguous image of a number.
\<close>

section \<open>Printing\<close>

definition digit_char :: "nat \<Rightarrow> char" where
  "digit_char d = char_of (48 + d)"

fun dec :: "nat \<Rightarrow> string" where
  "dec n = (if n < 10 then [digit_char n] else dec (n div 10) @ [digit_char (n mod 10)])"

declare dec.simps [simp del]

definition dec_u64 :: "u64 \<Rightarrow> string" where
  "dec_u64 w = dec (unat w)"

definition dec_i64 :: "u64 \<Rightarrow> string" where
  "dec_i64 w = (if sint w < 0 then CHR ''-'' # dec (nat (- sint w)) else dec (nat (sint w)))"

lemma digit_chars:
  "digit_char 0 = CHR ''0''" "digit_char 1 = CHR ''1''" "digit_char 2 = CHR ''2''" "digit_char 3 = CHR ''3''"
  "digit_char 4 = CHR ''4''" "digit_char 5 = CHR ''5''" "digit_char 6 = CHR ''6''" "digit_char 7 = CHR ''7''"
  "digit_char 8 = CHR ''8''" "digit_char 9 = CHR ''9''"
  by (simp_all add: digit_char_def char_of_def bit_Suc_0_iff)

section \<open>Parsing\<close>

definition is_digit :: "char \<Rightarrow> bool" where
  "is_digit c \<longleftrightarrow> 48 \<le> (of_char c :: nat) \<and> (of_char c :: nat) \<le> 57"

definition digit_val :: "char \<Rightarrow> nat" where
  "digit_val c = of_char c - 48"

text \<open>The digit loop with its two checked operations, for a type with the given maximum.\<close>

fun parse_digits :: "nat \<Rightarrow> nat \<Rightarrow> string \<Rightarrow> nat option" where
  "parse_digits mx acc [] = Some acc"
| "parse_digits mx acc (c # cs) =
     (if is_digit c
      then if mx < acc * 10 + digit_val c then None else parse_digits mx (acc * 10 + digit_val c) cs
      else None)"

text \<open>No digits are an error, and so is a lone sign; a plus sign is accepted.\<close>

fun parse_uint :: "nat \<Rightarrow> string \<Rightarrow> nat option" where
  "parse_uint mx [] = None"
| "parse_uint mx (c # cs) =
     (if c = CHR ''+'' then (if cs = [] then None else parse_digits mx 0 cs)
      else parse_digits mx 0 (c # cs))"

definition parse_u64 :: "string \<Rightarrow> u64 option" where
  "parse_u64 s = map_option of_nat (parse_uint usize_MAX s)"

definition parse_u8 :: "string \<Rightarrow> u8 option" where
  "parse_u8 s = map_option of_nat (parse_uint 255 s)"

section \<open>Trimming\<close>

definition is_space :: "char \<Rightarrow> bool" where
  "is_space c \<longleftrightarrow> (of_char c :: nat) \<in> {9, 10, 11, 12, 13, 32}"

definition trim :: "string \<Rightarrow> string" where
  "trim s = rev (dropWhile is_space (rev (dropWhile is_space s)))"

definition strip_suffix :: "string \<Rightarrow> char \<Rightarrow> string option" where
  "strip_suffix s c = (if s \<noteq> [] \<and> last s = c then Some (butlast s) else None)"

section \<open>Parsing reads what printing wrote\<close>

lemma digit_char_props:
  assumes "d < 10"
  shows "is_digit (digit_char d)" and "digit_val (digit_char d) = d"
    and "\<not> is_space (digit_char d)" and "digit_char d \<noteq> CHR ''+''"
proof -
  have o: "(of_char (digit_char d) :: nat) = 48 + d"
    using assms by (simp add: digit_char_def of_char_of)
  show "is_digit (digit_char d)" "digit_val (digit_char d) = d" "\<not> is_space (digit_char d)"
    using assms by (simp_all add: is_digit_def digit_val_def is_space_def o)
  show "digit_char d \<noteq> CHR ''+''"
  proof
    assume e: "digit_char d = CHR ''+''"
    show False using o unfolding e by simp
  qed
qed

lemma parse_digits_append:
  "parse_digits mx acc (xs @ ys) =
     (case parse_digits mx acc xs of None \<Rightarrow> None | Some v \<Rightarrow> parse_digits mx v ys)"
  by (induction xs arbitrary: acc) auto

lemma parse_digits_dec: "n \<le> mx \<Longrightarrow> parse_digits mx 0 (dec n) = Some n"
proof (induction n rule: dec.induct)
  case (1 n)
  show ?case
  proof (cases "n < 10")
    case True
    then show ?thesis using 1 by (simp add: dec.simps [of n] digit_char_props)
  next
    case False
    have "parse_digits mx 0 (dec (n div 10)) = Some (n div 10)"
      using 1 False by (metis div_le_dividend le_trans)
    then show ?thesis
      using 1 False by (simp add: dec.simps [of n] parse_digits_append digit_char_props)
  qed
qed

lemma dec_chars: "list_all is_digit (dec n) \<and> dec n \<noteq> [] \<and> hd (dec n) \<noteq> CHR ''+''"
proof (induction n rule: dec.induct)
  case (1 n)
  then show ?case
    by (cases "n < 10") (simp_all add: dec.simps [of n] digit_char_props)
qed

lemma parse_uint_dec: "n \<le> mx \<Longrightarrow> parse_uint mx (dec n) = Some n"
  using parse_digits_dec [of n mx] dec_chars [of n] by (cases "dec n") auto

lemma parse_u64_dec: "parse_u64 (dec (unat w)) = Some (w :: u64)"
proof -
  have "unat w \<le> usize_MAX" using unsigned_less [of w, where ?'a = nat] by simp
  then show ?thesis by (simp add: parse_u64_def parse_uint_dec)
qed

lemma dec_inj:
  assumes "dec m = dec n"
  shows "m = n"
proof -
  have "parse_uint (max m n) (dec m) = Some m" "parse_uint (max m n) (dec n) = Some n"
    by (rule parse_uint_dec, rule max.cobounded1, rule parse_uint_dec, rule max.cobounded2)
  then show ?thesis unfolding assms by (metis option.inject)
qed

lemma digit_not_space: "is_digit c \<Longrightarrow> \<not> is_space c"
proof -
  have "48 \<le> n \<Longrightarrow> n \<notin> {9, 10, 11, 12, 13, 32}" for n :: nat by auto
  then show "is_digit c \<Longrightarrow> \<not> is_space c" unfolding is_digit_def is_space_def by blast
qed

lemma trim_digits: "list_all is_digit s \<Longrightarrow> trim s = s"
proof -
  assume a: "list_all is_digit s"
  have k: "list_all is_digit t \<Longrightarrow> dropWhile is_space t = t" for t
    by (cases t) (auto simp: digit_not_space)
  have "list_all is_digit (rev s)" using a by (simp add: list_all_iff)
  with a show ?thesis by (simp add: trim_def k)
qed

section \<open>A printed number ends where the digits end\<close>

lemma takeWhile_dec: "\<not> is_digit c \<Longrightarrow> takeWhile is_digit (dec n @ c # r) = dec n"
  using dec_chars [of n] by (simp add: takeWhile_append2 list_all_iff)

lemma dec_prefix_inj:
  assumes "dec m @ c # r = dec n @ c # r'" and "\<not> is_digit c"
  shows "m = n \<and> r = r'"
proof -
  have "dec m = dec n"
    using arg_cong [OF assms(1), of "takeWhile is_digit"] assms(2) by (simp add: takeWhile_dec)
  then show ?thesis using assms(1) dec_inj by auto
qed

lemma dec_u64_inj: "dec_u64 v = dec_u64 w \<longleftrightarrow> v = w"
  by (metis dec_u64_def dec_inj word_unat_eq_iff)

section \<open>Words\<close>

function split_whitespace :: "string \<Rightarrow> string list" where
  "split_whitespace s =
     (case dropWhile is_space s of
        [] \<Rightarrow> []
      | c # cs \<Rightarrow> takeWhile (\<lambda>x. \<not> is_space x) (c # cs)
                # split_whitespace (dropWhile (\<lambda>x. \<not> is_space x) (c # cs)))"
  by pat_completeness auto

lemma split_shorter:
  assumes "dropWhile is_space s = c # cs"
  shows "length (dropWhile (\<lambda>x. \<not> is_space x) (c # cs)) < length s"
proof -
  have "\<not> is_space c" using hd_dropWhile [of is_space s] assms by simp
  then have "length (dropWhile (\<lambda>x. \<not> is_space x) (c # cs)) \<le> length cs"
    by (simp add: length_dropWhile_le)
  moreover have "length (c # cs) \<le> length s"
    unfolding assms [symmetric] by (rule length_dropWhile_le)
  ultimately show ?thesis by simp
qed

termination split_whitespace
  by (relation "measure length") (auto dest: split_shorter)

declare split_whitespace.simps [simp del]

end
