(* ===== verification/Stats.thy ===== *)
theory Stats
  imports Decimal "HOL-Library.Signed_Division"
begin

text \<open>
  \<open>src/scx/src/stats.rs\<close>: the metrics of the stats server, the deltas its \<open>top\<close> operation
  reports, and the lines the monitor prints. \<open>metrics\<close> is \<open>struct Metrics\<close>; the \<open>i64\<close> fields are
  words read as signed. \<open>counters\<close> and \<open>gauges\<close> split the fields the way the documentation of
  \<open>delta\<close> does, and a session of the server is the list of its answers.
\<close>

section \<open>Metrics\<close>

record metrics =
  on_cpu :: u64
  total_runtime :: u64
  uptime_ns :: u64
  q1_placements :: u64
  q2_placements :: u64
  q3_placements :: u64
  promotions :: u64
  demotions :: u64
  aging_boosts :: u64
  short_sleep_boosts :: u64
  preemption_kicks :: u64
  cpuperf_boosts :: u64
  steals :: u64
  steals_same_llc :: u64
  steals_cross_llc :: u64
  keep_running :: u64
  enq_no_tctx :: u64
  enq_bad_weight :: u64
  enq_no_deadline :: u64
  enq_fastpath :: u64
  enq_regular :: u64
  enq_pinned_idle :: u64
  enq_pinned_busy :: u64
  enq_pinned_global :: u64
  tree_inference :: u64
  tree_fallback :: u64
  tree_disagree :: u64
  tree_samples_emitted :: u64
  tree_samples_dropped :: u64
  rt_takeovers :: u64
  rt_evacuations :: u64
  rt_redirects :: u64
  rt_reenqs :: u64
  op_lat :: "u64 list"
  tree_samples_cap_dropped_m :: u64
  tree_model_generation :: u64
  tree_model_samples :: u64
  tree_model_nodes :: u64
  tree_mae_tree_us :: u64
  tree_mae_ema_us :: u64
  tree_corr_milli :: u64
  sys_lat_ema_us :: u64
  sys_rate_ema :: u64
  t_l_eff_us :: u64
  t_h_eff_us :: u64
  t_int_eff_us :: u64
  t_bnd_eff_us :: u64
  guard_eff_us :: u64
  adapt_shift :: u64
  wakeup_total :: u64
  adapt_steps :: u64

definition metrics_default :: metrics where
  "metrics_default = \<lparr>
     on_cpu = 0,
     total_runtime = 0,
     uptime_ns = 0,
     q1_placements = 0,
     q2_placements = 0,
     q3_placements = 0,
     promotions = 0,
     demotions = 0,
     aging_boosts = 0,
     short_sleep_boosts = 0,
     preemption_kicks = 0,
     cpuperf_boosts = 0,
     steals = 0,
     steals_same_llc = 0,
     steals_cross_llc = 0,
     keep_running = 0,
     enq_no_tctx = 0,
     enq_bad_weight = 0,
     enq_no_deadline = 0,
     enq_fastpath = 0,
     enq_regular = 0,
     enq_pinned_idle = 0,
     enq_pinned_busy = 0,
     enq_pinned_global = 0,
     tree_inference = 0,
     tree_fallback = 0,
     tree_disagree = 0,
     tree_samples_emitted = 0,
     tree_samples_dropped = 0,
     rt_takeovers = 0,
     rt_evacuations = 0,
     rt_redirects = 0,
     rt_reenqs = 0,
     op_lat = [],
     tree_samples_cap_dropped_m = 0,
     tree_model_generation = 0,
     tree_model_samples = 0,
     tree_model_nodes = 0,
     tree_mae_tree_us = 0,
     tree_mae_ema_us = 0,
     tree_corr_milli = 0,
     sys_lat_ema_us = 0,
     sys_rate_ema = 0,
     t_l_eff_us = 0,
     t_h_eff_us = 0,
     t_int_eff_us = 0,
     t_bnd_eff_us = 0,
     guard_eff_us = 0,
     adapt_shift = 0,
     wakeup_total = 0,
     adapt_steps = 0 \<rparr>"

record per_cpu_metrics =
  pc_id :: u32
  freq_khz :: u64
  cur_freq_khz :: u64
  pc_llc_id :: u32
  smt :: bool
  pc_running_queue :: i32
  pc_running_pid :: u32
  rt_occupied :: bool
  pc_running_gpu_submit :: u32

definition per_cpu_default :: per_cpu_metrics where
  "per_cpu_default = \<lparr>pc_id = 0, freq_khz = 0, cur_freq_khz = 0, pc_llc_id = 0, smt = False,
     pc_running_queue = 0, pc_running_pid = 0, rt_occupied = False, pc_running_gpu_submit = 0\<rparr>"

record web_metrics =
  wm_stats :: metrics
  wm_per_cpu :: "per_cpu_metrics list"
  wm_queue_runnable :: "u64 list"
  wm_llc_runnable :: "u64 list"
  wm_gpu_submit_total :: u64
  wm_gpu_trace_mask :: u32

section \<open>Deltas\<close>

definition delta :: "metrics \<Rightarrow> metrics \<Rightarrow> metrics" where
  "delta m rhs = \<lparr>
     on_cpu = on_cpu m,
     total_runtime = total_runtime m - total_runtime rhs,
     uptime_ns = uptime_ns m,
     q1_placements = q1_placements m - q1_placements rhs,
     q2_placements = q2_placements m - q2_placements rhs,
     q3_placements = q3_placements m - q3_placements rhs,
     promotions = promotions m - promotions rhs,
     demotions = demotions m - demotions rhs,
     aging_boosts = aging_boosts m - aging_boosts rhs,
     short_sleep_boosts = short_sleep_boosts m - short_sleep_boosts rhs,
     preemption_kicks = preemption_kicks m - preemption_kicks rhs,
     cpuperf_boosts = cpuperf_boosts m - cpuperf_boosts rhs,
     steals = steals m - steals rhs,
     steals_same_llc = steals_same_llc m - steals_same_llc rhs,
     steals_cross_llc = steals_cross_llc m - steals_cross_llc rhs,
     keep_running = keep_running m - keep_running rhs,
     enq_no_tctx = enq_no_tctx m - enq_no_tctx rhs,
     enq_bad_weight = enq_bad_weight m - enq_bad_weight rhs,
     enq_no_deadline = enq_no_deadline m - enq_no_deadline rhs,
     enq_fastpath = enq_fastpath m - enq_fastpath rhs,
     enq_regular = enq_regular m - enq_regular rhs,
     enq_pinned_idle = enq_pinned_idle m - enq_pinned_idle rhs,
     enq_pinned_busy = enq_pinned_busy m - enq_pinned_busy rhs,
     enq_pinned_global = enq_pinned_global m - enq_pinned_global rhs,
     tree_inference = tree_inference m - tree_inference rhs,
     tree_fallback = tree_fallback m - tree_fallback rhs,
     tree_disagree = tree_disagree m - tree_disagree rhs,
     tree_samples_emitted = tree_samples_emitted m - tree_samples_emitted rhs,
     tree_samples_dropped = tree_samples_dropped m - tree_samples_dropped rhs,
     rt_takeovers = rt_takeovers m - rt_takeovers rhs,
     rt_evacuations = rt_evacuations m - rt_evacuations rhs,
     rt_redirects = rt_redirects m - rt_redirects rhs,
     rt_reenqs = rt_reenqs m - rt_reenqs rhs,
     op_lat = map2 (-) (op_lat m) (op_lat rhs),
     tree_samples_cap_dropped_m = tree_samples_cap_dropped_m m - tree_samples_cap_dropped_m rhs,
     tree_model_generation = tree_model_generation m,
     tree_model_samples = tree_model_samples m,
     tree_model_nodes = tree_model_nodes m,
     tree_mae_tree_us = tree_mae_tree_us m,
     tree_mae_ema_us = tree_mae_ema_us m,
     tree_corr_milli = tree_corr_milli m,
     sys_lat_ema_us = sys_lat_ema_us m,
     sys_rate_ema = sys_rate_ema m,
     t_l_eff_us = t_l_eff_us m,
     t_h_eff_us = t_h_eff_us m,
     t_int_eff_us = t_int_eff_us m,
     t_bnd_eff_us = t_bnd_eff_us m,
     guard_eff_us = guard_eff_us m,
     adapt_shift = adapt_shift m,
     wakeup_total = wakeup_total m - wakeup_total rhs,
     adapt_steps = adapt_steps m - adapt_steps rhs \<rparr>"

text \<open>The reader closure of one session: it answers with a delta and keeps the snapshot.\<close>

definition read_top :: "metrics \<Rightarrow> metrics \<Rightarrow> metrics \<times> metrics" where
  "read_top cur prev = (delta cur prev, cur)"

fun session :: "metrics \<Rightarrow> metrics list \<Rightarrow> metrics list" where
  "session prev [] = []"
| "session prev (cur # rest) = (let (answer, prev) = read_top cur prev in answer # session prev rest)"

section \<open>The monitor line\<close>

definition OP_LAT_EDGES_US :: "u64 list" where
  "OP_LAT_EDGES_US = [2, 5, 10, 20, 50, 100, 250]"

fun join :: "string \<Rightarrow> string list \<Rightarrow> string" where
  "join sep [] = []"
| "join sep [x] = x"
| "join sep (x # y # xs) = x @ sep @ join sep (y # xs)"

definition fmt_op_lat :: "u64 list \<Rightarrow> string" where
  "fmt_op_lat ops =
     (if length ops < 8 then ''n/a''
      else join '' '' (
        [''0-'' @ dec_u64 (OP_LAT_EDGES_US ! 0) @ ''='' @ dec_u64 (ops ! 0)]
        @ map (\<lambda>i. dec_u64 (OP_LAT_EDGES_US ! (i - 1)) @ ''-'' @ dec_u64 (OP_LAT_EDGES_US ! i)
                   @ ''='' @ dec_u64 (ops ! i)) [1..<7]
        @ [dec_u64 (OP_LAT_EDGES_US ! 6) @ ''+='' @ dec_u64 (ops ! 7)]))"

text \<open>\<open>xs.get(a..b).unwrap_or(&[])\<close>.\<close>

definition get_range :: "nat \<Rightarrow> nat \<Rightarrow> 'a list \<Rightarrow> 'a list" where
  "get_range a b xs = (if a \<le> b \<and> b \<le> length xs then take (b - a) (drop a xs) else [])"

definition shift_percent :: "u64 \<Rightarrow> u64" where
  "shift_percent s = word_of_int (sint (s * 100) sdiv 256)"

definition format_metrics :: "string \<Rightarrow> metrics \<Rightarrow> string list" where
  "format_metrics name m =
    [ ''['' @ name @ ''] run='' @ dec_u64 (on_cpu m) @ '' runtime_ns='' @ dec_u64 (total_runtime m)
      @ '' uptime_ns='' @ dec_u64 (uptime_ns m)
      @ '' placements: Q1='' @ dec_u64 (q1_placements m) @ '' Q2='' @ dec_u64 (q2_placements m)
      @ '' Q3='' @ dec_u64 (q3_placements m)
      @ '' promotions='' @ dec_u64 (promotions m) @ '' demotions='' @ dec_u64 (demotions m)
      @ '' aging_boosts='' @ dec_u64 (aging_boosts m)
      @ '' short_sleep_boosts='' @ dec_u64 (short_sleep_boosts m)
      @ '' preemption_kicks='' @ dec_u64 (preemption_kicks m)
      @ '' cpuperf_boosts='' @ dec_u64 (cpuperf_boosts m),
      ''['' @ name @ ''] tree: gen='' @ dec_u64 (tree_model_generation m)
      @ '' nodes='' @ dec_u64 (tree_model_nodes m) @ '' samples='' @ dec_u64 (tree_model_samples m)
      @ '' mae_tree='' @ dec_u64 (tree_mae_tree_us m) @ ''us mae_ema='' @ dec_u64 (tree_mae_ema_us m)
      @ ''us inf='' @ dec_u64 (tree_inference m) @ '' fallback='' @ dec_u64 (tree_fallback m)
      @ '' disagree='' @ dec_u64 (tree_disagree m) @ '' emitted='' @ dec_u64 (tree_samples_emitted m)
      @ '' dropped='' @ dec_u64 (tree_samples_dropped m)
      @ '' cap_dropped='' @ dec_u64 (tree_samples_cap_dropped_m m),
      ''['' @ name @ ''] op_lat_us: stopping['' @ fmt_op_lat (get_range 0 8 (op_lat m))
      @ ''] dispatch['' @ fmt_op_lat (get_range 8 16 (op_lat m)) @ '']'',
      ''['' @ name @ ''] op_lat_us: enqueue['' @ fmt_op_lat (get_range 16 24 (op_lat m))
      @ ''] cpu_release['' @ fmt_op_lat (get_range 24 32 (op_lat m)) @ '']'',
      ''['' @ name @ ''] adapt: lat_ema='' @ dec_u64 (sys_lat_ema_us m)
      @ ''us rate_ema='' @ dec_u64 (drop_bit 8 (sys_rate_ema m))
      @ ''w/s shift='' @ dec_i64 (shift_percent (adapt_shift m))
      @ ''% T_L_eff='' @ dec_u64 (t_l_eff_us m) @ ''us T_H_eff='' @ dec_u64 (t_h_eff_us m)
      @ ''us T_INT_eff='' @ dec_u64 (t_int_eff_us m) @ ''us T_BND_eff='' @ dec_u64 (t_bnd_eff_us m)
      @ ''us guard_eff='' @ dec_u64 (guard_eff_us m) @ ''us wakeups='' @ dec_u64 (wakeup_total m)
      @ '' steps='' @ dec_u64 (adapt_steps m) ]"

section \<open>Counters and gauges\<close>

definition counters :: "metrics \<Rightarrow> u64 list" where
  "counters m = [
     total_runtime m, q1_placements m, q2_placements m, q3_placements m,
     promotions m, demotions m, aging_boosts m, short_sleep_boosts m,
     preemption_kicks m, cpuperf_boosts m, steals m, steals_same_llc m,
     steals_cross_llc m, keep_running m, enq_no_tctx m, enq_bad_weight m,
     enq_no_deadline m, enq_fastpath m, enq_regular m, enq_pinned_idle m,
     enq_pinned_busy m, enq_pinned_global m, tree_inference m, tree_fallback m,
     tree_disagree m, tree_samples_emitted m, tree_samples_dropped m, rt_takeovers m,
     rt_evacuations m, rt_redirects m, rt_reenqs m, tree_samples_cap_dropped_m m,
     wakeup_total m, adapt_steps m]"

definition gauges :: "metrics \<Rightarrow> u64 list" where
  "gauges m = [
     on_cpu m, uptime_ns m, tree_model_generation m, tree_model_samples m,
     tree_model_nodes m, tree_mae_tree_us m, tree_mae_ema_us m, tree_corr_milli m,
     sys_lat_ema_us m, sys_rate_ema m, t_l_eff_us m, t_h_eff_us m,
     t_int_eff_us m, t_bnd_eff_us m, guard_eff_us m, adapt_shift m]"

lemma length_counters [simp]: "length (counters m) = 34"
  by (simp add: counters_def)

lemma counters_delta: "counters (delta m r) = map2 (-) (counters m) (counters r)"
  by (simp add: counters_def delta_def)

lemma gauges_delta: "gauges (delta m r) = gauges m"
  by (simp add: gauges_def delta_def)

lemma op_lat_delta: "op_lat (delta m r) = map2 (-) (op_lat m) (op_lat r)"
  by (simp add: delta_def)

lemma add_delta: "length xs = length ys \<Longrightarrow> map2 (+) (map2 (-) xs ys) ys = (xs :: u64 list)"
  by (induction xs ys rule: list_induct2) simp_all

text \<open>Adding up the answers of a session, counter by counter.\<close>

definition total :: "(metrics \<Rightarrow> u64 list) \<Rightarrow> metrics list \<Rightarrow> u64 list \<Rightarrow> u64 list" where
  "total f ms start = foldl (\<lambda>acc m. map2 (+) (f m) acc) start ms"

lemma session_total:
  assumes d: "\<And>m r. f (delta m r) = map2 (-) (f m) (f r)"
    and "list_all (\<lambda>m. length (f m) = n) (prev # curs)"
  shows "total f (session prev curs) (f prev) = f (last (prev # curs))"
  using assms(2)
  by (induction curs arbitrary: prev) (simp_all add: total_def read_top_def d add_delta)

lemma session_gauges: "map gauges (session prev curs) = map gauges curs"
  by (induction curs arbitrary: prev) (simp_all add: read_top_def gauges_delta)

text \<open>
  The answers of a session lose nothing and count nothing twice: added up from the first
  snapshot, with the wrap-around of the words, every counter and every histogram bucket comes
  to its value in the last snapshot, and every gauge is reported as it is.
\<close>

theorem session_telescopes:
  assumes "list_all (\<lambda>m. length (op_lat m) = 32) (prev # curs)"
  shows "total counters (session prev curs) (counters prev) = counters (last (prev # curs))
    \<and> total op_lat (session prev curs) (op_lat prev) = op_lat (last (prev # curs))
    \<and> map gauges (session prev curs) = map gauges curs"
  using session_total [OF counters_delta, of 34 prev curs] session_total [OF op_lat_delta assms]
    session_gauges [of prev curs]
  by (simp add: list_all_iff)

definition wrapped_pair :: "metrics \<times> metrics" where
  "wrapped_pair =
     (metrics_default\<lparr>op_lat := replicate 32 0, steals := - 1, on_cpu := 7\<rparr>,
      metrics_default\<lparr>op_lat := replicate 32 3, steals := 4, on_cpu := 2\<rparr>)"

theorem session_telescopes_witness:
  "steals (snd (read_top (snd wrapped_pair) (fst wrapped_pair))) = 4
   \<and> map steals (session (fst wrapped_pair) [snd wrapped_pair]) = [5]
   \<and> total counters (session (fst wrapped_pair) [snd wrapped_pair]) (counters (fst wrapped_pair))
       = counters (snd wrapped_pair)"
  using session_telescopes [of "fst wrapped_pair" "[snd wrapped_pair]"]
  by (simp add: wrapped_pair_def read_top_def delta_def)

section \<open>The printed histogram\<close>

lemma not_digit_space: "\<not> is_digit CHR '' ''"
  by (simp add: is_digit_def)

lemma dec_u64_prefix_inj:
  "dec_u64 v @ CHR '' '' # r = dec_u64 w @ CHR '' '' # r' \<longleftrightarrow> v = w \<and> r = r'"
proof
  assume "dec_u64 v @ CHR '' '' # r = dec_u64 w @ CHR '' '' # r'"
  then have "unat v = unat w \<and> r = r'"
    unfolding dec_u64_def by (rule dec_prefix_inj) (rule not_digit_space)
  then show "v = w \<and> r = r'" by (simp add: word_unat_eq_iff)
qed simp

text \<open>
  The printed histogram of one operation determines its eight bucket counts.
\<close>

theorem fmt_op_lat_inj:
  assumes "length xs = 8" and "length ys = 8" and "fmt_op_lat xs = fmt_op_lat ys"
  shows "xs = ys"
proof -
  have "xs ! 0 = ys ! 0 \<and> xs ! Suc 0 = ys ! Suc 0 \<and> xs ! Suc (Suc 0) = ys ! Suc (Suc 0)
    \<and> xs ! Suc (Suc (Suc 0)) = ys ! Suc (Suc (Suc 0))
    \<and> xs ! Suc (Suc (Suc (Suc 0))) = ys ! Suc (Suc (Suc (Suc 0)))
    \<and> xs ! Suc (Suc (Suc (Suc (Suc 0)))) = ys ! Suc (Suc (Suc (Suc (Suc 0))))
    \<and> xs ! Suc (Suc (Suc (Suc (Suc (Suc 0))))) = ys ! Suc (Suc (Suc (Suc (Suc (Suc 0)))))
    \<and> xs ! 7 = ys ! 7"
    using assms(3) unfolding fmt_op_lat_def assms(1,2)
    by (simp add: upt_rec dec_u64_prefix_inj dec_u64_inj)
  then have "xs ! i = ys ! i" if "i < 8" for i
    using that by (auto simp: less_Suc_eq numeral_eq_Suc)
  then show ?thesis using assms(1,2) by (intro nth_equalityI) simp_all
qed

theorem fmt_op_lat_inj_witness:
  "fmt_op_lat [1, 2, 3, 4, 5, 6, 7, 12]
     = ''0-2=1 2-5=2 5-10=3 10-20=4 20-50=5 50-100=6 100-250=7 250+=12''
   \<and> fmt_op_lat [1, 2, 3, 4, 5, 6, 7, 8] \<noteq> fmt_op_lat [1, 2, 3, 4, 5, 6, 7, 9]"
proof
  show "fmt_op_lat [1, 2, 3, 4, 5, 6, 7, 12]
     = ''0-2=1 2-5=2 5-10=3 10-20=4 20-50=5 50-100=6 100-250=7 250+=12''"
    by (simp add: fmt_op_lat_def OP_LAT_EDGES_US_def upt_rec dec_u64_def dec.simps digit_chars digit_chars(2) [simplified])
  show "fmt_op_lat [1, 2, 3, 4, 5, 6, 7, 8] \<noteq> fmt_op_lat [1, 2, 3, 4, 5, 6, 7, 9]"
    using fmt_op_lat_inj [of "[1, 2, 3, 4, 5, 6, 7, 8]" "[1, 2, 3, 4, 5, 6, 7, 9]"] by auto
qed

end
