(* ===== verification/TreeMetrics.thy ===== *)
theory TreeMetrics
  imports F64
begin

text \<open>
  The holdout metrics and the publish gate of \<open>src/scx/src/mlfq_tree.rs\<close>: \<open>should_publish\<close>,
  \<open>weighted_holdout_mae\<close>, \<open>mae\<close> and \<open>pearson\<close>. A failed \<open>assert_eq!\<close> is the value \<open>None\<close>.
\<close>

section \<open>The gate\<close>

text \<open>\<open>0.30\<close> and \<open>1e-9\<close> as the compiler rounds them.\<close>

definition CORR_FLOOR :: f64 where
  "CORR_FLOOR = F_Num False 5404319552844595 (- 54)"

definition CORR_STEP :: f64 where
  "CORR_STEP = F_Num False 4835703278458517 (- 82)"

definition should_publish :: "f64 \<Rightarrow> f64 \<Rightarrow> f64 \<Rightarrow> f64 option \<Rightarrow> bool" where
  "should_publish mae_tree mae_ema corr published_corr =
     (if f_lt mae_ema mae_tree then False
      else if f_lt corr CORR_FLOOR then False
      else case published_corr of
             Some pc \<Rightarrow> if f_le corr (f_add pc CORR_STEP) then False else True
           | None \<Rightarrow> True)"

section \<open>The metrics\<close>

definition abs_diff :: "u64 \<Rightarrow> u64 \<Rightarrow> u64" where
  "abs_diff p a = (if a \<le> p then p - a else a - p)"

fun wmae_sums :: "(u64 \<times> u64) list \<Rightarrow> f64 list \<Rightarrow> f64 \<Rightarrow> f64 \<Rightarrow> f64 \<times> f64" where
  "wmae_sums ((p, a) # pas) (w # ws) sw sw_err =
     (let err = f_of_u64 (abs_diff p a)
      in wmae_sums pas ws (f_add sw w) (f_add sw_err (f_mul w err)))"
| "wmae_sums pas ws sw sw_err = (sw, sw_err)"

definition weighted_holdout_mae :: "u64 list \<Rightarrow> u64 list \<Rightarrow> f64 list \<Rightarrow> f64 option" where
  "weighted_holdout_mae preds actuals weights =
     (if length preds \<noteq> length actuals \<or> length preds \<noteq> length weights then None
      else if preds = [] then Some f_zero
      else let (sw, sw_err) = wmae_sums (zip preds actuals) weights f_zero f_zero
           in if f_eq sw f_zero then Some f_zero else Some (f_div sw_err sw))"

text \<open>The \<open>u128\<close> sum cannot wrap: fewer than \<open>2 ^ 64\<close> terms below \<open>2 ^ 64\<close>.\<close>

definition mae :: "u64 list \<Rightarrow> u64 list \<Rightarrow> f64 option" where
  "mae preds actuals =
     (if length preds \<noteq> length actuals then None
      else if preds = [] then Some f_zero
      else let total = sum_list (map (\<lambda>(p, a). unat (abs_diff p a)) (zip preds actuals))
           in Some (f_div (f_of_nat total) (f_of_nat (length preds))))"

definition f_sum :: "f64 list \<Rightarrow> f64" where
  "f_sum xs = foldl f_add f_zero xs"

fun pearson_sums :: "f64 \<Rightarrow> f64 \<Rightarrow> (u64 \<times> u64) list \<Rightarrow> f64 \<times> f64 \<times> f64 \<Rightarrow> f64 \<times> f64 \<times> f64" where
  "pearson_sums mean_x mean_y [] acc = acc"
| "pearson_sums mean_x mean_y ((xi, yi) # xys) (cov, var_x, var_y) =
     (let dx = f_sub (f_of_u64 xi) mean_x;
          dy = f_sub (f_of_u64 yi) mean_y
      in pearson_sums mean_x mean_y xys
           (f_add cov (f_mul dx dy), f_add var_x (f_mul dx dx), f_add var_y (f_mul dy dy)))"

definition pearson :: "u64 list \<Rightarrow> u64 list \<Rightarrow> f64 option" where
  "pearson x y =
     (if length x \<noteq> length y then None
      else let n = length x
           in if n = 0 then Some f_zero
              else let mean_x = f_div (f_sum (map f_of_u64 x)) (f_of_nat n);
                       mean_y = f_div (f_sum (map f_of_u64 y)) (f_of_nat n);
                       (cov, var_x, var_y) = pearson_sums mean_x mean_y (zip x y) (f_zero, f_zero, f_zero)
                   in if f_eq var_x f_zero \<or> f_eq var_y f_zero then Some f_zero
                      else Some (f_div cov (f_sqrt (f_mul var_x var_y))))"

section \<open>What the gate lets through\<close>

lemma gate_comparable:
  assumes "\<not> is_nan mae_tree" and "\<not> is_nan mae_ema" and "\<not> is_nan corr"
    and "\<forall>pc. published = Some pc \<longrightarrow> \<not> is_nan (f_add pc CORR_STEP)"
  shows "should_publish mae_tree mae_ema corr published \<longleftrightarrow>
    f_le mae_tree mae_ema \<and> f_le CORR_FLOOR corr
    \<and> (case published of None \<Rightarrow> True | Some pc \<Rightarrow> f_lt (f_add pc CORR_STEP) corr)"
proof -
  have fl: "\<not> is_nan CORR_FLOOR" by (simp add: CORR_FLOOR_def)
  have "f_lt y x \<longleftrightarrow> \<not> f_le x y" if "\<not> is_nan x" "\<not> is_nan y" for x y
    using that by (simp add: f_le_iff)
  then show ?thesis
    using assms fl by (cases published) (simp_all add: should_publish_def)
qed

text \<open>
  For comparable metrics the gate opens exactly when the tree's error does not exceed the
  baseline's, the correlation reaches 0.30, and, when a model is committed, it exceeds the
  committed correlation by more than \<open>1e-9\<close>.
\<close>

theorem should_publish_iff:
  assumes "\<not> is_nan mae_tree" and "\<not> is_nan mae_ema" and "\<not> is_nan corr"
    and "published = None \<or> published = Some pc \<and> \<not> is_nan (f_add pc CORR_STEP)"
  shows "should_publish mae_tree mae_ema corr published \<longleftrightarrow>
    f_le mae_tree mae_ema \<and> f_le CORR_FLOOR corr
    \<and> (published = None \<or> f_lt (f_add pc CORR_STEP) corr)"
  using gate_comparable [of mae_tree mae_ema corr published] assms by auto

definition f_one :: f64 where
  "f_one = F_Num False 4503599627370496 (- 52)"

lemma floor_plus_step: "f_add CORR_FLOOR CORR_STEP = F_Num False 5404319570858994 (- 54)"
  by (simp add: CORR_FLOOR_def CORR_STEP_def f64_eval)

theorem should_publish_iff_witness: "should_publish f_zero f_zero f_one (Some CORR_FLOOR)"
proof -
  have "f_le f_zero f_zero" "f_le CORR_FLOOR f_one" "f_lt (f_add CORR_FLOOR CORR_STEP) f_one"
    unfolding floor_plus_step
    by (simp_all add: CORR_FLOOR_def f_one_def f_zero_def f_lt_def f_le_def f_eq_def key_lt_def)
  moreover have "\<not> is_nan f_zero" "\<not> is_nan f_one" "\<not> is_nan (f_add CORR_FLOOR CORR_STEP)"
    unfolding floor_plus_step by (simp_all add: f_zero_def f_one_def)
  ultimately show ?thesis
    using should_publish_iff [of f_zero f_zero f_one "Some CORR_FLOOR" CORR_FLOOR] by simp
qed

text \<open>
  A NaN correlation passes the floor and the ratchet whenever the errors do, and once
  committed it lets every correlation at or above the floor replace it.
\<close>

theorem nan_correlation_passes:
  "should_publish mae_tree mae_ema F_NaN published = (\<not> f_lt mae_ema mae_tree)
   \<and> should_publish mae_tree mae_ema corr (Some F_NaN) = should_publish mae_tree mae_ema corr None"
  by (cases published) (simp_all add: should_publish_def)

end
