(* ===== verification/Window.thy ===== *)
theory Window
  imports Tree
begin

text \<open>
  The training window of the daemon (\<open>src/scx/src/main.rs\<close>): a sliding window of samples with
  a per-pid share cap. \<open>tree_admit_pid\<close> and \<open>tree_evict_pid\<close> keep the counts in a hash map,
  which is a partial map here. The locale \<open>pid_accounting\<close> states what the window relies on
  from them, and proves inside it that a window driven through it stays within its bounds
  with exact counts; the model's two functions interpret it.
\<close>

section \<open>Constants\<close>

definition MLFQ_TREE_WINDOW_MAX :: nat where
  "MLFQ_TREE_WINDOW_MAX = 16384"

definition MLFQ_TREE_PER_PID_CAP :: u32 where
  "MLFQ_TREE_PER_PID_CAP = of_nat (MLFQ_TREE_WINDOW_MAX div 20)"

definition MLFQ_TREE_MIN_PIDS :: nat where
  "MLFQ_TREE_MIN_PIDS = 8"

definition MLFQ_TREE_MIN_LEAF :: nat where
  "MLFQ_TREE_MIN_LEAF = 32"

lemma unat_cap: "unat MLFQ_TREE_PER_PID_CAP = 819"
  by (simp add: MLFQ_TREE_PER_PID_CAP_def MLFQ_TREE_WINDOW_MAX_def)

section \<open>Per-pid accounting\<close>

type_synonym pid_counts = "u32 \<Rightarrow> u32 option"

text \<open>\<open>entry(pid).or_insert(0)\<close>, then the cap test and the increment.\<close>

definition tree_admit_pid :: "pid_counts \<Rightarrow> u32 \<Rightarrow> bool \<times> pid_counts" where
  "tree_admit_pid counts p =
     (let c = (case counts p of Some c \<Rightarrow> c | None \<Rightarrow> 0);
          counts' = counts(p := Some c)
      in if MLFQ_TREE_PER_PID_CAP \<le> c then (False, counts')
         else (True, counts'(p := Some (c + 1))))"

definition tree_evict_pid :: "pid_counts \<Rightarrow> u32 \<Rightarrow> pid_counts" where
  "tree_evict_pid counts p =
     (case counts p of
        Some c \<Rightarrow> let c' = c - 1 in if c' = 0 then counts(p := None) else counts(p := Some c')
      | None \<Rightarrow> counts)"

text \<open>The number of different pids: the size of the set the loop fills.\<close>

definition tree_distinct_pids :: "tree_sample list \<Rightarrow> nat" where
  "tree_distinct_pids samples = card (foldl (\<lambda>seen s. insert (pid s) seen) {} samples)"

lemma tree_distinct_pids_eq: "tree_distinct_pids samples = card (pid ` set samples)"
proof -
  have "foldl (\<lambda>seen s. insert (pid s) seen) A samples = A \<union> pid ` set samples" for A
    by (induction samples arbitrary: A) auto
  then show ?thesis by (simp add: tree_distinct_pids_def)
qed

section \<open>The sliding window\<close>

text \<open>The part of \<open>ingest_sample\<close> before the training cadence.\<close>

record win =
  window :: "tree_sample list"
  pid_counts :: pid_counts
  tree_samples_cap_dropped :: u64

definition ingest_window :: "tree_sample \<Rightarrow> win \<Rightarrow> bool \<times> win" where
  "ingest_window s st =
     (let (admitted, counts) = tree_admit_pid (pid_counts st) (pid s)
      in if \<not> admitted
         then (False, st\<lparr>pid_counts := counts,
                         tree_samples_cap_dropped := tree_samples_cap_dropped st + 1\<rparr>)
         else let (window1, counts1) =
                    (if length (window st) = MLFQ_TREE_WINDOW_MAX
                     then (tl (window st), tree_evict_pid counts (pid (hd (window st))))
                     else (window st, counts))
              in (True, st\<lparr>window := window1 @ [s], pid_counts := counts1\<rparr>))"

section \<open>The contract of the accounting\<close>

text \<open>
  \<open>count m p\<close> is the number of samples of \<open>p\<close> the map \<open>m\<close> accounts for. An admission
  under the cap adds one, a refused one changes nothing and means the cap is reached, an
  eviction removes one if there is one, and no other pid is touched.
\<close>

definition exact_counts :: "('p \<Rightarrow> nat) \<Rightarrow> nat \<Rightarrow> 'p list \<Rightarrow> bool" where
  "exact_counts f cap xs \<longleftrightarrow> (\<forall>p. f p = count_list xs p \<and> f p \<le> cap)"

locale pid_accounting =
  fixes admit :: "'m \<Rightarrow> 'p \<Rightarrow> bool \<times> 'm"
    and evict :: "'m \<Rightarrow> 'p \<Rightarrow> 'm"
    and count :: "'m \<Rightarrow> 'p \<Rightarrow> nat"
    and cap :: nat
  assumes admit_iff: "fst (admit m p) \<longleftrightarrow> count m p < cap"
    and admit_count: "count m p < cap \<Longrightarrow> count (snd (admit m p)) = (count m)(p := Suc (count m p))"
    and refuse_count: "cap \<le> count m p \<Longrightarrow> count (snd (admit m p)) = count m"
    and evict_count: "0 < count m p \<Longrightarrow> count (evict m p) = (count m)(p := count m p - 1)"
begin

lemma exact_admit:
  assumes "exact_counts (count m) cap xs" and "fst (admit m p)"
  shows "exact_counts (count (snd (admit m p))) cap (xs @ [p])"
proof -
  have c: "count m q = count_list xs q" "count m q \<le> cap" for q
    using assms(1) unfolding exact_counts_def by blast+
  have "count m p < cap" using assms(2) by (simp only: admit_iff)
  then show ?thesis
    using c unfolding exact_counts_def admit_count [OF \<open>count m p < cap\<close>] by auto
qed

lemma exact_refuse:
  assumes "exact_counts (count m) cap xs" and "\<not> fst (admit m p)"
  shows "exact_counts (count (snd (admit m p))) cap xs" and "count_list xs p = cap"
proof -
  have c: "count m q = count_list xs q" "count m q \<le> cap" for q
    using assms(1) unfolding exact_counts_def by blast+
  have le: "cap \<le> count m p" using assms(2) by (simp only: admit_iff not_less)
  show "exact_counts (count (snd (admit m p))) cap xs"
    using assms(1) by (simp only: refuse_count [OF le])
  show "count_list xs p = cap" using le c [of p] by (simp add: le_antisym)
qed

lemma exact_evict:
  assumes "exact_counts (count m) cap (p # xs)"
  shows "exact_counts (count (evict m p)) cap xs"
proof -
  have c: "count m q = count_list (p # xs) q" "count m q \<le> cap" for q
    using assms unfolding exact_counts_def by blast+
  have "0 < count m p" using c(1) [of p] by simp
  then show ?thesis
    unfolding exact_counts_def evict_count [OF \<open>0 < count m p\<close>]
    using c(1) c(2) [folded c(1)] by (metis count_list.simps(2) diff_add_inverse2 diff_le_self fun_upd_apply le_trans)
qed

text \<open>An admission into a full window: the oldest entry leaves, and the counts stay exact.\<close>

lemma exact_slide:
  assumes "exact_counts (count m) cap (q # xs)" and "fst (admit m p)"
  shows "exact_counts (count (evict (snd (admit m p)) q)) cap (xs @ [p])"
proof -
  have "exact_counts (count (snd (admit m p))) cap (q # (xs @ [p]))" using exact_admit [OF assms] by simp
  then show ?thesis by (rule exact_evict)
qed

end

section \<open>The model's accounting meets the contract\<close>

definition count_of :: "pid_counts \<Rightarrow> u32 \<Rightarrow> nat" where
  "count_of counts p = (case counts p of Some c \<Rightarrow> unat c | None \<Rightarrow> 0)"

lemma unat_succ_capped:
  assumes "unat (c :: u32) < 819"
  shows "unat (c + 1) = Suc (unat c)"
  using assms by (simp add: unat_word_ariths)

lemma cap_le_iff: "MLFQ_TREE_PER_PID_CAP \<le> c \<longleftrightarrow> 819 \<le> unat c"
  by (simp add: word_le_nat_alt unat_cap)

interpretation win_acct: pid_accounting tree_admit_pid tree_evict_pid count_of 819
proof unfold_locales
  fix m p
  show "fst (tree_admit_pid m p) \<longleftrightarrow> count_of m p < 819"
    by (auto simp: tree_admit_pid_def Let_def count_of_def cap_le_iff split: option.splits)
  show "count_of (snd (tree_admit_pid m p)) = (count_of m)(p := Suc (count_of m p))" if "count_of m p < 819"
    using that
    by (intro ext) (auto simp: tree_admit_pid_def Let_def count_of_def cap_le_iff unat_succ_capped split: option.splits)
  show "count_of (snd (tree_admit_pid m p)) = count_of m" if "819 \<le> count_of m p"
    using that by (intro ext) (auto simp: tree_admit_pid_def Let_def count_of_def cap_le_iff split: option.splits)
  show "count_of (tree_evict_pid m p) = (count_of m)(p := count_of m p - 1)" if "0 < count_of m p"
  proof (cases "m p")
    case None
    with that show ?thesis by (simp add: count_of_def)
  next
    case (Some c)
    then have "0 < unat c" using that by (simp add: count_of_def)
    then have "unat (c - 1) = unat c - 1"
      by (simp add: unat_gt_0 unat_minus_one)
    then show ?thesis
      using Some by (intro ext) (auto simp: tree_evict_pid_def Let_def count_of_def unat_eq_zero)
  qed
qed

section \<open>The invariant of the window\<close>

definition win_inv :: "win \<Rightarrow> bool" where
  "win_inv st \<longleftrightarrow> length (window st) \<le> MLFQ_TREE_WINDOW_MAX
     \<and> (\<forall>p. count_of (pid_counts st) p = count_list (map pid (window st)) p
          \<and> count_list (map pid (window st)) p \<le> unat MLFQ_TREE_PER_PID_CAP)
     \<and> dom (pid_counts st) = pid ` set (window st)"

lemma win_inv_exact:
  "win_inv st \<longleftrightarrow> length (window st) \<le> MLFQ_TREE_WINDOW_MAX
     \<and> exact_counts (count_of (pid_counts st)) 819 (map pid (window st))
     \<and> dom (pid_counts st) = pid ` set (window st)"
  unfolding win_inv_def exact_counts_def unat_cap by metis

lemma evict_dom:
  assumes "exact_counts (count_of m) 819 (p # xs)" and "dom m = set (p # xs)"
  shows "dom (tree_evict_pid m p) = set xs"
proof -
  obtain c where c: "m p = Some c" using assms(2) by auto
  have "unat c = Suc (count_list xs p)"
    using assms(1) c unfolding exact_counts_def count_of_def by (metis count_list.simps(2) option.simps(5) Suc_eq_plus1)
  then have "c = 1 \<longleftrightarrow> count_list xs p = 0"
    by (simp add: word_unat_eq_iff)
  then have "c - 1 = 0 \<longleftrightarrow> count_list xs p = 0" by simp
  then have "c - 1 = 0 \<longleftrightarrow> p \<notin> set xs" by (simp add: count_list_0_iff)
  then show ?thesis
    using c assms(2) by (auto simp: tree_evict_pid_def Let_def split: if_splits)
qed

lemma admit_dom:
  assumes "fst (tree_admit_pid m p)"
  shows "dom (snd (tree_admit_pid m p)) = insert p (dom m)"
  using assms by (auto simp: tree_admit_pid_def Let_def split: option.splits if_splits)

lemma refuse_id:
  assumes "\<not> fst (tree_admit_pid m p)"
  shows "snd (tree_admit_pid m p) = m"
proof -
  have "\<not> MLFQ_TREE_PER_PID_CAP \<le> 0" by (simp add: word_le_nat_alt unat_cap del: word_coorder.extremum_unique)
  with assms show ?thesis
    by (auto simp: tree_admit_pid_def Let_def split: option.splits if_splits)
qed

text \<open>The four cases of an ingest: dropped, appended, or slid over a full window.\<close>

lemma ingest_window_cases:
  obtains (drop) "\<not> fst (tree_admit_pid (pid_counts st) (pid s))"
    "ingest_window s st = (False, st\<lparr>tree_samples_cap_dropped := tree_samples_cap_dropped st + 1\<rparr>)"
  | (slide) q ws where "fst (tree_admit_pid (pid_counts st) (pid s))" "window st = q # ws"
    "length (window st) = MLFQ_TREE_WINDOW_MAX"
    "ingest_window s st = (True, st\<lparr>window := ws @ [s],
       pid_counts := tree_evict_pid (snd (tree_admit_pid (pid_counts st) (pid s))) (pid q)\<rparr>)"
  | (append) "fst (tree_admit_pid (pid_counts st) (pid s))" "length (window st) \<noteq> MLFQ_TREE_WINDOW_MAX"
    "ingest_window s st = (True, st\<lparr>window := window st @ [s],
       pid_counts := snd (tree_admit_pid (pid_counts st) (pid s))\<rparr>)"
proof (cases "fst (tree_admit_pid (pid_counts st) (pid s))")
  case False
  then show ?thesis
    using drop refuse_id [OF False] by (simp add: ingest_window_def case_prod_beta)
next
  case True
  show ?thesis
  proof (cases "length (window st) = MLFQ_TREE_WINDOW_MAX")
    case False
    with True append show ?thesis by (simp add: ingest_window_def case_prod_beta Let_def)
  next
    case full: True
    then obtain q ws where "window st = q # ws"
      by (cases "window st") (auto simp: MLFQ_TREE_WINDOW_MAX_def)
    with True full slide show ?thesis by (simp add: ingest_window_def case_prod_beta Let_def)
  qed
qed

lemma ingest_keeps_win_inv:
  assumes inv: "win_inv st"
  shows "win_inv (snd (ingest_window s st))"
proof -
  have len: "length (window st) \<le> MLFQ_TREE_WINDOW_MAX"
    and ex: "exact_counts (count_of (pid_counts st)) 819 (map pid (window st))"
    and d: "dom (pid_counts st) = pid ` set (window st)"
    using inv by (simp_all add: win_inv_exact)
  show ?thesis
  proof (cases s st rule: ingest_window_cases)
    case drop
    with inv show ?thesis by (simp add: win_inv_exact)
  next
    case (slide q ws)
    let ?m = "snd (tree_admit_pid (pid_counts st) (pid s))"
    have q: "exact_counts (count_of (pid_counts st)) 819 (pid q # map pid ws)" using ex slide(2) by simp
    have "exact_counts (count_of ?m) 819 (pid q # map pid (ws @ [s]))"
      using win_acct.exact_admit [OF q slide(1)] by simp
    moreover have "dom ?m = set (pid q # map pid (ws @ [s]))"
      using admit_dom [OF slide(1)] d slide(2) by auto
    ultimately have "dom (tree_evict_pid ?m (pid q)) = set (map pid (ws @ [s]))" by (rule evict_dom)
    then have "dom (tree_evict_pid ?m (pid q)) = pid ` set (ws @ [s])" by (simp only: set_map)
    with win_acct.exact_slide [OF q slide(1)] slide(2-4) show ?thesis
      by (simp add: win_inv_exact)
  next
    case append
    with win_acct.exact_admit [OF ex append(1)] admit_dom [OF append(1)] d len show ?thesis
      by (simp add: win_inv_exact)
  qed
qed

definition win_init :: win where
  "win_init = \<lparr>window = [], pid_counts = (\<lambda>p. None), tree_samples_cap_dropped = 0\<rparr>"

lemma win_init_inv: "win_inv win_init"
  by (simp add: win_inv_def win_init_def count_of_def MLFQ_TREE_WINDOW_MAX_def)

text \<open>
  C27. After any sequence of ingested samples the window holds at most 16384 samples, the hash
  map holds for every pid exactly the number of its samples in the window, no pid has more
  than its cap, and only pids with a sample in the window have an entry.
\<close>

theorem window_invariant: "win_inv (foldl (\<lambda>st s. snd (ingest_window s st)) win_init samples)"
proof (induction samples rule: rev_induct)
  case Nil
  then show ?case by (simp add: win_init_inv)
next
  case (snoc s samples)
  then show ?case by (simp add: ingest_keeps_win_inv)
qed

text \<open>
  An ingest drops a sample exactly when its pid already fills its share of the window, then
  leaves the window as it was and counts the drop; otherwise the sample becomes the newest,
  and only a full window loses a sample, its oldest.
\<close>

theorem ingest_window_spec:
  assumes "win_inv st"
  shows "ingest_window s st =
    (if count_list (map pid (window st)) (pid s) = 819
     then (False, st\<lparr>tree_samples_cap_dropped := tree_samples_cap_dropped st + 1\<rparr>)
     else (True, st\<lparr>window := (if length (window st) = MLFQ_TREE_WINDOW_MAX then tl (window st) else window st) @ [s],
                    pid_counts := pid_counts (snd (ingest_window s st))\<rparr>))"
proof -
  have ex: "exact_counts (count_of (pid_counts st)) 819 (map pid (window st))"
    using assms by (simp add: win_inv_exact)
  have adm: "fst (tree_admit_pid (pid_counts st) (pid s)) \<longleftrightarrow> count_list (map pid (window st)) (pid s) \<noteq> 819"
    using ex unfolding exact_counts_def win_acct.admit_iff by (metis le_neq_implies_less less_irrefl)
  show ?thesis
    by (cases s st rule: ingest_window_cases) (simp_all add: adm)
qed

definition one_sample :: tree_sample where
  "one_sample = \<lparr>pid = 7, sample_queue = 1, feats = feats_default, label_ns = 500, version = MLFQ_TREE_SAMPLE_VERSION\<rparr>"

theorem ingest_window_spec_witness:
  "win_inv win_init \<and> window (snd (ingest_window one_sample win_init)) = [one_sample]"
proof -
  have "window (snd (ingest_window one_sample win_init)) = [one_sample]"
    by (subst ingest_window_spec [OF win_init_inv]) (simp add: win_init_def MLFQ_TREE_WINDOW_MAX_def)
  with win_init_inv show ?thesis by blast
qed

end
