(* ===== verification/Bytes.thy ===== *)
theory Bytes
  imports TreePredict
begin

text \<open>
  The memory layout of the shared structures, on a little-endian machine: \<open>TreeNode\<close> is
  24 bytes, \<open>mlfq_tree_store\<close> 2048 of them, and the packed \<open>TreeSample\<close> 84 bytes
  (\<open>src/scx/src/mlfq_tree.rs\<close>, \<open>src/scx/src/bpf/intf.h\<close>). The raw byte view of the publish
  and the reinterpretation of a ring-buffer record read back what was written.
\<close>

section \<open>Words as bytes\<close>

definition le_bytes :: "nat \<Rightarrow> 'a::len word \<Rightarrow> u8 list" where
  "le_bytes n w = map (\<lambda>i. ucast (drop_bit (8 * i) w)) [0..<n]"

fun le_word :: "u8 list \<Rightarrow> 'a::len word" where
  "le_word [] = 0"
| "le_word (b # bs) = ucast b OR push_bit 8 (le_word bs)"

lemma length_le_bytes [simp]: "length (le_bytes n w) = n"
  by (simp add: le_bytes_def)

lemma bit_le_word:
  "bit (le_word bs :: 'a::len word) k \<longleftrightarrow> k < LENGTH('a) \<and> k < 8 * length bs \<and> bit (bs ! (k div 8)) (k mod 8)"
proof (induction bs arbitrary: k)
  case Nil
  then show ?case by simp
next
  case (Cons b bs)
  show ?case
  proof (cases "k < 8")
    case True
    then show ?thesis by (auto simp: bit_simps)
  next
    case False
    then obtain j where j: "k = j + 8" by (metis add.commute le_Suc_ex not_less)
    then have k: "k = j + 8" "k div 8 = Suc (j div 8)" "k mod 8 = j mod 8" by simp_all
    have "\<not> bit b k" using False by (auto dest: bit_imp_le_length)
    then have "bit (le_word (b # bs) :: 'a word) k \<longleftrightarrow> k < LENGTH('a) \<and> bit (le_word bs :: 'a word) j"
      unfolding j by (auto simp: bit_simps)
    then show ?thesis unfolding Cons.IH k(2,3) nth_Cons_Suc using j by auto
  qed
qed

lemma le_word_le_bytes: "le_word (le_bytes n w) = take_bit (8 * n) (w :: 'a::len word)"
proof (rule bit_word_eqI)
  fix k assume "k < LENGTH('a)"
  moreover have "8 * (k div 8) + k mod 8 = k" by simp
  ultimately show "bit (le_word (le_bytes n w) :: 'a word) k = bit (take_bit (8 * n) w) k"
    unfolding bit_le_word by (auto simp: le_bytes_def bit_simps less_mult_imp_div_less mult.commute add.commute)
qed

lemma le_word_u64 [simp]: "le_word (le_bytes 8 w) = (w :: u64)"
  by (simp add: le_word_le_bytes take_bit_word_eq_self)

lemma le_word_u32 [simp]: "le_word (le_bytes 4 w) = (w :: u32)"
  by (simp add: le_word_le_bytes take_bit_word_eq_self)

lemma le_bytes_zero [simp]: "le_bytes n 0 = replicate n 0"
  by (simp add: le_bytes_def map_replicate_const)

section \<open>Tree nodes\<close>

definition node_bytes :: "tree_node \<Rightarrow> u8 list" where
  "node_bytes n = le_bytes 8 (threshold n) @ le_bytes 4 (left n) @ le_bytes 4 (right n) @ [feature n] @ node_pad n"

definition decode_node :: "u8 list \<Rightarrow> tree_node" where
  "decode_node bs = \<lparr>threshold = le_word (take 8 bs), left = le_word (take 4 (drop 8 bs)),
     right = le_word (take 4 (drop 12 bs)), feature = bs ! 16, node_pad = take 7 (drop 17 bs)\<rparr>"

text \<open>The pad field is an array of 7 bytes.\<close>

definition node_layout :: "tree_node \<Rightarrow> bool" where
  "node_layout n \<longleftrightarrow> length (node_pad n) = 7"

lemma length_node_bytes: "node_layout n \<Longrightarrow> length (node_bytes n) = 24"
  by (simp add: node_bytes_def node_layout_def)

lemma decode_node_bytes: "node_layout n \<Longrightarrow> decode_node (node_bytes n) = n"
  by (cases n) (simp add: decode_node_def node_bytes_def node_layout_def nth_append)

section \<open>The tree store\<close>

definition STORE_BYTES :: nat where
  "STORE_BYTES = 24 * MLFQ_TREE_MAX_NODES"

definition store_bytes :: "serialized_tree \<Rightarrow> u8 list" where
  "store_bytes nodes =
     (let bytes = concat (map node_bytes nodes) in bytes @ replicate (STORE_BYTES - length bytes) 0)"

definition decode_store :: "u8 list \<Rightarrow> tree_node list" where
  "decode_store bs = map (\<lambda>i. decode_node (take 24 (drop (24 * i) bs))) [0..<MLFQ_TREE_MAX_NODES]"

lemma length_concat_nodes:
  "list_all node_layout nodes \<Longrightarrow> length (concat (map node_bytes nodes)) = 24 * length nodes"
  by (induction nodes) (simp_all add: length_node_bytes)

lemma nth_concat_nodes:
  "list_all node_layout nodes \<Longrightarrow> i < length nodes \<Longrightarrow>
    take 24 (drop (24 * i) (concat (map node_bytes nodes))) = node_bytes (nodes ! i)"
proof (induction nodes arbitrary: i)
  case Nil
  then show ?case by simp
next
  case (Cons n nodes)
  then show ?case by (cases i) (simp_all add: length_node_bytes)
qed

lemma node_layout_default [simp]: "node_layout node_default"
  by (simp add: node_layout_def node_default_def)

lemma node_bytes_default: "node_bytes node_default = replicate 24 0"
  by (simp add: node_bytes_def node_default_def flip: replicate_add replicate_Suc)

lemma concat_replicate_zeros: "concat (replicate k (replicate 24 (0 :: u8))) = replicate (24 * k) 0"
  by (induction k) (simp_all add: replicate_add)

lemma store_bytes_pad:
  assumes "list_all node_layout nodes"
  shows "store_bytes nodes = concat (map node_bytes (pad_store nodes))"
  using assms
  by (simp add: store_bytes_def pad_store_def Let_def length_concat_nodes STORE_BYTES_def node_bytes_default
      concat_replicate_zeros diff_mult_distrib2)

lemma length_pad_store: "length nodes \<le> MLFQ_TREE_MAX_NODES \<Longrightarrow> length (pad_store nodes) = MLFQ_TREE_MAX_NODES"
  by (simp add: pad_store_def)

lemma decode_store_bytes:
  assumes lay: "list_all node_layout nodes" and len: "length nodes \<le> MLFQ_TREE_MAX_NODES"
  shows "decode_store (store_bytes nodes) = pad_store nodes"
proof (rule nth_equalityI)
  show "length (decode_store (store_bytes nodes)) = length (pad_store nodes)"
    using len by (simp add: decode_store_def length_pad_store)
  fix i assume "i < length (decode_store (store_bytes nodes))"
  then have i: "i < length (pad_store nodes)" using len by (simp add: decode_store_def length_pad_store)
  have lay': "list_all node_layout (pad_store nodes)"
    using lay by (auto simp: pad_store_def list_all_iff)
  have "decode_store (store_bytes nodes) ! i = decode_node (node_bytes (pad_store nodes ! i))"
    using i len nth_concat_nodes [OF lay' i]
    by (simp add: decode_store_def length_pad_store store_bytes_pad [OF lay])
  also have "\<dots> = pad_store nodes ! i"
    using lay' i by (intro decode_node_bytes) (simp add: list_all_length)
  finally show "decode_store (store_bytes nodes) ! i = pad_store nodes ! i" .
qed

section \<open>Sample records\<close>

definition feats_bytes :: "tree_feats \<Rightarrow> u8 list" where
  "feats_bytes f =
     le_bytes 8 (prev_burst_ns f) @ le_bytes 8 (sleep_ns f) @ le_bytes 8 (ema f)
     @ le_bytes 4 (io_wait f) @ le_bytes 4 (wake_cnt f) @ le_bytes 4 (wake_lat_us f)
     @ le_bytes 4 (queue_wait_us f) @ le_bytes 8 (sq_ema f) @ le_bytes 4 (sleep_var_ratio f)
     @ le_bytes 4 (feats_pad f) @ le_bytes 4 (gpu_submit f) @ le_bytes 4 (feats_pad2 f)"

definition sample_bytes :: "tree_sample \<Rightarrow> u8 list" where
  "sample_bytes s =
     le_bytes 4 (pid s) @ le_bytes 4 (sample_queue s) @ feats_bytes (feats s)
     @ le_bytes 8 (label_ns s) @ le_bytes 4 (version s)"

definition decode_feats :: "u8 list \<Rightarrow> tree_feats" where
  "decode_feats bs = \<lparr>
     prev_burst_ns = le_word (take 8 bs), sleep_ns = le_word (take 8 (drop 8 bs)),
     ema = le_word (take 8 (drop 16 bs)), io_wait = le_word (take 4 (drop 24 bs)),
     wake_cnt = le_word (take 4 (drop 28 bs)), wake_lat_us = le_word (take 4 (drop 32 bs)),
     queue_wait_us = le_word (take 4 (drop 36 bs)), sq_ema = le_word (take 8 (drop 40 bs)),
     sleep_var_ratio = le_word (take 4 (drop 48 bs)), feats_pad = le_word (take 4 (drop 52 bs)),
     gpu_submit = le_word (take 4 (drop 56 bs)), feats_pad2 = le_word (take 4 (drop 60 bs))\<rparr>"

definition decode_sample :: "u8 list \<Rightarrow> tree_sample" where
  "decode_sample bs = \<lparr>
     pid = le_word (take 4 bs), sample_queue = le_word (take 4 (drop 4 bs)),
     feats = decode_feats (take 64 (drop 8 bs)), label_ns = le_word (take 8 (drop 72 bs)),
     version = le_word (take 4 (drop 80 bs))\<rparr>"

text \<open>The ring-buffer callback: short records and foreign versions are dropped.\<close>

definition parse_record :: "u8 list \<Rightarrow> tree_sample option" where
  "parse_record data =
     (if length data < 84 then None
      else let s = decode_sample data
           in if \<not> sample_version_matches s then None else Some s)"

lemma length_feats_bytes [simp]: "length (feats_bytes f) = 64"
  by (simp add: feats_bytes_def)

lemma decode_feats_bytes: "decode_feats (feats_bytes f) = f"
  by (cases f) (simp add: decode_feats_def feats_bytes_def)

lemma length_sample_bytes: "length (sample_bytes s) = 84"
  by (simp add: sample_bytes_def)

lemma decode_sample_bytes: "decode_sample (sample_bytes s @ rest) = s"
  by (cases s) (simp add: decode_sample_def sample_bytes_def decode_feats_bytes)

text \<open>
  C38. The ring-buffer callback reads back exactly the sample whose packed 84-byte record it is
  given, whatever follows it, and only when the record carries the current version.
\<close>

theorem parse_record_roundtrip:
  "parse_record (sample_bytes s @ rest) = (if version s = MLFQ_TREE_SAMPLE_VERSION then Some s else None)"
  by (simp add: parse_record_def Let_def length_sample_bytes decode_sample_bytes sample_version_matches_def)

end
