(* ===== verification/Train.thy ===== *)
theory Train
  imports TreeFitOk TreeMetrics Window Bytes
begin

text \<open>
  One training run of the worker (\<open>src/scx/src/main.rs\<close>): the 90/10 split of the window, the fit
  on the first part, the validation, and the metrics on the held-out part. A failed
  \<open>assert_eq!\<close> of a metric is the error \<open>Metric_panic\<close>; the lemmas show that it never occurs
  and that a window of at least 20 samples always gives a result.
\<close>

section \<open>A training run\<close>

datatype train_error =
    Window_too_small nat
  | Tree_invalid validate_error
  | Metric_panic

record train_result =
  tr_tree :: serialized_tree
  tr_nr_train :: nat
  tr_nr_pids_train :: nat
  tr_holdout_len :: nat
  tr_mae_tree :: f64
  tr_mae_ema :: f64
  tr_corr :: f64

definition split_holdout :: "tree_sample list \<Rightarrow> train_error + tree_sample list \<times> tree_sample list" where
  "split_holdout samples =
     (if 20 \<le> length samples
      then let cut = length samples - length samples div 10
           in Ok (take cut samples, drop cut samples)
      else Err (Window_too_small (length samples)))"

definition train_params :: fit_params where
  "train_params = \<lparr>max_depth = MLFQ_TREE_MAX_DEPTH, min_samples_leaf = MLFQ_TREE_MIN_LEAF,
     max_nodes = MLFQ_TREE_MAX_NODES, min_rel_var_reduction = DEFAULT_MIN_REL_VAR_REDUCTION\<rparr>"

definition train_model_with_scratch ::
  "powf \<Rightarrow> tree_sample list \<Rightarrow> fit_scratch \<Rightarrow> (train_error + train_result) \<times> fit_scratch" where
  "train_model_with_scratch powf samples scratch =
     (case split_holdout samples of
        Inl e \<Rightarrow> (Err e, scratch)
      | Inr (train, holdout) \<Rightarrow>
          let (tree, scratch) = fit_with_scratch powf train train_params scratch
          in case serialize_validate tree of
               Inl e \<Rightarrow> (Err (Tree_invalid e), scratch)
             | Inr _ \<Rightarrow>
                 let scratch = scratch\<lparr>
                       fs_actuals := map label_ns holdout,
                       fs_preds := map (\<lambda>s. predict tree (feats s)) holdout,
                       fs_weights_full := sample_weights_into powf (length samples) (fs_weights_full scratch),
                       fs_ema_preds := map (\<lambda>s. ema (feats s)) holdout\<rparr>;
                     holdout_weights = drop (length train) (fs_weights_full scratch)
                 in (case (weighted_holdout_mae (fs_preds scratch) (fs_actuals scratch) holdout_weights,
                           weighted_holdout_mae (fs_ema_preds scratch) (fs_actuals scratch) holdout_weights,
                           pearson (fs_preds scratch) (fs_actuals scratch)) of
                       (Some mae_tree, Some mae_ema, Some corr) \<Rightarrow>
                         Ok \<lparr>tr_tree = tree, tr_nr_train = length train,
                             tr_nr_pids_train = tree_distinct_pids train, tr_holdout_len = length holdout,
                             tr_mae_tree = mae_tree, tr_mae_ema = mae_ema, tr_corr = corr\<rparr>
                     | _ \<Rightarrow> Err Metric_panic,
                     scratch))"

definition train_model :: "powf \<Rightarrow> tree_sample list \<Rightarrow> train_error + train_result" where
  "train_model powf samples = fst (train_model_with_scratch powf samples fit_scratch_new)"

section \<open>The fitted nodes have the byte layout of the store\<close>

lemma layout_split_node [simp]: "node_layout (split_node f t l)"
  by (simp add: node_layout_def split_node_def)

lemma layout_leaf_node [simp]: "node_layout (leaf_node xs)"
  by (simp add: node_layout_def leaf_node_def split: prod.splits)

lemma list_all_update: "list_all P xs \<Longrightarrow> P x \<Longrightarrow> list_all P (xs[i := x])"
  by (auto simp: list_all_iff dest!: set_update_subset_insert [THEN subsetD])

lemma grow_step_layout:
  "list_all node_layout (fs_nodes s) \<Longrightarrow> list_all node_layout (fs_nodes (grow_step p spec s))"
  by (auto simp: grow_step_view split_at_def leaf_at_def list_all_update split: option.splits)

lemma grow_layout: "list_all node_layout (fs_nodes s) \<Longrightarrow> list_all node_layout (fs_nodes (grow p s))"
proof (induction p s rule: grow.induct)
  case (1 p s)
  show ?case
  proof (cases "fs_queue s")
    case Nil
    then show ?thesis using "1.prems" by (simp add: grow.simps [of p s])
  next
    case (Cons spec queue)
    have "list_all node_layout (fs_nodes (grow_step p spec (s\<lparr>fs_queue := queue\<rparr>)))"
      by (rule grow_step_layout) (simp add: "1.prems")
    from "1.IH" [OF Cons this] show ?thesis
      using Cons by (simp add: grow.simps [of p s])
  qed
qed

lemma fit_layout: "list_all node_layout (fst (fit_with_scratch powf samples p scratch))"
  by (auto simp: fit_with_scratch_def Let_def intro!: grow_layout)

section \<open>A training run succeeds\<close>

lemma train_params_limits: "fit_limits train_params"
  by (simp add: fit_limits_def train_params_def const_defs)

lemma holdout_mae_total:
  "length ps = length as \<Longrightarrow> length ps = length ws \<Longrightarrow> \<exists>m. weighted_holdout_mae ps as ws = Some m"
  by (simp add: weighted_holdout_mae_def case_prod_beta Let_def)

lemma pearson_total: "length xs = length ys \<Longrightarrow> \<exists>c. pearson xs ys = Some c"
  by (simp add: pearson_def case_prod_beta Let_def)

lemma length_sample_weights [simp]: "length (sample_weights powf n) = n"
  by (simp add: sample_weights_def)

text \<open>What the rest of the daemon relies on of a result.\<close>

definition good_result :: "train_result \<Rightarrow> bool" where
  "good_result r \<longleftrightarrow> serialize_validate (tr_tree r) = Ok () \<and> list_all node_layout (tr_tree r)"

lemma train_ok:
  assumes "20 \<le> length samples"
  shows "\<exists>r. fst (train_model_with_scratch powf samples scratch) = Ok r
    \<and> tr_tree r = fit powf (take (length samples - length samples div 10) samples) train_params
    \<and> good_result r
    \<and> tr_nr_train r = length samples - length samples div 10 \<and> tr_holdout_len r = length samples div 10
    \<and> tr_nr_pids_train r = card (pid ` set (take (length samples - length samples div 10) samples))"
proof -
  define cut where "cut = length samples - length samples div 10"
  let ?train = "take cut samples" and ?holdout = "drop cut samples"
  obtain tree scratch1 where fit: "fit_with_scratch powf ?train train_params scratch = (tree, scratch1)" by force
  have tree: "tree = fst (fit_with_scratch powf ?train train_params scratch)" using fit by simp
  have "?train \<noteq> []" using assms by (auto simp: cut_def)
  then have wf: "wf_published tree" unfolding tree by (rule fit_wf(1) [OF _ train_params_limits])
  then have ok: "serialize_validate tree = Ok ()" by (simp only: validate_ok_wf)
  have "fit powf ?train train_params = tree"
    unfolding tree fit_def fit_with_scratch_def Let_def sample_weights_into_eq by (auto intro!: grow_view)
  moreover have "list_all node_layout tree" unfolding tree by (rule fit_layout)
  moreover
  define ws where "ws = drop cut (sample_weights powf (length samples))"
  have len: "min (length samples) cut = cut" by (simp add: cut_def)
  obtain m1 where m1: "weighted_holdout_mae (map (\<lambda>s. predict tree (feats s)) ?holdout) (map label_ns ?holdout) ws = Some m1"
    using holdout_mae_total [of "map (\<lambda>s. predict tree (feats s)) ?holdout" "map label_ns ?holdout" ws] by (auto simp: ws_def)
  obtain m2 where m2: "weighted_holdout_mae (map (\<lambda>s. ema (feats s)) ?holdout) (map label_ns ?holdout) ws = Some m2"
    using holdout_mae_total [of "map (\<lambda>s. ema (feats s)) ?holdout" "map label_ns ?holdout" ws] by (auto simp: ws_def)
  obtain c where c: "pearson (map (\<lambda>s. predict tree (feats s)) ?holdout) (map label_ns ?holdout) = Some c"
    using pearson_total [of "map (\<lambda>s. predict tree (feats s)) ?holdout" "map label_ns ?holdout"] by auto
  have "split_holdout samples = Ok (?train, ?holdout)"
    using assms by (simp add: split_holdout_def Let_def cut_def)
  then have "fst (train_model_with_scratch powf samples scratch) = Ok \<lparr>tr_tree = tree, tr_nr_train = length ?train,
     tr_nr_pids_train = tree_distinct_pids ?train, tr_holdout_len = length ?holdout,
     tr_mae_tree = m1, tr_mae_ema = m2, tr_corr = c\<rparr>"
    unfolding train_model_with_scratch_def
    using fit ok m1 m2 c by (simp add: sample_weights_into_eq Let_def len ws_def)
  ultimately show ?thesis
    using ok unfolding cut_def [symmetric] good_result_def
    by (auto simp: tree_distinct_pids_eq cut_def min_def)
qed

text \<open>
  C22. On every window of at least 20 samples a training run returns a result, whatever the scratch
  arena holds: the fit of the first nine tenths, which validates, with the sizes of both
  slices and the number of different pids of the fit slice; no assertion fails.
\<close>

theorem train_model_succeeds:
  assumes "20 \<le> length samples"
  shows "\<exists>r. fst (train_model_with_scratch powf samples scratch) = Ok r
    \<and> tr_tree r = fit powf (take (length samples - length samples div 10) samples) train_params
    \<and> serialize_validate (tr_tree r) = Ok ()
    \<and> tr_nr_train r + tr_holdout_len r = length samples \<and> tr_holdout_len r = length samples div 10
    \<and> tr_nr_pids_train r = card (pid ` set (take (length samples - length samples div 10) samples))"
proof -
  have "length samples - length samples div 10 + length samples div 10 = length samples" by simp
  then show ?thesis using train_ok [OF assms, of powf scratch] by (auto simp: good_result_def)
qed

theorem train_model_succeeds_witness:
  "\<exists>r. fst (train_model_with_scratch (\<lambda>x y. x) (replicate 20 one_sample) fit_scratch_new) = Ok r
     \<and> tr_nr_train r = 18 \<and> tr_holdout_len r = 2"
  using train_model_succeeds [of "replicate 20 one_sample" "\<lambda>x y. x" fit_scratch_new] by auto

text \<open>
  A window of fewer than 20 samples is refused, and nothing is fitted.
\<close>

theorem train_model_small_window:
  "fst (train_model_with_scratch powf samples scratch) = Err (Window_too_small n)
    \<longleftrightarrow> length samples < 20 \<and> n = length samples"
proof (cases "20 \<le> length samples")
  case True
  then show ?thesis using train_ok [OF True, of powf scratch] by auto
next
  case False
  then show ?thesis by (auto simp: train_model_with_scratch_def split_holdout_def)
qed

end
