(* ===== verification/ArrayMap.thy ===== *)
theory ArrayMap
  imports Prelude
begin

text \<open>
  BPF array maps as the daemon uses them. An update is a kernel call that can fail, so it is a
  parameter of every definition that writes a map; \<open>update_replaces\<close> states what the kernel
  documents of a successful update, and the locale \<open>array_map\<close> proves once what a loop of
  updates leaves behind. \<open>array_update\<close> is the update that never fails.
\<close>

type_synonym 'v array = "u32 \<Rightarrow> 'v"
type_synonym 'v update = "'v array \<Rightarrow> u32 \<Rightarrow> 'v \<Rightarrow> string + 'v array"

definition update_replaces :: "'v update \<Rightarrow> bool" where
  "update_replaces upd \<longleftrightarrow> (\<forall>m k v m'. upd m k v = Ok m' \<longrightarrow> m' = m(k := v))"

definition array_update :: "'v update" where
  "array_update m k v = Ok (m(k := v))"

lemma array_update_replaces: "update_replaces array_update"
  by (simp add: update_replaces_def array_update_def)

text \<open>
  The loop \<open>for k in ks { update(k, value(k))?; }\<close>: the map it leaves, and the key and the
  error it stopped at.
\<close>

fun write_all :: "'v update \<Rightarrow> (nat \<Rightarrow> 'v) \<Rightarrow> nat list \<Rightarrow> 'v array \<Rightarrow> 'v array \<times> (nat \<times> string) option" where
  "write_all upd val [] m = (m, None)"
| "write_all upd val (k # ks) m =
     (case upd m (of_nat k) (val k) of
        Inl e \<Rightarrow> (m, Some (k, e))
      | Inr m' \<Rightarrow> write_all upd val ks m')"

locale array_map =
  fixes upd :: "'v update"
  assumes replaces: "upd m k v = Ok m' \<Longrightarrow> m' = m(k := v)"
begin

text \<open>Everything before the failing key is written, everything else is as it was.\<close>

lemma write_range:
  assumes "write_all upd val [a..<b] m = (m', err)" and "b < 4294967296" and "a \<le> b"
  shows "\<exists>n. a \<le> n \<and> n \<le> b \<and> (err = None \<longrightarrow> n = b) \<and> (\<forall>k e. err = Some (k, e) \<longrightarrow> n = k \<and> k < b)
    \<and> (\<forall>i. m' i = (if a \<le> unat i \<and> unat i < n then val (unat i) else m i))"
  using assms
proof (induction "b - a" arbitrary: a m)
  case 0
  then show ?case by auto
next
  case (Suc d)
  then have l: "[a..<b] = a # [Suc a..<b]" by (simp add: upt_rec)
  show ?case
  proof (cases "upd m (of_nat a) (val a)")
    case (Inl e)
    with Suc.prems l have "m' = m" "err = Some (a, e)" by auto
    then show ?thesis using Suc.prems(3) Suc.hyps(2) by (intro exI [of _ a]) auto
  next
    case (Inr m1)
    then have m1: "m1 = m(of_nat a := val a)" by (rule replaces)
    have w: "write_all upd val [Suc a..<b] m1 = (m', err)" using Suc.prems(1) l Inr by simp
    have "d = b - Suc a" "Suc a \<le> b" using Suc.hyps(2) by simp_all
    from Suc.hyps(1) [OF this(1) w Suc.prems(2) this(2)] obtain n where
      n: "Suc a \<le> n" "n \<le> b" "err = None \<longrightarrow> n = b" "\<forall>k e. err = Some (k, e) \<longrightarrow> n = k \<and> k < b"
      "\<forall>i. m' i = (if Suc a \<le> unat i \<and> unat i < n then val (unat i) else m1 i)" by blast
    have "unat (of_nat a :: u32) = a" using Suc.prems(2,3) by (intro unat_of_nat_u32) simp
    then have "i = of_nat a \<longleftrightarrow> unat i = a" for i :: u32 by (metis word_unat_eq_iff)
    then have "m' i = (if a \<le> unat i \<and> unat i < n then val (unat i) else m i)" for i
      using n(1) n(5) m1 by auto
    with n(1-4) show ?thesis by (intro exI [of _ n]) auto
  qed
qed

lemma write_range_ok:
  assumes "write_all upd val [0..<b] m = (m', None)" and "b < 4294967296"
  shows "m' i = (if unat i < b then val (unat i) else m i)"
  using write_range [OF assms] by auto

end

lemma array_map_iff: "array_map upd \<longleftrightarrow> update_replaces upd"
  by (auto simp: array_map_def update_replaces_def)

interpretation array_update: array_map array_update
  by unfold_locales (simp add: array_update_def)

end
