(* ===== verification/Publish.thy ===== *)
theory Publish
  imports Bytes ArrayMap
begin

text \<open>
  \<open>publish_tree\<close> of \<open>src/scx/src/main.rs\<close> and its reader \<open>mlfq_tree_predict\<close> of
  \<open>src/scx/src/bpf/intf.h\<close>: a two-entry map of tree stores and the meta word that selects the
  entry. The map update is a parameter with the contract of \<open>ArrayMap\<close>. The reader after a publish predicts with the new tree, and
  the entry of the tree before it is left alone.
\<close>

section \<open>Kernel state\<close>

type_synonym tree_map = "u8 list array"
type_synonym map_update = "u8 list update"

record kernel =
  ctrl_meta :: u64
  tree_map :: tree_map

section \<open>The publish\<close>

datatype publish_error =
    Monotonic_gen u64 u64
  | Slice_out_of_range nat
  | Map_update_failed string

definition publish_tree :: "map_update \<Rightarrow> serialized_tree \<Rightarrow> u64 \<Rightarrow> kernel \<Rightarrow> publish_error + kernel" where
  "publish_tree upd nodes gen k =
     (let old_meta = ctrl_meta k;
          old_gen = drop_bit 32 old_meta
      in if gen \<le> old_gen \<and> old_gen \<noteq> 0 then Err (Monotonic_gen gen old_gen)
         else let old_active = drop_bit 1 old_meta AND 1;
                  new_active = 1 - old_active;
                  key = ucast new_active :: u32
              in if STORE_BYTES < length (concat (map node_bytes nodes))
                 then Err (Slice_out_of_range (length (concat (map node_bytes nodes))))
                 else case upd (tree_map k) key (store_bytes nodes) of
                        Inl e \<Rightarrow> Err (Map_update_failed e)
                      | Inr m \<Rightarrow> Ok \<lparr>ctrl_meta = tree_meta gen (length nodes) new_active, tree_map = m\<rparr>)"

section \<open>The reader\<close>

definition active_key :: "u64 \<Rightarrow> u32" where
  "active_key meta = (if meta AND MLFQ_TREE_META_ACTIVE \<noteq> 0 then 1 else 0)"

definition mlfq_tree_predict :: "kernel \<Rightarrow> tree_feats \<Rightarrow> u64" where
  "mlfq_tree_predict k f =
     (let meta = ctrl_meta k
      in if meta AND MLFQ_TREE_META_TRAINED = 0 then 0
         else mlfq_tree_walk (decode_store (tree_map k (active_key meta))) f)"

text \<open>The two sides agree on the active bit, and a publish flips it.\<close>

lemma active_bit_cases: "(drop_bit 1 m AND 1 = 0 \<and> \<not> bit (m :: u64) 1) \<or> (drop_bit 1 m AND 1 = 1 \<and> bit m 1)"
proof -
  have "drop_bit 1 m AND 1 = (if bit m 1 then 1 else 0)"
    by (rule bit_word_eqI) (auto simp: bit_simps intro: gr0I)
  then show ?thesis by simp
qed

lemma active_key_bit: "active_key m = (if bit m 1 then 1 else 0)"
proof -
  have "m AND push_bit 1 1 = (if bit m 1 then push_bit 1 1 else 0)"
    by (rule bit_word_eqI) (auto simp: bit_simps simp del: push_bit_Suc)
  then show ?thesis by (simp add: active_key_def MLFQ_TREE_META_ACTIVE_def)
qed

lemma tree_meta_bits:
  assumes "nr < 2 ^ 24" and "a = 0 \<or> a = 1"
  shows "tree_meta g nr a AND MLFQ_TREE_META_TRAINED \<noteq> 0" and "bit (tree_meta g nr a) 1 \<longleftrightarrow> a = 1"
proof -
  have n: "unat (of_nat nr :: u64) < 2 ^ 24"
    using assms(1) by (simp add: unat_of_nat)
  have m: "tree_meta g nr a
    = push_bit 32 (take_bit 32 g) OR push_bit 8 (of_nat nr) OR push_bit 1 (take_bit 1 a) OR 1"
    by (simp only: tree_meta_def MLFQ_TREE_META_TRAINED_def and_u32_mask and_one_mask)
  note f = meta_word_fields [OF n, of g a, folded m]
  show "tree_meta g nr a AND MLFQ_TREE_META_TRAINED \<noteq> 0"
    unfolding MLFQ_TREE_META_TRAINED_def and_one_mask by (rule take_bit_one_nonzero [OF f(4)])
  have "drop_bit 1 (tree_meta g nr a) AND 1 = a AND 1"
    using f(3) by (simp only: and_one_mask)
  moreover have "a AND 1 = a" using assms(2) by auto
  ultimately show "bit (tree_meta g nr a) 1 \<longleftrightarrow> a = 1"
    using active_bit_cases [of "tree_meta g nr a"] assms(2) by auto
qed

lemma publish_tree_ok:
  assumes upd: "update_replaces upd" and ok: "publish_tree upd nodes gen k = Ok k'"
    and size: "length nodes \<le> MLFQ_TREE_MAX_NODES"
  shows "tree_map k' = (tree_map k)(active_key (ctrl_meta k') := store_bytes nodes)"
    and "active_key (ctrl_meta k') = 1 - active_key (ctrl_meta k)"
    and "ctrl_meta k' AND MLFQ_TREE_META_TRAINED \<noteq> 0"
    and "ctrl_meta k' = tree_meta gen (length nodes) (1 - (drop_bit 1 (ctrl_meta k) AND 1))"
    and "drop_bit 32 (ctrl_meta k) < gen \<or> drop_bit 32 (ctrl_meta k) = 0"
proof -
  define a where "a = drop_bit 1 (ctrl_meta k) AND 1"
  have small: "length nodes < 2 ^ 24" using size by (simp add: const_defs)
  have a: "a = 0 \<and> \<not> bit (ctrl_meta k) 1 \<or> a = 1 \<and> bit (ctrl_meta k) 1"
    unfolding a_def by (rule active_bit_cases)
  then have a': "1 - a = 0 \<or> 1 - a = 1" by auto
  have "\<not> (gen \<le> drop_bit 32 (ctrl_meta k) \<and> drop_bit 32 (ctrl_meta k) \<noteq> 0)"
    using ok by (auto simp: publish_tree_def Let_def split: if_splits)
  then show "drop_bit 32 (ctrl_meta k) < gen \<or> drop_bit 32 (ctrl_meta k) = 0" by auto
  obtain m where m: "upd (tree_map k) (ucast (1 - a)) (store_bytes nodes) = Ok m"
    and k': "k' = \<lparr>ctrl_meta = tree_meta gen (length nodes) (1 - a), tree_map = m\<rparr>"
    using ok by (auto simp: publish_tree_def Let_def a_def split: if_splits sum.splits)
  have key: "active_key (ctrl_meta k') = ucast (1 - a)"
    using tree_meta_bits(2) [OF small a'] a k' by (auto simp: active_key_bit)
  show "tree_map k' = (tree_map k)(active_key (ctrl_meta k') := store_bytes nodes)"
    using upd m k' key unfolding update_replaces_def by auto
  show "active_key (ctrl_meta k') = 1 - active_key (ctrl_meta k)"
    using key a by (auto simp: active_key_bit)
  show "ctrl_meta k' AND MLFQ_TREE_META_TRAINED \<noteq> 0"
    using tree_meta_bits(1) [OF small a'] k' by simp
  show "ctrl_meta k' = tree_meta gen (length nodes) (1 - (drop_bit 1 (ctrl_meta k) AND 1))"
    using k' by (simp add: a_def)
qed

section \<open>What a reader sees\<close>

definition holds_tree :: "kernel \<Rightarrow> serialized_tree \<Rightarrow> bool" where
  "holds_tree k nodes \<longleftrightarrow> ctrl_meta k AND MLFQ_TREE_META_TRAINED \<noteq> 0
     \<and> tree_map k (active_key (ctrl_meta k)) = store_bytes nodes"

lemma publish_holds:
  assumes "update_replaces upd" and "publish_tree upd nodes gen k = Ok k'"
    and "length nodes \<le> MLFQ_TREE_MAX_NODES"
  shows "holds_tree k' nodes"
  using publish_tree_ok(1,3) [OF assms] by (simp add: holds_tree_def)

lemma holds_tree_predict:
  assumes "holds_tree k nodes" and "list_all node_layout nodes" and "wf_published nodes"
  shows "mlfq_tree_predict k f = predict nodes f"
proof -
  have "length nodes \<le> MLFQ_TREE_MAX_NODES" using assms(3) by (simp add: wf_published_def)
  then show ?thesis
    using assms(1) by (simp add: holds_tree_def mlfq_tree_predict_def Let_def
        decode_store_bytes [OF assms(2)] bpf_walk_is_predict [OF assms(3)])
qed

text \<open>
  C13. After a successful publish of a validated tree the BPF reader predicts with that tree: it
  finds the bytes the daemon wrote, in the entry the meta word selects, and its walk over
  them returns what \<open>predict\<close> returns.
\<close>

theorem publish_then_predict:
  assumes "update_replaces upd" and "serialize_validate nodes = Ok ()" and "list_all node_layout nodes"
    and "publish_tree upd nodes gen k = Ok k'"
  shows "mlfq_tree_predict k' f = predict nodes f"
proof -
  have wf: "wf_published nodes" using assms(2) by (simp only: validate_ok_wf)
  then have "length nodes \<le> MLFQ_TREE_MAX_NODES" by (simp add: wf_published_def)
  from holds_tree_predict [OF publish_holds [OF assms(1,4) this] assms(3) wf] show ?thesis .
qed

definition fresh_kernel :: kernel where
  "fresh_kernel = \<lparr>ctrl_meta = 0, tree_map = (\<lambda>_. replicate STORE_BYTES 0)\<rparr>"

lemma layout_split3: "list_all node_layout split3"
  by (simp add: split3_def node_layout_def node_default_def)

lemma publish_split3: "\<exists>k'. publish_tree array_update split3 1 fresh_kernel = Ok k'"
  using length_concat_nodes [OF layout_split3]
  by (simp add: publish_tree_def Let_def fresh_kernel_def array_update_def STORE_BYTES_def const_defs)

theorem publish_then_predict_witness:
  "\<exists>k'. publish_tree array_update split3 1 fresh_kernel = Ok k'
     \<and> mlfq_tree_predict k' feats_default = predict split3 feats_default"
  using publish_split3 publish_then_predict [OF array_update_replaces validate_split3 layout_split3, of 1 fresh_kernel]
  by blast

text \<open>
  A publish flips the active entry, leaves the entry of the tree before it untouched, and
  writes the trained bit, the node count and the generation into the meta word.
\<close>

theorem publish_flips_entry:
  assumes "update_replaces upd" and "length nodes \<le> MLFQ_TREE_MAX_NODES"
    and "publish_tree upd nodes gen k = Ok k'"
  shows "active_key (ctrl_meta k') = 1 - active_key (ctrl_meta k)
    \<and> tree_map k' (active_key (ctrl_meta k)) = tree_map k (active_key (ctrl_meta k))
    \<and> meta_nr_nodes (ctrl_meta k') = of_nat (length nodes)
    \<and> meta_generation (ctrl_meta k') = take_bit 32 gen"
proof -
  note p = publish_tree_ok [OF assms(1,3,2)]
  have n: "unat (of_nat (length nodes) :: u64) < 2 ^ 24"
    using assms(2) by (simp add: unat_of_nat const_defs)
  define a where "a = 1 - (drop_bit 1 (ctrl_meta k) AND 1)"
  have m: "ctrl_meta k' = push_bit 32 (take_bit 32 gen) OR push_bit 8 (of_nat (length nodes))
      OR push_bit 1 (take_bit 1 a) OR 1"
    unfolding p(4) a_def [symmetric] by (simp only: tree_meta_def MLFQ_TREE_META_TRAINED_def and_u32_mask and_one_mask)
  note f = meta_word_fields [OF n, of gen a, folded m]
  have "active_key (ctrl_meta k) \<noteq> active_key (ctrl_meta k')"
    unfolding p(2) by (simp add: active_key_def)
  then show ?thesis
    using p(1,2) f(1,2) by (simp add: meta_nr_nodes_take meta_generation_def)
qed

theorem publish_flips_entry_witness:
  "\<exists>k'. publish_tree array_update split3 1 fresh_kernel = Ok k' \<and> meta_nr_nodes (ctrl_meta k') = 3"
proof -
  obtain k' where "publish_tree array_update split3 1 fresh_kernel = Ok k'" using publish_split3 by blast
  with publish_flips_entry [OF array_update_replaces _ this] show ?thesis
    by (simp add: const_defs)
qed

text \<open>
  A generation that is not above the committed one is refused once a tree is committed, before
  anything is written; an untrained control word accepts any generation.
\<close>

theorem publish_refuses_old_generation:
  "(\<exists>g. publish_tree upd nodes gen k = Err (Monotonic_gen gen g))
    \<longleftrightarrow> gen \<le> meta_generation (ctrl_meta k) \<and> meta_generation (ctrl_meta k) \<noteq> 0"
  by (auto simp: publish_tree_def Let_def meta_generation_def split: sum.splits)

end
