(* ===== verification/Daemon.thy ===== *)
theory Daemon
  imports Train Publish
begin

text \<open>
  The tree daemon of \<open>src/scx/src/main.rs\<close> as a state machine: the sample channel and the
  training window of the main loop, the training worker with its two channels of capacity
  one, the committed model, and the kernel side it publishes to. \<open>dstep\<close> has one rule per
  atomic action of the main loop, of the ring-buffer callback and of the worker, in any
  interleaving; times are nanoseconds of the monotonic clock.
\<close>

section \<open>State\<close>

record model_meta =
  generation :: u64
  nr_samples :: nat
  nr_nodes :: nat
  mae_tree_us :: u64
  mae_ema_us :: u64
  corr :: f64

definition model_default :: model_meta where
  "model_default = \<lparr>generation = 0, nr_samples = 0, nr_nodes = 0, mae_tree_us = 0, mae_ema_us = 0, corr = f_zero\<rparr>"

text \<open>The worker waits for a job, fits one, or waits to hand over its result.\<close>

datatype worker =
    W_idle
  | W_busy "tree_sample list"
  | W_sending "train_error + train_result"

record daemon =
  sample_chan :: "tree_sample list"
  dwin :: win
  last_train_at :: "nat option"
  job_chan :: "tree_sample list list"
  res_chan :: "(train_error + train_result) list"
  worker :: worker
  worker_scratch :: fit_scratch
  model :: model_meta
  kern :: kernel

definition SAMPLE_CHAN_CAP :: nat where
  "SAMPLE_CHAN_CAP = 4096"

definition MLFQ_TREE_RETRAIN_INTERVAL :: nat where
  "MLFQ_TREE_RETRAIN_INTERVAL = 60 * 1000000000"

definition f_1e3 :: f64 where
  "f_1e3 = F_Num False 8796093022208000 (- 43)"

section \<open>Operations\<close>

text \<open>The ring-buffer callback: parse, check the version, and \<open>try_send\<close>.\<close>

definition rb_callback :: "u8 list \<Rightarrow> daemon \<Rightarrow> daemon" where
  "rb_callback data d =
     (case parse_record data of
        None \<Rightarrow> d
      | Some s \<Rightarrow> if length (sample_chan d) < SAMPLE_CHAN_CAP
                  then d\<lparr>sample_chan := sample_chan d @ [s]\<rparr> else d)"

text \<open>\<open>try_send\<close> of a snapshot of the window; a full channel drops it.\<close>

definition kick_training :: "nat \<Rightarrow> daemon \<Rightarrow> daemon" where
  "kick_training now d =
     (let d = d\<lparr>last_train_at := Some now\<rparr>;
          snapshot = window (dwin d)
      in if length (job_chan d) < 1 then d\<lparr>job_chan := job_chan d @ [snapshot]\<rparr> else d)"

definition train_due :: "nat \<Rightarrow> daemon \<Rightarrow> bool" where
  "train_due now d =
     (case last_train_at d of
        None \<Rightarrow> MLFQ_TREE_MIN_SAMPLES \<le> length (window (dwin d))
      | Some t \<Rightarrow> MLFQ_TREE_RETRAIN_INTERVAL \<le> now - t
                 \<and> MLFQ_TREE_MIN_SAMPLES \<le> length (window (dwin d)))"

definition ingest_sample :: "nat \<Rightarrow> tree_sample \<Rightarrow> daemon \<Rightarrow> daemon" where
  "ingest_sample now s d =
     (let (admitted, w) = ingest_window s (dwin d);
          d = d\<lparr>dwin := w\<rparr>
      in if \<not> admitted then d
         else if train_due now d then kick_training now d else d)"

definition publish_gate :: "train_result \<Rightarrow> model_meta \<Rightarrow> bool" where
  "publish_gate res m \<longleftrightarrow> MLFQ_TREE_MIN_PIDS \<le> tr_nr_pids_train res
     \<and> should_publish (tr_mae_tree res) (tr_mae_ema res) (tr_corr res)
         (if generation m = 0 then None else Some (corr m))"

definition model_of :: "u64 \<Rightarrow> train_result \<Rightarrow> model_meta" where
  "model_of gen res = \<lparr>generation = gen, nr_samples = tr_nr_train res, nr_nodes = length (tr_tree res),
     mae_tree_us = f_to_u64 (f_round (f_div (tr_mae_tree res) f_1e3)),
     mae_ema_us = f_to_u64 (f_round (f_div (tr_mae_ema res) f_1e3)), corr = tr_corr res\<rparr>"

definition apply_train_result :: "map_update \<Rightarrow> train_result \<Rightarrow> daemon \<Rightarrow> daemon" where
  "apply_train_result upd res d =
     (case serialize_validate (tr_tree res) of
        Inl e \<Rightarrow> d
      | Inr _ \<Rightarrow>
          let gen = generation (model d) + 1
          in if tr_nr_pids_train res < MLFQ_TREE_MIN_PIDS then d
             else let published_corr = (if generation (model d) = 0 then None else Some (corr (model d)))
             in if \<not> should_publish (tr_mae_tree res) (tr_mae_ema res) (tr_corr res) published_corr then d
             else case publish_tree upd (tr_tree res) gen (kern d) of
                    Inl e \<Rightarrow> d
                  | Inr k \<Rightarrow> d\<lparr>kern := k, model := model_of gen res\<rparr>)"

text \<open>One round of the \<open>while let\<close> of \<open>poll_train_results\<close>.\<close>

definition poll_one :: "map_update \<Rightarrow> daemon \<Rightarrow> daemon" where
  "poll_one upd d =
     (case res_chan d of
        [] \<Rightarrow> d
      | r # rs \<Rightarrow> let d = d\<lparr>res_chan := rs\<rparr>
                  in case r of Inr res \<Rightarrow> apply_train_result upd res d | Inl e \<Rightarrow> d)"

section \<open>Steps\<close>

inductive dstep :: "powf \<Rightarrow> map_update \<Rightarrow> daemon \<Rightarrow> daemon \<Rightarrow> bool" for powf upd where
  callback: "dstep powf upd d (rb_callback data d)"
| ingest: "sample_chan d = s # ss \<Longrightarrow> dstep powf upd d (ingest_sample now s (d\<lparr>sample_chan := ss\<rparr>))"
| poll: "dstep powf upd d (poll_one upd d)"
| take_job: "worker d = W_idle \<Longrightarrow> job_chan d = j # js \<Longrightarrow>
    dstep powf upd d (d\<lparr>job_chan := js, worker := W_busy j\<rparr>)"
| train: "worker d = W_busy j \<Longrightarrow> train_model_with_scratch powf j (worker_scratch d) = (r, s) \<Longrightarrow>
    dstep powf upd d (d\<lparr>worker := W_sending r, worker_scratch := s\<rparr>)"
| send: "worker d = W_sending r \<Longrightarrow> length (res_chan d) < 1 \<Longrightarrow>
    dstep powf upd d (d\<lparr>res_chan := res_chan d @ [r], worker := W_idle\<rparr>)"

definition daemon_init :: "tree_map \<Rightarrow> daemon" where
  "daemon_init m = \<lparr>sample_chan = [], dwin = win_init, last_train_at = None, job_chan = [], res_chan = [],
     worker = W_idle, worker_scratch = fit_scratch_new, model = model_default,
     kern = \<lparr>ctrl_meta = 0, tree_map = m\<rparr>\<rparr>"

inductive reachable :: "powf \<Rightarrow> map_update \<Rightarrow> daemon \<Rightarrow> bool" for powf upd where
  init: "reachable powf upd (daemon_init m)"
| step: "reachable powf upd d \<Longrightarrow> dstep powf upd d d' \<Longrightarrow> reachable powf upd d'"

section \<open>What one result does\<close>

lemma apply_cases:
  obtains (kept) "apply_train_result upd res d = d"
  | (published) k where "serialize_validate (tr_tree res) = Ok ()" "publish_gate res (model d)"
    "publish_tree upd (tr_tree res) (generation (model d) + 1) (kern d) = Ok k"
    "apply_train_result upd res d = d\<lparr>kern := k, model := model_of (generation (model d) + 1) res\<rparr>"
proof (cases "apply_train_result upd res d = d")
  case True
  then show ?thesis by (rule kept)
next
  case False
  then obtain u where v: "serialize_validate (tr_tree res) = Ok u"
    by (cases "serialize_validate (tr_tree res)") (auto simp: apply_train_result_def)
  have g: "publish_gate res (model d)"
    using False v by (auto simp: apply_train_result_def publish_gate_def Let_def not_le split: if_splits)
  obtain k where k: "publish_tree upd (tr_tree res) (generation (model d) + 1) (kern d) = Ok k"
    using False v by (cases "publish_tree upd (tr_tree res) (generation (model d) + 1) (kern d)")
      (auto simp: apply_train_result_def Let_def split: if_splits)
  have "apply_train_result upd res d = d\<lparr>kern := k, model := model_of (generation (model d) + 1) res\<rparr>"
    using v g k by (auto simp: apply_train_result_def publish_gate_def Let_def)
  with v g k show ?thesis by (intro published [of k]) simp_all
qed

section \<open>Invariants\<close>

text \<open>
  The committed model and the kernel side belong together: untrained means a zero control word,
  trained means that the active entry holds a validated tree with the reported node count,
  under the truncated generation.
\<close>

definition committed :: "model_meta \<Rightarrow> kernel \<Rightarrow> bool" where
  "committed m k \<longleftrightarrow>
     (if generation m = 0 then ctrl_meta k = 0
      else (\<exists>nodes. holds_tree k nodes \<and> wf_published nodes \<and> list_all node_layout nodes
              \<and> length nodes = nr_nodes m)
         \<and> meta_generation (ctrl_meta k) = take_bit 32 (generation m)
         \<and> \<not> f_lt (corr m) CORR_FLOOR)"

definition good_outcome :: "train_error + train_result \<Rightarrow> bool" where
  "good_outcome r \<longleftrightarrow> (case r of Inl e \<Rightarrow> True | Inr res \<Rightarrow> good_result res)"

definition pipeline_ok :: "daemon \<Rightarrow> bool" where
  "pipeline_ok d \<longleftrightarrow> length (job_chan d) \<le> 1 \<and> length (res_chan d) \<le> 1
     \<and> list_all good_outcome (res_chan d)
     \<and> (case worker d of W_sending r \<Rightarrow> good_outcome r | _ \<Rightarrow> True)"

definition daemon_inv :: "daemon \<Rightarrow> bool" where
  "daemon_inv d \<longleftrightarrow> win_inv (dwin d) \<and> pipeline_ok d \<and> committed (model d) (kern d)"

lemma train_good_outcome: "good_outcome (fst (train_model_with_scratch powf j s))"
proof (cases "20 \<le> length j")
  case True
  then show ?thesis using train_ok [OF True, of powf s] by (auto simp: good_outcome_def)
next
  case False
  then show ?thesis by (simp add: train_model_with_scratch_def split_holdout_def good_outcome_def)
qed

text \<open>A wrapped generation is never published: the control word still has the old one.\<close>

lemma publish_keeps_committed:
  assumes upd: "update_replaces upd" and com: "committed m k" and good: "good_result res"
    and gate: "publish_gate res m" and ok: "publish_tree upd (tr_tree res) (generation m + 1) k = Ok k'"
  shows "committed (model_of (generation m + 1) res) k'" and "generation m + 1 \<noteq> 0"
proof -
  have wf: "wf_published (tr_tree res)" and lay: "list_all node_layout (tr_tree res)"
    using good by (simp_all only: good_result_def validate_ok_wf)
  then have len: "length (tr_tree res) \<le> MLFQ_TREE_MAX_NODES" by (simp add: wf_published_def)
  show nz: "generation m + 1 \<noteq> 0"
  proof
    assume z: "generation m + 1 = 0"
    then have g: "generation m = - 1" by (simp add: eq_neg_iff_add_eq_0)
    then have "generation m \<noteq> 0" by simp
    with com g have "meta_generation (ctrl_meta k) = take_bit 32 (- 1)"
      by (simp add: committed_def)
    then have "drop_bit 32 (ctrl_meta k) \<noteq> 0" by (simp add: meta_generation_def)
    then have "publish_tree upd (tr_tree res) (generation m + 1) k
      = Err (Monotonic_gen 0 (drop_bit 32 (ctrl_meta k)))"
      unfolding z publish_tree_def Let_def by simp
    with ok show False by simp
  qed
  have n: "unat (of_nat (length (tr_tree res)) :: u64) < 2 ^ 24"
    using len by (simp add: unat_of_nat const_defs)
  note p = publish_tree_ok(4) [OF upd ok len]
  have "meta_generation (ctrl_meta k') = take_bit 32 (generation m + 1)"
    unfolding p meta_generation_def tree_meta_def MLFQ_TREE_META_TRAINED_def and_u32_mask and_one_mask
    by (rule meta_word_fields(2) [OF n])
  moreover have "\<not> f_lt (tr_corr res) CORR_FLOOR"
    using gate by (auto simp: publish_gate_def should_publish_def split: if_splits)
  ultimately show "committed (model_of (generation m + 1) res) k'"
    using nz publish_holds [OF upd ok len] wf lay by (auto simp: committed_def model_of_def)
qed

lemma apply_keeps_inv:
  assumes "update_replaces upd" and "daemon_inv d" and "good_result res"
  shows "daemon_inv (apply_train_result upd res d)"
proof (cases upd res d rule: apply_cases)
  case kept
  with assms(2) show ?thesis by simp
next
  case (published k)
  then show ?thesis
    using publish_keeps_committed(1) [OF assms(1) _ assms(3) published(2,3)] assms(2)
    by (simp add: daemon_inv_def pipeline_ok_def)
qed

lemma kick_keeps_inv: "daemon_inv d \<Longrightarrow> daemon_inv (kick_training now d)"
  by (auto simp: daemon_inv_def pipeline_ok_def kick_training_def Let_def)

lemma daemon_inv_step:
  assumes upd: "update_replaces upd" and inv: "daemon_inv d" and step: "dstep powf upd d d'"
  shows "daemon_inv d'"
  using step
proof cases
  case (callback data)
  with inv show ?thesis
    by (auto simp: rb_callback_def daemon_inv_def pipeline_ok_def split: option.splits)
next
  case (ingest s ss now)
  have "daemon_inv (d\<lparr>sample_chan := ss, dwin := snd (ingest_window s (dwin d))\<rparr>)"
    using inv ingest_keeps_win_inv by (simp add: daemon_inv_def pipeline_ok_def)
  with ingest kick_keeps_inv show ?thesis
    by (auto simp: ingest_sample_def case_prod_beta Let_def)
next
  case poll
  show ?thesis
  proof (cases "res_chan d")
    case Nil
    with poll inv show ?thesis by (simp add: poll_one_def)
  next
    case (Cons r rs)
    have "daemon_inv (d\<lparr>res_chan := rs\<rparr>)" "good_outcome r"
      using inv Cons by (auto simp: daemon_inv_def pipeline_ok_def)
    with poll Cons apply_keeps_inv [OF upd] show ?thesis
      by (auto simp: poll_one_def good_outcome_def split: sum.splits)
  qed
next
  case (take_job j js)
  with inv show ?thesis by (auto simp: daemon_inv_def pipeline_ok_def)
next
  case (train j r s)
  then have "good_outcome r" using train_good_outcome [of powf j "worker_scratch d"] by simp
  with train inv show ?thesis by (auto simp: daemon_inv_def pipeline_ok_def)
next
  case (send r)
  with inv show ?thesis by (auto simp: daemon_inv_def pipeline_ok_def)
qed

lemma daemon_inv_init: "daemon_inv (daemon_init m)"
  by (simp add: daemon_inv_def daemon_init_def win_init_inv pipeline_ok_def committed_def model_default_def)

lemma reachable_inv:
  assumes "update_replaces upd"
  shows "reachable powf upd d \<Longrightarrow> daemon_inv d"
  by (induction rule: reachable.induct) (auto intro: daemon_inv_init daemon_inv_step [OF assms])

section \<open>What the kernel side predicts\<close>

lemma untrained_predicts_zero: "ctrl_meta k = 0 \<Longrightarrow> mlfq_tree_predict k f = 0"
  by (simp add: mlfq_tree_predict_def)

lemma reachable_model:
  assumes "update_replaces upd" and "reachable powf upd d"
  shows "\<exists>nodes. (if generation (model d) = 0 then nodes = []
      else serialize_validate nodes = Ok () \<and> length nodes = nr_nodes (model d))
    \<and> mlfq_tree_predict (kern d) = predict nodes"
proof (cases "generation (model d) = 0")
  case True
  then have "ctrl_meta (kern d) = 0"
    using reachable_inv [OF assms] by (simp add: daemon_inv_def committed_def)
  then have "mlfq_tree_predict (kern d) = predict []"
    by (intro ext) (simp add: untrained_predicts_zero predict_def)
  with True show ?thesis by auto
next
  case False
  then obtain nodes where n: "holds_tree (kern d) nodes" "wf_published nodes" "list_all node_layout nodes"
    "length nodes = nr_nodes (model d)"
    using reachable_inv [OF assms] by (auto simp: daemon_inv_def committed_def)
  then have "mlfq_tree_predict (kern d) = predict nodes"
    by (intro ext) (rule holds_tree_predict)
  with n(2,4) False show ?thesis by (auto simp: validate_ok_wf)
qed

text \<open>
  C8. In every reachable state of the daemon the BPF side predicts 0 for every feature vector while
  no model is committed, and otherwise with one validated tree, which has the node count the
  model metadata reports.
\<close>

theorem reachable_predictions:
  assumes "update_replaces upd" and "reachable powf upd d"
  shows "\<exists>nodes. (if generation (model d) = 0 then nodes = []
      else serialize_validate nodes = Ok () \<and> length nodes = nr_nodes (model d))
    \<and> mlfq_tree_predict (kern d) = predict nodes"
  by (rule reachable_model [OF assms])

theorem reachable_predictions_witness:
  "reachable (\<lambda>x y. x) array_update (daemon_init (\<lambda>_. []))
   \<and> (\<exists>nodes. mlfq_tree_predict (kern (daemon_init (\<lambda>_. []))) = predict nodes)"
proof -
  have r: "reachable (\<lambda>x y. x) array_update (daemon_init (\<lambda>_. []))" by (rule reachable.init)
  from reachable_predictions [OF array_update_replaces r] r show ?thesis by blast
qed

text \<open>
  C37. A result changes the committed model only to the next generation, and only when its tree
  validates, its fit slice has at least 8 pids, its error does not exceed the baseline's, its
  correlation is not below 0.30 and, over a committed model, not at or below the committed
  correlation plus \<open>1e-9\<close>; otherwise model and kernel side stay as they were.
\<close>

theorem commit_ratchet:
  "apply_train_result upd res d = d
   \<or> (serialize_validate (tr_tree res) = Ok () \<and> 8 \<le> tr_nr_pids_train res
      \<and> \<not> f_lt (tr_mae_ema res) (tr_mae_tree res) \<and> \<not> f_lt (tr_corr res) CORR_FLOOR
      \<and> (if generation (model d) = 0 then True
          else \<not> f_le (tr_corr res) (f_add (corr (model d)) CORR_STEP))
      \<and> generation (model (apply_train_result upd res d)) = generation (model d) + 1
      \<and> corr (model (apply_train_result upd res d)) = tr_corr res
      \<and> nr_nodes (model (apply_train_result upd res d)) = length (tr_tree res))"
proof (cases upd res d rule: apply_cases)
  case (published k)
  then show ?thesis
    by (auto simp: publish_gate_def should_publish_def model_of_def MLFQ_TREE_MIN_PIDS_def
        split: if_splits option.splits)
qed simp

text \<open>
  A kick while the worker fits the previous snapshot is not dropped: the job channel is empty
  again as soon as the worker has taken the job, so the new snapshot is queued behind it.
\<close>

theorem kick_queues_behind_busy_worker:
  "worker d = W_idle \<Longrightarrow> job_chan d = [j] \<Longrightarrow>
    worker (d\<lparr>job_chan := [], worker := W_busy j\<rparr>) = W_busy j
    \<and> dstep powf upd d (d\<lparr>job_chan := [], worker := W_busy j\<rparr>)
    \<and> job_chan (kick_training now (d\<lparr>job_chan := [], worker := W_busy j\<rparr>)) = [window (dwin d)]"
  using dstep.take_job [of d j "[]" powf upd] by (simp add: kick_training_def Let_def)

definition waiting_daemon :: daemon where
  "waiting_daemon = (daemon_init (\<lambda>_. []))\<lparr>job_chan := [[one_sample]]\<rparr>"

theorem kick_queues_behind_busy_worker_witness:
  "worker waiting_daemon = W_idle \<and> job_chan waiting_daemon = [[one_sample]]
   \<and> job_chan (kick_training 5 (waiting_daemon\<lparr>job_chan := [], worker := W_busy [one_sample]\<rparr>))
     = [window (dwin waiting_daemon)]"
proof -
  have w: "worker waiting_daemon = W_idle" "job_chan waiting_daemon = [[one_sample]]"
    by (simp_all add: waiting_daemon_def daemon_init_def)
  from kick_queues_behind_busy_worker [OF w, of "\<lambda>x y. x" array_update 5] w show ?thesis by blast
qed

end
