(* ===== verification/BssState.thy ===== *)
theory BssState
  imports Intf
begin

text \<open>
  The structs of \<open>src/scx/src/bpf/intf.h\<close> that the scheduler keeps in its BSS section and in
  its per-CPU maps, and that the Rust side reads for its metrics: the counters, the system
  gauges, the adaptation state, the state of a CPU and its realtime occupancy.
\<close>

section \<open>The BSS section\<close>

record mlfq_stats =
  st_total_runtime :: u64
  st_on_cpu :: u64
  st_q1_placements :: u64
  st_q2_placements :: u64
  st_q3_placements :: u64
  st_promotions :: u64
  st_demotions :: u64
  st_aging_boosts :: u64
  st_short_sleep_boosts :: u64
  st_preemption_kicks :: u64
  st_cpuperf_boosts :: u64
  st_steals :: u64
  st_steals_same_llc :: u64
  st_steals_cross_llc :: u64
  st_keep_running :: u64
  st_enq_no_tctx :: u64
  st_enq_bad_weight :: u64
  st_enq_no_deadline :: u64
  st_enq_fastpath :: u64
  st_enq_regular :: u64
  st_enq_pinned_idle :: u64
  st_enq_pinned_busy :: u64
  st_enq_pinned_global :: u64
  st_tree_inference :: u64
  st_tree_fallback :: u64
  st_tree_disagree :: u64
  st_tree_samples_emitted :: u64
  st_tree_samples_dropped :: u64
  st_rt_takeovers :: u64
  st_rt_evacuations :: u64
  st_rt_redirects :: u64
  st_rt_reenqs :: u64

record sys_gauge =
  sg_lat_ema :: u64
  sg_rate_ema :: u64
  sg_step_at :: u64
  sg_wait_total :: u64
  sg_wait_count :: u64
  sg_adapt_steps :: u32

record adapt_state =
  as_shift_fp :: u64
  as_t_l_eff_ns :: u64
  as_t_h_eff_ns :: u64
  as_t_int_eff_ns :: u64
  as_t_bnd_eff_ns :: u64
  as_guard_eff_ns :: u64

record cpu_state =
  running_queue :: i32
  running_pid :: u32
  steal_scan_off :: u32
  cpu_ema :: u64
  cpu_ema_at :: u64
  running_deadline :: u64
  run_start_at :: u64
  running_gpu_submit :: u32

definition cpu_state_zero :: cpu_state where
  "cpu_state_zero = \<lparr>running_queue = 0, running_pid = 0, steal_scan_off = 0, cpu_ema = 0,
     cpu_ema_at = 0, running_deadline = 0, run_start_at = 0, running_gpu_submit = 0\<rparr>"

record rtdl_state =
  rt_flags :: u32
  last_drain_at :: u64

definition rtdl_state_zero :: rtdl_state where
  "rtdl_state_zero = \<lparr>rt_flags = 0, last_drain_at = 0\<rparr>"

definition MLFQ_RTDL_OCCUPIED :: u32 where
  "MLFQ_RTDL_OCCUPIED = 1"

definition MLFQ_OP_LAT_OPS :: nat where
  "MLFQ_OP_LAT_OPS = 4"

definition MLFQ_OP_LAT_BUCKETS :: nat where
  "MLFQ_OP_LAT_BUCKETS = 8"

end
