(* ===== verification/Snapshot.thy ===== *)
theory Snapshot
  imports Stats Daemon BssState
begin

text \<open>
  The metrics the run loop collects (\<open>src/scx/src/main.rs\<close>): the counters of the BSS section,
  the two per-CPU maps it sums, and the web snapshot that merges the per-CPU maps into the
  static data of the CPUs. A map lookup is a kernel call: it is a parameter that yields the
  bytes it wrote into the buffer, or nothing when it failed. The lemmas show that the two
  nested loops compute the sums over the CPUs, and what every entry of a web snapshot holds.
\<close>

section \<open>The inputs of the collection\<close>

text \<open>What the collection reads: the BSS section, the maps, and the clock of the attach.\<close>

record bpf_env =
  bss_stats :: mlfq_stats
  bss_gauge :: sys_gauge
  bss_adapt :: adapt_state
  nr_cpu_ids :: nat
  bss_queue_runnable :: "u32 list"
  bss_llc_runnable :: "u32 list"
  bss_gpu_submit_total :: u64
  bss_gpu_trace_mask :: u32
  op_lat_lookup :: "u32 \<Rightarrow> u8 list option"
  wakeup_lookup :: "u32 \<Rightarrow> u8 list option"
  cpu_state_lookup :: "u32 \<Rightarrow> cpu_state option"
  rtdl_lookup :: "u32 \<Rightarrow> rtdl_state option"
  scaling_cur_freq :: "u32 \<Rightarrow> string option"
  started_at :: nat

section \<open>Summing the per-CPU maps\<close>

definition slot_at :: "u8 list \<Rightarrow> nat \<Rightarrow> u64" where
  "slot_at raw off = le_word (take 8 (drop off raw))"

definition stat_cpus :: "nat option \<Rightarrow> nat" where
  "stat_cpus n = min (unwrap_or n 1) MLFQ_MAX_CPUS"

definition add_op :: "nat \<Rightarrow> u8 list \<Rightarrow> nat \<Rightarrow> u64 list \<Rightarrow> u64 list" where
  "add_op op raw nr_cpus buf =
     fold (\<lambda>cpu buf. fold (\<lambda>b buf. let i = op * MLFQ_OP_LAT_BUCKETS + b
                                  in buf[i := buf ! i + slot_at raw (cpu * (8 * MLFQ_OP_LAT_BUCKETS) + b * 8)])
             [0..<MLFQ_OP_LAT_BUCKETS] buf)
       [0..<nr_cpus] buf"

definition read_op_lat :: "(u32 \<Rightarrow> u8 list option) \<Rightarrow> nat option \<Rightarrow> u64 list" where
  "read_op_lat lookup n =
     fold (\<lambda>op buf. case lookup (of_nat op) of None \<Rightarrow> buf | Some raw \<Rightarrow> add_op op raw (stat_cpus n) buf)
       [0..<MLFQ_OP_LAT_OPS] (replicate (MLFQ_OP_LAT_OPS * MLFQ_OP_LAT_BUCKETS) 0)"

definition read_wakeup_total :: "(u32 \<Rightarrow> u8 list option) \<Rightarrow> nat option \<Rightarrow> u64" where
  "read_wakeup_total lookup n =
     (case lookup 0 of None \<Rightarrow> 0
      | Some raw \<Rightarrow> fold (\<lambda>cpu total. total + slot_at raw (cpu * 16)) [0..<stat_cpus n] 0)"

section \<open>The metrics\<close>

text \<open>\<open>x as i64\<close>: truncation, saturating at both ends, with NaN read as 0.\<close>

definition sat_i64 :: "int \<Rightarrow> u64" where
  "sat_i64 n = word_of_int (max (- 9223372036854775808) (min 9223372036854775807 n))"

fun f_to_i64 :: "f64 \<Rightarrow> u64" where
  "f_to_i64 F_NaN = 0"
| "f_to_i64 (F_Inf s) = (if s then 0x8000000000000000 else 0x7FFFFFFFFFFFFFFF)"
| "f_to_i64 (F_Num s m e) =
     (let a = (if 0 \<le> e then shl m e else shr m (- e)) in sat_i64 (if s then - a else a))"

definition get_metrics :: "nat \<Rightarrow> bpf_env \<Rightarrow> daemon \<Rightarrow> metrics" where
  "get_metrics now env d = (let s = bss_stats env; g = bss_gauge env; a = bss_adapt env in \<lparr>
     on_cpu = st_on_cpu s,
     total_runtime = st_total_runtime s,
     uptime_ns = of_nat (now - started_at env),
     q1_placements = st_q1_placements s,
     q2_placements = st_q2_placements s,
     q3_placements = st_q3_placements s,
     promotions = st_promotions s,
     demotions = st_demotions s,
     aging_boosts = st_aging_boosts s,
     short_sleep_boosts = st_short_sleep_boosts s,
     preemption_kicks = st_preemption_kicks s,
     cpuperf_boosts = st_cpuperf_boosts s,
     steals = st_steals s,
     steals_same_llc = st_steals_same_llc s,
     steals_cross_llc = st_steals_cross_llc s,
     keep_running = st_keep_running s,
     enq_no_tctx = st_enq_no_tctx s,
     enq_bad_weight = st_enq_bad_weight s,
     enq_no_deadline = st_enq_no_deadline s,
     enq_fastpath = st_enq_fastpath s,
     enq_regular = st_enq_regular s,
     enq_pinned_idle = st_enq_pinned_idle s,
     enq_pinned_busy = st_enq_pinned_busy s,
     enq_pinned_global = st_enq_pinned_global s,
     tree_inference = st_tree_inference s,
     tree_fallback = st_tree_fallback s,
     tree_disagree = st_tree_disagree s,
     tree_samples_emitted = st_tree_samples_emitted s,
     tree_samples_dropped = st_tree_samples_dropped s,
     rt_takeovers = st_rt_takeovers s,
     rt_evacuations = st_rt_evacuations s,
     rt_redirects = st_rt_redirects s,
     rt_reenqs = st_rt_reenqs s,
     op_lat = read_op_lat (op_lat_lookup env) (Some (nr_cpu_ids env)),
     tree_samples_cap_dropped_m = tree_samples_cap_dropped (dwin d),
     tree_model_generation = generation (model d),
     tree_model_samples = of_nat (nr_samples (model d)),
     tree_model_nodes = of_nat (nr_nodes (model d)),
     tree_mae_tree_us = mae_tree_us (model d),
     tree_mae_ema_us = mae_ema_us (model d),
     tree_corr_milli = f_to_i64 (f_round (f_mul (corr (model d)) f_1e3)),
     sys_lat_ema_us = sg_lat_ema g div NSEC_PER_USEC,
     sys_rate_ema = sg_rate_ema g,
     t_l_eff_us = as_t_l_eff_ns a div NSEC_PER_USEC,
     t_h_eff_us = as_t_h_eff_ns a div NSEC_PER_USEC,
     t_int_eff_us = as_t_int_eff_ns a div NSEC_PER_USEC,
     t_bnd_eff_us = as_t_bnd_eff_ns a div NSEC_PER_USEC,
     guard_eff_us = as_guard_eff_ns a div NSEC_PER_USEC,
     adapt_shift = as_shift_fp a,
     wakeup_total = read_wakeup_total (wakeup_lookup env) (Some (nr_cpu_ids env)),
     adapt_steps = ucast (sg_adapt_steps g) \<rparr>)"

section \<open>The web snapshot\<close>

definition read_cpu_state :: "bpf_env \<Rightarrow> nat \<Rightarrow> cpu_state" where
  "read_cpu_state env cpu =
     (if MLFQ_MAX_CPUS \<le> cpu then cpu_state_zero else unwrap_or (cpu_state_lookup env (of_nat cpu)) cpu_state_zero)"

definition read_rtdl_state :: "bpf_env \<Rightarrow> nat \<Rightarrow> rtdl_state" where
  "read_rtdl_state env cpu =
     (if MLFQ_MAX_CPUS \<le> cpu then rtdl_state_zero else unwrap_or (rtdl_lookup env (of_nat cpu)) rtdl_state_zero)"

definition current_freq_khz :: "bpf_env \<Rightarrow> u32 \<Rightarrow> u64" where
  "current_freq_khz env cpu =
     unwrap_or (Option.bind (scaling_cur_freq env cpu) (\<lambda>s. parse_u64 (trim s))) 0"

text \<open>The state of the collection: the static seed and the frequency cache.\<close>

record web_state =
  cpu_static :: "per_cpu_metrics list"
  cached_freq :: "u64 list"
  freq_read_at :: "nat option"

definition refresh_freq :: "nat \<Rightarrow> bpf_env \<Rightarrow> web_state \<Rightarrow> web_state" where
  "refresh_freq now env w =
     (if (case freq_read_at w of None \<Rightarrow> True | Some t \<Rightarrow> 1000000000 \<le> now - t)
      then w\<lparr>cached_freq := map (\<lambda>cpu. current_freq_khz env (of_nat cpu)) [0..<min (nr_cpu_ids env) MLFQ_MAX_CPUS],
             freq_read_at := Some now\<rparr>
      else w)"

definition seed_statics :: "nat \<Rightarrow> per_cpu_metrics list \<Rightarrow> per_cpu_metrics option list" where
  "seed_statics nr statics =
     foldl (\<lambda>buf s. if unat (pc_id s) < nr then buf[unat (pc_id s) := Some s] else buf) (replicate nr None) statics"

definition merge_cpu :: "bpf_env \<Rightarrow> u64 list \<Rightarrow> nat \<Rightarrow> per_cpu_metrics option \<Rightarrow> per_cpu_metrics" where
  "merge_cpu env freqs cpu static =
     (let e = unwrap_or static per_cpu_default; state = read_cpu_state env cpu; rt = read_rtdl_state env cpu
      in e\<lparr>pc_id := of_nat cpu,
           cur_freq_khz := (if cpu < length freqs then freqs ! cpu else 0),
           pc_running_queue := running_queue state,
           pc_running_pid := running_pid state,
           pc_running_gpu_submit := running_gpu_submit state,
           rt_occupied := (rt_flags rt AND MLFQ_RTDL_OCCUPIED \<noteq> 0)\<rparr>)"

definition read_queue_runnable :: "bpf_env \<Rightarrow> u64 list" where
  "read_queue_runnable env = map ucast (bss_queue_runnable env)"

definition read_llc_runnable :: "bpf_env \<Rightarrow> u64 list" where
  "read_llc_runnable env = map ucast (bss_llc_runnable env)"

definition get_web_metrics :: "nat \<Rightarrow> bpf_env \<Rightarrow> daemon \<Rightarrow> web_state \<Rightarrow> web_metrics \<times> web_state" where
  "get_web_metrics now env d w =
     (let w = refresh_freq now env w;
          nr = min (nr_cpu_ids env) MLFQ_MAX_CPUS;
          statics = seed_statics nr (cpu_static w)
      in (\<lparr>wm_stats = get_metrics now env d,
           wm_per_cpu = map (\<lambda>(cpu, static). merge_cpu env (cached_freq w) cpu static) (enumerate 0 statics),
           wm_queue_runnable = read_queue_runnable env,
           wm_llc_runnable = read_llc_runnable env,
           wm_gpu_submit_total = bss_gpu_submit_total env,
           wm_gpu_trace_mask = bss_gpu_trace_mask env\<rparr>, w))"

section \<open>The loops compute the sums\<close>

lemma fold_add_range:
  "fold (\<lambda>b buf. buf[base + b := buf ! (base + b) + g b]) [0..<k] buf
     = map (\<lambda>j. if base \<le> j \<and> j < base + k then buf ! j + g (j - base) else buf ! j) [0..<length buf]"
proof (induction k)
  case 0
  show ?case by (rule nth_equalityI) auto
next
  case (Suc k)
  show ?case
    unfolding upt_Suc_append [OF le0] fold_append o_def Suc.IH fold_simps
    by (rule nth_equalityI) (auto simp: nth_list_update less_Suc_eq)
qed

lemma sum_lessThan_Suc_u64: "(\<Sum>i<Suc n. (f i :: u64)) = (\<Sum>i<n. f i) + f n"
  by simp

lemma add_op_nth:
  "add_op op raw n buf = map (\<lambda>j. if j div 8 = op
      then buf ! j + (\<Sum>cpu<n. slot_at raw (cpu * 64 + j mod 8 * 8)) else buf ! j) [0..<length buf]"
proof (induction n)
  case 0
  show ?case by (rule nth_equalityI) (auto simp: add_op_def)
next
  case (Suc n)
  have range: "op * 8 \<le> j \<and> j < op * 8 + 8 \<longleftrightarrow> j div 8 = op" for j by auto
  have rest: "j div 8 = op \<Longrightarrow> j - op * 8 = j mod 8" for j
    by (simp add: minus_div_mult_eq_mod [symmetric])
  have "add_op op raw (Suc n) buf
    = fold (\<lambda>b buf. buf[op * 8 + b := buf ! (op * 8 + b) + slot_at raw (n * 64 + b * 8)]) [0..<8] (add_op op raw n buf)"
    by (simp add: add_op_def MLFQ_OP_LAT_BUCKETS_def Let_def)
  then show ?case
    unfolding fold_add_range Suc.IH range
    by (intro nth_equalityI) (auto simp: rest algebra_simps)
qed

text \<open>The sum of one bucket over the CPUs, for the flat index of the result.\<close>

definition bucket_sum :: "(u32 \<Rightarrow> u8 list option) \<Rightarrow> nat \<Rightarrow> nat \<Rightarrow> u64" where
  "bucket_sum lookup n j =
     (case lookup (of_nat (j div 8)) of None \<Rightarrow> 0
      | Some raw \<Rightarrow> \<Sum>cpu<n. slot_at raw (cpu * 64 + j mod 8 * 8))"

lemma read_ops:
  "fold (\<lambda>op buf. case lookup (of_nat op) of None \<Rightarrow> buf | Some raw \<Rightarrow> add_op op raw n buf)
      [0..<k] (replicate m 0)
   = map (\<lambda>j. if j div 8 < k then bucket_sum lookup n j else 0) [0..<m]"
  (is "fold ?f _ _ = map (?val k) _")
proof (induction k)
  case 0
  show ?case by (simp add: map_replicate_const)
next
  case (Suc k)
  have "?f k (map (?val k) [0..<m]) = map (?val (Suc k)) [0..<m]"
  proof (cases "lookup (of_nat k)")
    case None
    then have "?val k j = ?val (Suc k) j" for j
      by (cases "j div 8 = k") (simp_all add: bucket_sum_def less_Suc_eq)
    with None show ?thesis by simp
  next
    case (Some raw)
    have a: "add_op k raw n (map v [0..<m])
      = map (\<lambda>j. if j div 8 = k then v j + (\<Sum>cpu<n. slot_at raw (cpu * 64 + j mod 8 * 8)) else v j) [0..<m]" for v
      by (intro nth_equalityI) (simp_all add: add_op_nth)
    have "(if j div 8 = k then ?val k j + (\<Sum>cpu<n. slot_at raw (cpu * 64 + j mod 8 * 8)) else ?val k j)
      = ?val (Suc k) j" for j
      using Some by (cases "j div 8 = k") (simp_all add: bucket_sum_def less_Suc_eq)
    with Some show ?thesis by (simp only: option.case a)
  qed
  then show ?case unfolding upt_Suc_append [OF le0] fold_append o_def fold_simps Suc.IH .
qed

text \<open>
  The histogram the daemon reports has 32 entries, operation by operation, and each is the
  wrapping sum over the CPUs of the slot its byte offset selects; an operation whose lookup fails
  reports zeros. The wakeup total is the sum of the first words of the per-CPU slots.
\<close>

theorem per_cpu_sums:
  "read_op_lat lookup n = map (bucket_sum lookup (stat_cpus n)) [0..<32]
   \<and> read_wakeup_total lookup' n = (case lookup' 0 of None \<Rightarrow> 0
       | Some raw \<Rightarrow> (\<Sum>cpu\<in>{..<stat_cpus n}. slot_at raw (cpu * 16)))"
proof
  have "j div 8 < 4" if "j < 32" for j :: nat using that by auto
  then show "read_op_lat lookup n = map (bucket_sum lookup (stat_cpus n)) [0..<32]"
    by (simp add: read_op_lat_def MLFQ_OP_LAT_OPS_def MLFQ_OP_LAT_BUCKETS_def read_ops)
  have "fold (\<lambda>cpu total. total + slot_at raw (cpu * 16)) [0..<m] 0 = (\<Sum>cpu<m. slot_at raw (cpu * 16))"
    for raw m
    by (induction m) simp_all
  then show "read_wakeup_total lookup' n = (case lookup' 0 of None \<Rightarrow> 0
       | Some raw \<Rightarrow> (\<Sum>cpu\<in>{..<stat_cpus n}. slot_at raw (cpu * 16)))"
    by (simp add: read_wakeup_total_def split: option.split)
qed

lemma length_read_op_lat: "length (read_op_lat lookup n) = 32"
proof -
  have "length (fold (\<lambda>op buf. case lookup (of_nat op) of None \<Rightarrow> buf | Some raw \<Rightarrow> add_op op raw m buf)
      ops buf) = length buf" for m buf and ops :: "nat list"
    by (induction ops arbitrary: buf) (auto simp: add_op_nth split: option.splits)
  then show ?thesis by (simp add: read_op_lat_def MLFQ_OP_LAT_OPS_def MLFQ_OP_LAT_BUCKETS_def)
qed

section \<open>The entries of a web snapshot\<close>

text \<open>The seed of a CPU: the last static entry that carries its id.\<close>

definition seed_of :: "per_cpu_metrics list \<Rightarrow> nat \<Rightarrow> per_cpu_metrics option" where
  "seed_of statics cpu = find (\<lambda>s. unat (pc_id s) = cpu) (rev statics)"

lemma seed_statics_nth: "seed_statics nr statics = map (seed_of statics) [0..<nr]"
proof (induction statics rule: rev_induct)
  case Nil
  show ?case by (simp add: seed_statics_def seed_of_def map_replicate_const)
next
  case (snoc s statics)
  then show ?case
    by (auto simp: seed_statics_def seed_of_def nth_list_update intro!: nth_equalityI)
qed

text \<open>
  A web snapshot has one entry for every CPU the kernel reports, 1024 at most, in order. The
  entry keeps the frequency limit, the cache domain and the sibling flag of the CPU's seed (the
  defaults without one), and shows the queue, the pid, the submit count and the realtime flag of the
  CPU's own map entries, or zeros where the lookup fails.
\<close>

theorem web_snapshot_entries:
  "map (\<lambda>e. (pc_id e, freq_khz e, pc_llc_id e, smt e)) (wm_per_cpu (fst (get_web_metrics now env d w)))
     = map (\<lambda>cpu. let s = unwrap_or (seed_of (cpu_static w) cpu) per_cpu_default
                  in (of_nat cpu, freq_khz s, pc_llc_id s, smt s)) [0..<min (nr_cpu_ids env) MLFQ_MAX_CPUS]
   \<and> map (\<lambda>e. (pc_running_queue e, pc_running_pid e, pc_running_gpu_submit e, rt_occupied e))
       (wm_per_cpu (fst (get_web_metrics now env d w)))
     = map (\<lambda>cpu. let c = unwrap_or (cpu_state_lookup env (of_nat cpu)) cpu_state_zero;
                      r = unwrap_or (rtdl_lookup env (of_nat cpu)) rtdl_state_zero
                  in (running_queue c, running_pid c, running_gpu_submit c, bit (rt_flags r) 0))
       [0..<min (nr_cpu_ids env) MLFQ_MAX_CPUS]"
proof -
  have s: "cpu_static (refresh_freq now env w) = cpu_static w" by (simp add: refresh_freq_def)
  have b: "(x AND MLFQ_RTDL_OCCUPIED \<noteq> 0) = bit x 0" for x :: u32
    by (simp add: MLFQ_RTDL_OCCUPIED_def and_one_eq bit_0 odd_iff_mod_2_eq_one)
  let ?nr = "min (nr_cpu_ids env) MLFQ_MAX_CPUS"
  have "wm_per_cpu (fst (get_web_metrics now env d w))
    = map (\<lambda>cpu. merge_cpu env (cached_freq (refresh_freq now env w)) cpu (seed_of (cpu_static w) cpu)) [0..<?nr]"
    by (intro nth_equalityI) (simp_all add: get_web_metrics_def Let_def seed_statics_nth s nth_enumerate_eq)
  then show ?thesis
    by (auto simp: merge_cpu_def Let_def read_cpu_state_def read_rtdl_state_def b)
qed

end
