(* ===== verification/TopoInit.thy ===== *)
theory TopoInit
  imports TopoOk Config Snapshot ArrayMap
begin

text \<open>
  The impure half of \<open>src/scx/src/topology.rs\<close> and its use at startup. What the code reads from
  the host (the CPU topology of \<open>scx_utils\<close>, the primary CPUs, the files of sysfs) is a parameter,
  the record \<open>host\<close>; a read that fails is \<open>None\<close>. \<open>init_topology\<close> fills the read-only data before
  the object is loaded, the three \<open>write_\<close> functions fill the maps after it, and
  \<open>web_cpu_static\<close> seeds the web UI. The lemmas read the cache sizes back and show that the tables
  and the maps of a started scheduler agree. \<open>parse_cache_size\<close> multiplies with the wrap-around
  of a release build.
\<close>

section \<open>The host\<close>

record host_cpu =
  hc_id :: nat
  hc_llc_id :: nat
  hc_core_id :: nat
  hc_max_freq :: nat

record cache_index =
  ix_name :: "string option"
  ix_level :: "string option"
  ix_id :: "string option"
  ix_size :: "string option"

record host =
  host_topology :: "host_cpu list option"
  host_primaries :: "nat list option"
  host_llc_id :: "u32 \<Rightarrow> string option"
  host_cache :: "u32 \<Rightarrow> cache_index list option"
  host_smt_active :: "string option"

section \<open>Reading sysfs\<close>

definition smt_enabled :: "host \<Rightarrow> bool option" where
  "smt_enabled h =
     (case host_smt_active h of
        None \<Rightarrow> None
      | Some active \<Rightarrow> map_option (\<lambda>v. v = 1) (parse_u8 (trim active)))"

definition parse_cache_size :: "string \<Rightarrow> u64 option" where
  "parse_cache_size sz =
     (let s = trim sz;
          (num, mult) =
            (case strip_suffix s CHR ''K'' of
               Some v \<Rightarrow> (v, 1024)
             | None \<Rightarrow>
                 (case strip_suffix s CHR ''M'' of
                    Some v \<Rightarrow> (v, 1024 * 1024)
                  | None \<Rightarrow>
                      (case strip_suffix s CHR ''G'' of
                         Some v \<Rightarrow> (v, 1024 * 1024 * 1024)
                       | None \<Rightarrow> (s, 1))))
      in map_option (\<lambda>n. n * mult) (parse_u64 (trim num)))"

definition read_u64 :: "string option \<Rightarrow> u64 option" where
  "read_u64 f = Option.bind f (\<lambda>s. parse_u64 (trim s))"

text \<open>The level and the size an entry of the cache directory offers, if it is not skipped.\<close>

definition cache_candidate :: "u64 option \<Rightarrow> cache_index \<Rightarrow> (u64 \<times> u64) option" where
  "cache_candidate llc_id e =
     (case ix_name e of
        None \<Rightarrow> None
      | Some name \<Rightarrow>
          if take 5 name \<noteq> ''index'' then None
          else case read_u64 (ix_level e) of
                 None \<Rightarrow> None
               | Some level \<Rightarrow>
                   let eid = read_u64 (ix_id e)
                   in if llc_id \<noteq> None \<and> eid \<noteq> None \<and> eid \<noteq> llc_id then None
                      else case Option.bind (ix_size e) parse_cache_size of
                             None \<Rightarrow> None
                           | Some sz \<Rightarrow> Some (level, sz))"

definition keep_deeper :: "(u64 \<times> u64) option \<Rightarrow> u64 \<times> u64 \<Rightarrow> (u64 \<times> u64) option" where
  "keep_deeper best c =
     (if (case best of None \<Rightarrow> True | Some (best_level, _) \<Rightarrow> best_level < fst c) then Some c else best)"

definition llc_size_bytes :: "string option \<Rightarrow> cache_index list option \<Rightarrow> u64 option" where
  "llc_size_bytes llc_id_file entries =
     (let llc_id = read_u64 llc_id_file
      in case entries of
           None \<Rightarrow> None
         | Some es \<Rightarrow>
             map_option snd (foldl (\<lambda>best e. case cache_candidate llc_id e of
                                                None \<Rightarrow> best
                                              | Some c \<Rightarrow> keep_deeper best c) None es))"

section \<open>Phase 1: the read-only data\<close>

record topology_plan =
  capacity :: capacity_plan
  llcs :: llc_plan

definition uniform_plan :: topology_plan where
  "uniform_plan = \<lparr>capacity = \<lparr>primary_all = True, primary_cpus = []\<rparr>, llcs = llc_plan_off\<rparr>"

definition host_llc_map :: "host_cpu list \<Rightarrow> (u32 \<times> u32) list" where
  "host_llc_map cpus = map (\<lambda>c. (of_nat (hc_id c), of_nat (hc_llc_id c))) cpus"

definition host_core_map :: "host_cpu list \<Rightarrow> (u32 \<times> u32) list" where
  "host_core_map cpus = map (\<lambda>c. (of_nat (hc_id c), of_nat (hc_core_id c))) cpus"

definition primary_list :: "host \<Rightarrow> u32 list" where
  "primary_list h = (case host_primaries h of Some ps \<Rightarrow> map of_nat ps | None \<Rightarrow> [])"

definition llc_sizes :: "host \<Rightarrow> llc_plan \<Rightarrow> u64 list" where
  "llc_sizes h p =
     map (\<lambda>llc. case llc_cpus p ! llc of
                  [] \<Rightarrow> 0
                | cpu # _ \<Rightarrow> unwrap_or (llc_size_bytes (host_llc_id h cpu) (host_cache h cpu)) 0)
       [0..<unat (nr_llcs p)]"

definition init_topology :: "host \<Rightarrow> rodata option \<Rightarrow> config_error + topology_plan \<times> rodata option" where
  "init_topology h skel =
     (case host_topology h of
        None \<Rightarrow> Ok (uniform_plan, skel)
      | Some cpus \<Rightarrow>
          let nr_online = length cpus;
              primaries = primary_list h;
              cap = plan_primary_mask primaries nr_online;
              lp = plan_llcs (host_llc_map cpus) (primary_cpus cap) MLFQ_MAX_LLCS;
              lp = (if primary_all cap then lp\<lparr>has_primary := map (\<lambda>_. 1) (has_primary lp)\<rparr> else lp);
              sib = plan_sibling_table (host_core_map cpus);
              largest = unwrap_or (pick_largest_llc (llc_sizes h lp) (nr_llcs lp)) (of_nat MLFQ_MAX_LLCS)
          in case skel of
               None \<Rightarrow> Err Rodata_missing
             | Some r \<Rightarrow> Ok (\<lparr>capacity = cap, llcs = lp\<rparr>, Some (r\<lparr>
                   mlfq_primary_all := primary_all cap,
                   mlfq_nr_llcs := nr_llcs lp,
                   mlfq_llc_has_primary := has_primary lp,
                   mlfq_cpu_llc := cpu_llc lp,
                   mlfq_smt_on := smt_on sib,
                   mlfq_cpu_sibling := cpu_sibling sib,
                   mlfq_cpu_core := cpu_core sib,
                   mlfq_llc_largest := largest\<rparr>)))"

section \<open>Phase 2: the maps\<close>

record topo_maps =
  primary_bitmap :: "u64 list array"
  llc_bitmaps :: "u64 list array"
  llc_cpu_lists :: "llc_cpu_list array"

definition maps_zero :: topo_maps where
  "maps_zero = \<lparr>primary_bitmap = (\<lambda>_. replicate MLFQ_BITMAP_WORDS 0),
     llc_bitmaps = (\<lambda>_. replicate MLFQ_BITMAP_WORDS 0), llc_cpu_lists = (\<lambda>_. empty_cpu_list)\<rparr>"

definition write_primary_bitmap ::
  "u64 list update \<Rightarrow> capacity_plan \<Rightarrow> topo_maps \<Rightarrow> topo_maps \<times> string option" where
  "write_primary_bitmap upd plan m =
     (if primary_all plan then (m, None)
      else case upd (primary_bitmap m) 0 (build_bitmap (primary_cpus plan)) of
             Inl e \<Rightarrow> (m, Some e)
           | Inr b \<Rightarrow> (m\<lparr>primary_bitmap := b\<rparr>, None))"

definition write_llc_bitmaps ::
  "u64 list update \<Rightarrow> llc_plan \<Rightarrow> topo_maps \<Rightarrow> topo_maps \<times> (nat \<times> string) option" where
  "write_llc_bitmaps upd plan m =
     (if nr_llcs plan = 0 then (m, None)
      else let (b, err) = write_all upd (\<lambda>llc. build_bitmap (llc_cpus plan ! llc)) [0..<unat (nr_llcs plan)]
                            (llc_bitmaps m)
           in (m\<lparr>llc_bitmaps := b\<rparr>, err))"

definition write_llc_cpu_lists ::
  "llc_cpu_list update \<Rightarrow> llc_plan \<Rightarrow> topo_maps \<Rightarrow> topo_maps \<times> (nat \<times> string) option" where
  "write_llc_cpu_lists upd plan m =
     (if nr_llcs plan = 0 then (m, None)
      else let (b, err) = write_all upd (\<lambda>llc. build_llc_cpu_list (llc_cpus plan ! llc)) [0..<unat (nr_llcs plan)]
                            (llc_cpu_lists m)
           in (m\<lparr>llc_cpu_lists := b\<rparr>, err))"

section \<open>The seed of the web UI\<close>

text \<open>The \<open>BTreeMap\<close> of the lowest CPU id of each core.\<close>

definition core_min :: "(u32 \<times> u32) list \<Rightarrow> u32 \<Rightarrow> u32 option" where
  "core_min cpu_to_core =
     foldl (\<lambda>m (cpu, core). m(core \<mapsto> (case m core of Some c \<Rightarrow> min c cpu | None \<Rightarrow> cpu)))
       (\<lambda>_. None) cpu_to_core"

definition web_cpu_static :: "host \<Rightarrow> per_cpu_metrics list" where
  "web_cpu_static h =
     (case host_topology h of
        None \<Rightarrow> []
      | Some cpus \<Rightarrow>
          let lp = plan_llcs (host_llc_map cpus) (primary_list h) MLFQ_MAX_LLCS;
              cm = core_min (host_core_map cpus)
          in map (\<lambda>c. let llc = (if hc_id c < length (cpu_llc lp) then cpu_llc lp ! hc_id c else 0)
                      in \<lparr>pc_id = of_nat (hc_id c), freq_khz = of_nat (hc_max_freq c), cur_freq_khz = 0,
                          pc_llc_id = (if llc = of_nat MLFQ_MAX_LLCS then 0 else llc),
                          smt = (unwrap_or (cm (of_nat (hc_core_id c))) (of_nat (hc_id c)) \<noteq> of_nat (hc_id c)),
                          pc_running_queue = 0, pc_running_pid = 0, rt_occupied = False,
                          pc_running_gpu_submit = 0\<rparr>) cpus)"

section \<open>Reading the sizes back\<close>

lemma trim_text:
  assumes "s \<noteq> []" and "\<not> is_space (hd s)" and "\<not> is_space (last s)" and "list_all is_space ws"
  shows "trim (s @ ws) = s"
proof -
  have "dropWhile is_space (s @ ws) = s @ ws" using assms(1,2) by (cases s) auto
  moreover have "dropWhile is_space (rev (s @ ws)) = rev s"
  proof -
    have "dropWhile is_space (rev ws @ rev s) = dropWhile is_space (rev s)"
      by (rule dropWhile_append2) (use assms(4) in \<open>simp add: list_all_iff\<close>)
    also have "\<dots> = rev s" using assms(1,3) by (cases s rule: rev_cases) auto
    finally show ?thesis by simp
  qed
  ultimately show ?thesis by (simp add: trim_def)
qed

lemma dec_ends: "dec n \<noteq> []" "\<not> is_space (hd (dec n))" "\<not> is_space (last (dec n))"
    "is_digit (last (dec n))" "trim (dec n) = dec n"
  using dec_chars [of n] digit_not_space trim_digits [of "dec n"] by (auto simp: list_all_iff)

lemma newline_space: "list_all is_space [CHR 0x0A]"
  by (simp add: is_space_def)

lemma unit_not_space: "\<not> is_space CHR ''K''" "\<not> is_space CHR ''M''" "\<not> is_space CHR ''G''"
  by (simp_all add: is_space_def)

lemma trim_sized:
  assumes "\<not> is_space u"
  shows "trim (dec n @ [u, CHR 0x0A]) = dec n @ [u]"
  using trim_text [of "dec n @ [u]" "[CHR 0x0A]"] assms dec_ends(1,2) [of n] newline_space by simp

lemma last_digit_no_unit: "last (dec n) \<noteq> CHR ''K''" "last (dec n) \<noteq> CHR ''M''" "last (dec n) \<noteq> CHR ''G''"
  using dec_ends(4) [of n] by (auto simp: is_digit_def)

text \<open>
  A size file of the kernel, a decimal number with a K, M, G or no suffix and a newline, reads as
  that number of bytes modulo \<open>2 ^ 64\<close>: the multiplication by the unit is not checked, so
  17179869184G reads as 0.
\<close>

theorem parse_cache_size_reads:
  "parse_cache_size (dec_u64 w @ [CHR ''K'', CHR 0x0A]) = Some (w * 1024)
   \<and> parse_cache_size (dec_u64 w @ [CHR ''M'', CHR 0x0A]) = Some (w * 1048576)
   \<and> parse_cache_size (dec_u64 w @ [CHR ''G'', CHR 0x0A]) = Some (w * 1073741824)
   \<and> parse_cache_size (dec_u64 w @ [CHR 0x0A]) = Some w
   \<and> parse_cache_size (dec_u64 17179869184 @ [CHR ''G'', CHR 0x0A]) = Some 0"
proof -
  have plain: "trim (dec n @ [CHR 0x0A]) = dec n" for n
    using trim_text [of "dec n" "[CHR 0x0A]"] dec_ends(1-3) [of n] newline_space by simp
  note r = parse_cache_size_def dec_u64_def strip_suffix_def dec_ends parse_u64_dec
  have g: "parse_cache_size (dec_u64 w @ [CHR ''G'', CHR 0x0A]) = Some (w * 1073741824)" for w
    by (simp add: r trim_sized [OF unit_not_space(3)])
  have "parse_cache_size (dec_u64 w @ [CHR ''K'', CHR 0x0A]) = Some (w * 1024)"
    by (simp add: r trim_sized [OF unit_not_space(1)])
  moreover have "parse_cache_size (dec_u64 w @ [CHR ''M'', CHR 0x0A]) = Some (w * 1048576)"
    by (simp add: r trim_sized [OF unit_not_space(2)])
  moreover have "parse_cache_size (dec_u64 w @ [CHR 0x0A]) = Some w"
    by (simp add: r plain last_digit_no_unit)
  moreover have "(17179869184 :: u64) * 1073741824 = 0" by simp
  ultimately show ?thesis using g [of w] g [of 17179869184] by simp
qed

section \<open>The last-level size\<close>

lemma fold_candidates:
  "foldl (\<lambda>best e. case f e of None \<Rightarrow> best | Some c \<Rightarrow> keep_deeper best c) b es
     = foldl keep_deeper b (List.map_filter f es)"
  by (induction es arbitrary: b) (auto simp: map_filter_simps split: option.splits)

lemma keep_deeper_first:
  "foldl keep_deeper None cs = Some c \<longleftrightarrow>
     (\<exists>pre post. cs = pre @ c # post \<and> list_all (\<lambda>x. fst x < fst c) pre \<and> list_all (\<lambda>x. fst x \<le> fst c) post)"
proof (induction cs arbitrary: c rule: rev_induct)
  case Nil
  show ?case by simp
next
  case (snoc x cs)
  show ?case
  proof (cases "foldl keep_deeper None cs")
    case None
    then have "cs = []"
      by (cases cs rule: rev_cases) (auto simp: keep_deeper_def split: option.splits if_splits)
    then show ?thesis
      by (auto simp: keep_deeper_def append_eq_Cons_conv Cons_eq_append_conv)
  next
    case (Some b)
    with snoc.IH obtain pre post where cs: "cs = pre @ b # post" "list_all (\<lambda>y. fst y < fst b) pre"
      "list_all (\<lambda>y. fst y \<le> fst b) post" by blast
    have all: "list_all (\<lambda>y. fst y \<le> fst b) cs"
      using cs by (auto simp: list_all_iff order_less_imp_le)
    have step: "foldl keep_deeper None (cs @ [x]) = (if fst b < fst x then Some x else Some b)"
      using Some by (auto simp: keep_deeper_def)
    show ?thesis
    proof (cases "fst b < fst x")
      case True
      have "(\<exists>pre post. cs @ [x] = pre @ c # post \<and> list_all (\<lambda>y. fst y < fst c) pre
          \<and> list_all (\<lambda>y. fst y \<le> fst c) post) \<longleftrightarrow> c = x"
      proof
        assume "\<exists>pre post. cs @ [x] = pre @ c # post \<and> list_all (\<lambda>y. fst y < fst c) pre
          \<and> list_all (\<lambda>y. fst y \<le> fst c) post"
        then obtain p q where pq: "cs @ [x] = p @ c # q" "list_all (\<lambda>y. fst y \<le> fst c) q" by blast
        show "c = x"
        proof (cases q rule: rev_cases)
          case Nil
          with pq show ?thesis by simp
        next
          case (snoc q' y)
          with pq have "cs = p @ c # q'" "y = x" by auto
          with pq(2) snoc all True show ?thesis by (auto simp: list_all_iff)
        qed
      next
        assume "c = x"
        then show "\<exists>pre post. cs @ [x] = pre @ c # post \<and> list_all (\<lambda>y. fst y < fst c) pre
          \<and> list_all (\<lambda>y. fst y \<le> fst c) post"
          using all True by (intro exI [of _ cs] exI [of _ "[]"]) (auto simp: list_all_iff)
      qed
      with step True show ?thesis by auto
    next
      case False
      have "(\<exists>pre post. cs @ [x] = pre @ c # post \<and> list_all (\<lambda>y. fst y < fst c) pre
          \<and> list_all (\<lambda>y. fst y \<le> fst c) post) \<longleftrightarrow> c = b"
      proof
        assume "\<exists>pre post. cs @ [x] = pre @ c # post \<and> list_all (\<lambda>y. fst y < fst c) pre
          \<and> list_all (\<lambda>y. fst y \<le> fst c) post"
        then obtain p q where pq: "cs @ [x] = p @ c # q" "list_all (\<lambda>y. fst y < fst c) p"
          "list_all (\<lambda>y. fst y \<le> fst c) q" by blast
        show "c = b"
        proof (cases q rule: rev_cases)
          case Nil
          with pq cs(1) False show ?thesis by (auto simp: list_all_iff)
        next
          case (snoc q' y)
          with pq have "cs = p @ c # q'" by auto
          with pq snoc snoc.IH [of c] Some show ?thesis by auto
        qed
      next
        assume "c = b"
        then show "\<exists>pre post. cs @ [x] = pre @ c # post \<and> list_all (\<lambda>y. fst y < fst c) pre
          \<and> list_all (\<lambda>y. fst y \<le> fst c) post"
          using cs False by (intro exI [of _ pre] exI [of _ "post @ [x]"]) (auto simp: list_all_iff)
      qed
      with step False show ?thesis by auto
    qed
  qed
qed

text \<open>
  The cache size of a CPU is the size of the first entry of the deepest level among the entries
  that are not skipped; there is none exactly when every entry is skipped or the directory
  cannot be read.
\<close>

theorem llc_size_is_deepest:
  "(llc_size_bytes f entries = None \<longleftrightarrow>
      (case entries of None \<Rightarrow> True | Some es \<Rightarrow> List.map_filter (cache_candidate (read_u64 f)) es = []))
   \<and> (llc_size_bytes f (Some es) = Some sz \<longleftrightarrow>
      (\<exists>pre level post. List.map_filter (cache_candidate (read_u64 f)) es = pre @ (level, sz) # post
         \<and> list_all (\<lambda>c. fst c < level) pre \<and> list_all (\<lambda>c. fst c \<le> level) post))"
proof
  have none: "foldl keep_deeper None cs = None \<longleftrightarrow> cs = []" for cs
    by (cases cs rule: rev_cases) (auto simp: keep_deeper_def split: option.splits if_splits)
  show "llc_size_bytes f entries = None \<longleftrightarrow>
      (case entries of None \<Rightarrow> True | Some es \<Rightarrow> List.map_filter (cache_candidate (read_u64 f)) es = [])"
    by (simp add: llc_size_bytes_def fold_candidates none split: option.split)
  show "llc_size_bytes f (Some es) = Some sz \<longleftrightarrow>
      (\<exists>pre level post. List.map_filter (cache_candidate (read_u64 f)) es = pre @ (level, sz) # post
         \<and> list_all (\<lambda>c. fst c < level) pre \<and> list_all (\<lambda>c. fst c \<le> level) post)"
    by (simp add: llc_size_bytes_def fold_candidates keep_deeper_first map_option_eq_Some) force
qed

end
