(* ===== verification/TopoTables.thy ===== *)
theory TopoTables
  imports TopoInit
begin

text \<open>
  The tables of the read-only data are indexed by the BPF side without another check, so their
  shape is what the verifier and the programs rely on: every table has its declared length, and
  every entry is an index of the table it points into, or its sentinel. The lemmas show that
  the topology step keeps the shape on every host.
\<close>

section \<open>Shape\<close>

definition entries_below :: "nat \<Rightarrow> u32 list \<Rightarrow> bool" where
  "entries_below n xs \<longleftrightarrow> list_all (\<lambda>x. unat x < n) xs"

definition rodata_shape :: "rodata \<Rightarrow> bool" where
  "rodata_shape r \<longleftrightarrow>
     length (mlfq_cpu_llc r) = MLFQ_MAX_CPUS \<and> entries_below (MLFQ_MAX_LLCS + 1) (mlfq_cpu_llc r)
     \<and> length (mlfq_llc_has_primary r) = MLFQ_MAX_LLCS
     \<and> unat (mlfq_nr_llcs r) \<le> MLFQ_MAX_LLCS
     \<and> length (mlfq_cpu_sibling r) = MLFQ_MAX_CPUS \<and> entries_below MLFQ_MAX_CPUS (mlfq_cpu_sibling r)
     \<and> length (mlfq_cpu_core r) = MLFQ_MAX_CPUS
     \<and> unat (mlfq_llc_largest r) \<le> MLFQ_MAX_LLCS"

lemma entries_below_update: "entries_below n xs \<Longrightarrow> unat x < n \<Longrightarrow> entries_below n (xs[i := x])"
  by (auto simp: entries_below_def list_all_iff dest: set_update_subset_insert [THEN subsetD])

section \<open>Cache domains\<close>

lemma fold_place_below:
  "list_all (\<lambda>p. unat (snd p) < n) ps \<Longrightarrow> entries_below n (fst st) \<Longrightarrow>
    entries_below n (fst (fold place_cpu ps st))"
  by (induction ps arbitrary: st) (simp_all add: place_cpu_simp entries_below_update)

lemma mark_primaries_length: "length (mark_primaries prim groups hp) = length hp"
proof -
  have "length (foldl (\<lambda>hp l. if list_ex (\<lambda>c. c \<in> set prim) (groups ! l) then hp[l := 1] else hp) hp ls)
    = length hp" for ls
    by (induction ls arbitrary: hp) simp_all
  then show ?thesis by (simp add: mark_primaries_def)
qed

lemma plan_llcs_off_eq: "nr_llcs (plan_llcs ps prim m) = 0 \<Longrightarrow> plan_llcs ps prim m = llc_plan_off"
proof -
  assume z: "nr_llcs (plan_llcs ps prim m) = 0"
  have "Max (set (map snd ps)) + 1 \<noteq> 0" if "Max (set (map snd ps)) \<noteq> u32_MAX"
  proof
    assume "Max (set (map snd ps)) + 1 = 0"
    then have "Max (set (map snd ps)) = - 1" by (simp add: eq_neg_iff_add_eq_0)
    with that show False by simp
  qed
  with z show ?thesis by (auto simp: plan_llcs_def Let_def case_prod_beta split: if_splits)
qed

lemma plan_llcs_shape:
  "length (cpu_llc (plan_llcs ps prim MLFQ_MAX_LLCS)) = MLFQ_MAX_CPUS
   \<and> entries_below (MLFQ_MAX_LLCS + 1) (cpu_llc (plan_llcs ps prim MLFQ_MAX_LLCS))
   \<and> length (has_primary (plan_llcs ps prim MLFQ_MAX_LLCS)) = MLFQ_MAX_LLCS
   \<and> unat (nr_llcs (plan_llcs ps prim MLFQ_MAX_LLCS)) \<le> MLFQ_MAX_LLCS"
proof -
  have off: "length (cpu_llc llc_plan_off) = MLFQ_MAX_CPUS" "entries_below (MLFQ_MAX_LLCS + 1) (cpu_llc llc_plan_off)"
    "length (has_primary llc_plan_off) = MLFQ_MAX_LLCS" "nr_llcs llc_plan_off = 0"
    by (simp_all add: llc_plan_off_def entries_below_def list_all_iff const_defs)
  show ?thesis
  proof (cases "nr_llcs (plan_llcs ps prim MLFQ_MAX_LLCS) = 0")
    case True
    then show ?thesis unfolding plan_llcs_off_eq [OF True] using off by simp
  next
    case False
    obtain nr st where on: "nr_llcs (plan_llcs ps prim MLFQ_MAX_LLCS) = nr" "unat nr \<le> MLFQ_MAX_LLCS" "0 < unat nr"
      "\<forall>p \<in> set ps. unat (snd p) < unat nr"
      "st = fold place_cpu ps (cpu_llc llc_plan_off, replicate (unat nr) [])"
      "cpu_llc (plan_llcs ps prim MLFQ_MAX_LLCS) = fst st" "llc_cpus (plan_llcs ps prim MLFQ_MAX_LLCS) = snd st"
      "has_primary (plan_llcs ps prim MLFQ_MAX_LLCS) = mark_primaries prim (snd st) (has_primary llc_plan_off)"
      by (rule plan_llcs_on [OF False order_refl])
    have "list_all (\<lambda>p. unat (snd p) < MLFQ_MAX_LLCS + 1) ps"
      using on(2,4) by (auto simp: list_all_iff less_Suc_eq_le)
    then have "entries_below (MLFQ_MAX_LLCS + 1) (fst st)"
      unfolding on(5) using off(2) by (intro fold_place_below) simp_all
    moreover have "length (fst st) = MLFQ_MAX_CPUS" unfolding on(5) using off(1) by (simp add: fold_place_length)
    ultimately show ?thesis using on off(3) by (simp add: mark_primaries_length)
  qed
qed

section \<open>Siblings\<close>

lemma pair_core_below:
  assumes "entries_below n (snd st)" and "entries_below n members"
  shows "entries_below n (snd (pair_core members st)) \<and> length (snd (pair_core members st)) = length (snd st)"
proof -
  let ?cpus = "remdups_adj (sort members)"
  let ?new = "\<lambda>cpu. case find (\<lambda>c. c \<noteq> cpu) ?cpus of Some c \<Rightarrow> c | None \<Rightarrow> cpu"
  have new: "unat (?new cpu) < n" if "cpu \<in> set ?cpus" for cpu
  proof (cases "find (\<lambda>c. c \<noteq> cpu) ?cpus")
    case None
    with that assms(2) show ?thesis by (simp add: entries_below_def list_all_iff)
  next
    case (Some c)
    then have "c \<in> set ?cpus" by (metis find_Some_iff nth_mem)
    with Some assms(2) show ?thesis by (simp add: entries_below_def list_all_iff)
  qed
  have "entries_below n (foldl (\<lambda>sib cpu. sib[unat cpu := ?new cpu]) sib cs)
      \<and> length (foldl (\<lambda>sib cpu. sib[unat cpu := ?new cpu]) sib cs) = length sib"
    if "set cs \<subseteq> set ?cpus" "entries_below n sib" for cs sib
    using that by (induction cs arbitrary: sib) (simp_all add: entries_below_update new)
  from this [OF order_refl assms(1)] assms(1) show ?thesis
    by (cases st) (simp add: pair_core_def Let_def)
qed

lemma core_members_below: "entries_below MLFQ_MAX_CPUS (core_members (valid_pairs xs) core)"
  by (auto simp: entries_below_def core_members_def valid_pairs_def list_all_iff)

lemma sibling_shape:
  "length (cpu_sibling (plan_sibling_table xs)) = MLFQ_MAX_CPUS
   \<and> entries_below MLFQ_MAX_CPUS (cpu_sibling (plan_sibling_table xs))
   \<and> length (cpu_core (plan_sibling_table xs)) = MLFQ_MAX_CPUS"
proof -
  let ?v = "valid_pairs xs"
  have "entries_below MLFQ_MAX_CPUS (snd (foldl (\<lambda>st core. pair_core (core_members ?v core) st) st ks))
    \<and> length (snd (foldl (\<lambda>st core. pair_core (core_members ?v core) st) st ks)) = length (snd st)"
    if "entries_below MLFQ_MAX_CPUS (snd st)" for st ks
    using that
    by (induction ks arbitrary: st) (simp_all add: pair_core_below core_members_below)
  moreover have "entries_below MLFQ_MAX_CPUS (map of_nat [0..<MLFQ_MAX_CPUS])"
    by (auto simp: entries_below_def list_all_iff const_defs unat_of_nat_u32)
  ultimately have "entries_below MLFQ_MAX_CPUS (cpu_sibling (plan_sibling_table xs))
    \<and> length (cpu_sibling (plan_sibling_table xs)) = MLFQ_MAX_CPUS"
    by (simp add: plan_sibling_table_def Let_def case_prod_beta)
  moreover have "length (foldl (\<lambda>cc (cpu, core). cc[unat cpu := core]) cc ps) = length cc" for cc and ps :: "(u32 \<times> u32) list"
    by (induction ps arbitrary: cc) (simp_all add: case_prod_beta)
  then have "length (cpu_core (plan_sibling_table xs)) = MLFQ_MAX_CPUS"
    by (simp add: plan_sibling_table_def Let_def case_prod_beta)
  ultimately show ?thesis by simp
qed

section \<open>The read-only data\<close>

lemma largest_bound:
  assumes "unat nr \<le> MLFQ_MAX_LLCS"
  shows "unat (unwrap_or (pick_largest_llc sizes nr) (of_nat MLFQ_MAX_LLCS)) \<le> MLFQ_MAX_LLCS"
proof (cases "pick_largest_llc sizes nr")
  case None
  then show ?thesis by (simp add: const_defs)
next
  case (Some l)
  let ?xs = "take (min (unat nr) (length sizes)) sizes"
  obtain i where i: "fst (scan_max (Max (set ?xs)) ?xs) = Some i" "l = of_nat i"
    using Some by (auto simp: pick_largest_llc_def Let_def case_prod_beta split: if_splits)
  from scan_max_spec [of "Max (set ?xs)" ?xs] i(1) have "i < unat nr" by simp
  then have "unat l \<le> i" unfolding i(2) by (simp add: unat_of_nat)
  with Some \<open>i < unat nr\<close> assms show ?thesis by simp
qed

text \<open>
  C36. On every host, the topology step leaves the tables of the read-only data in shape: the declared
  lengths, domains below the number of domains the maps hold or the sentinel, siblings that are
  CPU ids, and a largest domain that is a domain or the sentinel.
\<close>

theorem topology_tables_shape:
  assumes "rodata_shape r" and "init_topology h (Some r) = Ok (plan, Some r')"
  shows "rodata_shape r'"
proof (cases "host_topology h")
  case None
  with assms show ?thesis by (simp add: init_topology_def)
next
  case (Some cpus)
  let ?lp = "plan_llcs (host_llc_map cpus) (primary_cpus (plan_primary_mask (primary_list h) (length cpus))) MLFQ_MAX_LLCS"
  obtain lp where lp: "mlfq_cpu_llc r' = cpu_llc ?lp" "length (mlfq_llc_has_primary r') = length (has_primary ?lp)"
    "mlfq_nr_llcs r' = nr_llcs ?lp" "mlfq_cpu_sibling r' = cpu_sibling (plan_sibling_table (host_core_map cpus))"
    "mlfq_cpu_core r' = cpu_core (plan_sibling_table (host_core_map cpus))"
    "mlfq_llc_largest r' = unwrap_or (pick_largest_llc (llc_sizes h lp) (nr_llcs ?lp)) (of_nat MLFQ_MAX_LLCS)"
    using assms(2) Some by (auto simp: init_topology_def Let_def split: if_splits)
  show ?thesis
    using plan_llcs_shape sibling_shape largest_bound unfolding rodata_shape_def lp by simp
qed

definition zero_tables :: "rodata \<Rightarrow> rodata" where
  "zero_tables r = r\<lparr>mlfq_nr_llcs := 0, mlfq_llc_has_primary := replicate MLFQ_MAX_LLCS 0,
     mlfq_cpu_llc := replicate MLFQ_MAX_CPUS 0, mlfq_cpu_sibling := replicate MLFQ_MAX_CPUS 0,
     mlfq_cpu_core := replicate MLFQ_MAX_CPUS 0, mlfq_llc_largest := 0\<rparr>"

definition no_topology_host :: host where
  "no_topology_host = \<lparr>host_topology = None, host_primaries = None, host_llc_id = (\<lambda>_. None),
     host_cache = (\<lambda>_. None), host_smt_active = None\<rparr>"

definition one_core_host :: host where
  "one_core_host = no_topology_host\<lparr>host_topology :=
     Some [\<lparr>hc_id = 0, hc_llc_id = 0, hc_core_id = 0, hc_max_freq = 4800\<rparr>,
           \<lparr>hc_id = 1, hc_llc_id = 0, hc_core_id = 0, hc_max_freq = 4800\<rparr>]\<rparr>"

theorem topology_tables_shape_witness:
  "\<forall>r. \<exists>plan r'. init_topology one_core_host (Some (zero_tables r)) = Ok (plan, Some r') \<and> rodata_shape r'"
proof
  fix r
  have s: "rodata_shape (zero_tables r)"
    by (simp add: rodata_shape_def zero_tables_def entries_below_def list_all_iff const_defs)
  obtain plan r' where i: "init_topology one_core_host (Some (zero_tables r)) = Ok (plan, Some r')"
    by (simp add: init_topology_def one_core_host_def no_topology_host_def Let_def)
  from i topology_tables_shape [OF s i]
  show "\<exists>plan r'. init_topology one_core_host (Some (zero_tables r)) = Ok (plan, Some r') \<and> rodata_shape r'"
    by blast
qed

section \<open>The seed of the web UI\<close>

lemma core_min_spec:
  "core_min ps core = (let cs = {cpu. (cpu, core) \<in> set ps} in if cs = {} then None else Some (Min cs))"
proof (induction ps rule: rev_induct)
  case Nil
  then show ?case by (simp add: core_min_def)
next
  case (snoc p ps)
  obtain cpu k where p: "p = (cpu, k)" by force
  have fin: "finite {c. (c, core) \<in> set ps}"
    by (rule finite_subset [of _ "fst ` set ps"]) force+
  have cs: "{c. (c, core) \<in> set (ps @ [p])} = (if k = core then insert cpu {c. (c, core) \<in> set ps}
      else {c. (c, core) \<in> set ps})"
    by (auto simp: p)
  have step: "core_min (ps @ [p]) = (core_min ps)(k \<mapsto> (case core_min ps k of Some c \<Rightarrow> min c cpu | None \<Rightarrow> cpu))"
    by (simp add: core_min_def p)
  show ?case
    unfolding cs step using snoc fin by (auto simp: Let_def min.commute)
qed

definition lower_sibling :: "host_cpu list \<Rightarrow> host_cpu \<Rightarrow> bool" where
  "lower_sibling cpus c \<longleftrightarrow>
     list_ex (\<lambda>d. (of_nat (hc_core_id d) :: u32) = of_nat (hc_core_id c)
                 \<and> (of_nat (hc_id d) :: u32) < of_nat (hc_id c)) cpus"

lemma core_min_smt:
  assumes "c \<in> set cpus"
  shows "unwrap_or (core_min (host_core_map cpus) (of_nat (hc_core_id c))) (of_nat (hc_id c)) \<noteq> of_nat (hc_id c)
    \<longleftrightarrow> lower_sibling cpus c"
proof -
  let ?id = "of_nat (hc_id c) :: u32"
  define cs :: "u32 set" where "cs = {cpu. (cpu, of_nat (hc_core_id c)) \<in> set (host_core_map cpus)}"
  have cs: "cs = (\<lambda>d. of_nat (hc_id d)) ` {d \<in> set cpus. (of_nat (hc_core_id d) :: u32) = of_nat (hc_core_id c)}"
    by (auto simp: cs_def host_core_map_def)
  then have fin: "finite cs" and m: "?id \<in> cs" using assms by auto
  have "Min cs \<noteq> ?id \<longleftrightarrow> (\<exists>x \<in> cs. x < ?id)"
  proof
    assume "Min cs \<noteq> ?id"
    with Min_le [OF fin m] have "Min cs < ?id" by simp
    with Min_in [OF fin] m show "\<exists>x \<in> cs. x < ?id" by blast
  next
    assume "\<exists>x \<in> cs. x < ?id"
    then obtain x where "x \<in> cs" "x < ?id" by blast
    with Min_le [OF fin] show "Min cs \<noteq> ?id" by force
  qed
  moreover have "(\<exists>x \<in> cs. x < ?id) \<longleftrightarrow> lower_sibling cpus c"
    unfolding cs lower_sibling_def list_ex_iff by blast
  moreover have "core_min (host_core_map cpus) (of_nat (hc_core_id c)) = Some (Min cs)"
    using m by (auto simp: core_min_spec Let_def simp flip: cs_def)
  ultimately show ?thesis by simp
qed

text \<open>
  The seed of the web UI has one entry for every CPU of the host, in order, and marks a CPU as an
  SMT thread exactly when a lower CPU shares its core: the lowest thread of a core is never marked.
\<close>

theorem web_cpu_static_smt:
  "case host_topology h of
     None \<Rightarrow> web_cpu_static h = []
   | Some cpus \<Rightarrow> map (\<lambda>m. (pc_id m, smt m)) (web_cpu_static h)
       = map (\<lambda>c. (of_nat (hc_id c), lower_sibling cpus c)) cpus"
  by (auto simp: web_cpu_static_def Let_def core_min_smt split: option.split)

end
