(* ===== verification/WebHttp.thy ===== *)
theory WebHttp
  imports Stats
begin

text \<open>
  The two HTTP front ends of \<open>src/scx/src/webui.rs\<close>: the handler of the unix socket, which writes
  the bytes of its response itself, and the route table of the TCP server, which hands the
  response to \<open>tiny_http\<close>. A request line is ASCII and the page and the JSON text are byte strings; the
  serializer \<open>serde_json\<close> is a parameter. A small HTTP client reads the bytes of the unix handler
  back, and the lemmas show that both front ends serve the same answers.
\<close>

section \<open>Text\<close>

abbreviation CR :: char where "CR \<equiv> CHR 0x0D"
abbreviation LF :: char where "LF \<equiv> CHR 0x0A"

text \<open>\<open>read_line\<close>: up to and with the first line feed, or to the end of the stream.\<close>

fun read_line :: "string \<Rightarrow> string" where
  "read_line [] = []"
| "read_line (c # cs) = (if c = LF then [c] else c # read_line cs)"

section \<open>The body of \<open>/api/stats\<close>\<close>

record 'j serde =
  to_value_metrics :: "metrics \<Rightarrow> 'j option"
  to_value_per_cpu :: "per_cpu_metrics list \<Rightarrow> 'j option"
  json_u64s :: "u64 list \<Rightarrow> 'j"
  json_u64 :: "u64 \<Rightarrow> 'j"
  json_u32 :: "u32 \<Rightarrow> 'j"
  json_null :: 'j
  json_object :: "(string \<times> 'j) list \<Rightarrow> 'j"
  json_to_string :: "'j \<Rightarrow> string option"

definition stats_body :: "'j serde \<Rightarrow> web_metrics \<Rightarrow> string" where
  "stats_body sd m =
     (let stats = unwrap_or (to_value_metrics sd (wm_stats m)) (json_null sd);
          per_cpu = unwrap_or (to_value_per_cpu sd (wm_per_cpu m)) (json_null sd);
          merged = json_object sd [
            (''stats'', stats),
            (''per_cpu'', per_cpu),
            (''queue_runnable'', json_u64s sd (wm_queue_runnable m)),
            (''llc_runnable'', json_u64s sd (wm_llc_runnable m)),
            (''gpu_submit_total'', json_u64 sd (wm_gpu_submit_total m)),
            (''gpu_trace_mask'', json_u32 sd (wm_gpu_trace_mask m))]
      in unwrap_or (json_to_string sd merged) ''{}'')"

section \<open>The unix socket\<close>

definition http_ok :: "string \<Rightarrow> nat \<Rightarrow> string" where
  "http_ok content_type len =
     ''HTTP/1.1 200 OK'' @ [CR, LF] @ ''Content-Type: '' @ content_type @ [CR, LF]
       @ ''Content-Length: '' @ dec len @ [CR, LF] @ ''Cache-Control: no-store'' @ [CR, LF]
       @ ''Connection: close'' @ [CR, LF] @ [CR, LF]"

definition http_404 :: string where
  "http_404 = ''HTTP/1.1 404 Not Found'' @ [CR, LF] @ ''Content-Length: 0'' @ [CR, LF] @ [CR, LF]"

text \<open>
  What the handler writes: nothing when the stream cannot be cloned, the line cannot be read,
  it has fewer than two words, or the state is poisoned.
\<close>

definition unix_handle_client ::
  "'j serde \<Rightarrow> bool \<Rightarrow> string option \<Rightarrow> web_metrics option \<Rightarrow> string \<Rightarrow> string" where
  "unix_handle_client sd cloned input state html =
     (if \<not> cloned then []
      else case input of
        None \<Rightarrow> []
      | Some bytes \<Rightarrow>
          let parts = split_whitespace (read_line bytes)
          in if length parts < 2 then []
             else let path = parts ! 1
             in case state of
                  None \<Rightarrow> []
                | Some metrics \<Rightarrow>
                    if path = ''/'' then http_ok ''text/html; charset=utf-8'' (length html) @ html
                    else if path = ''/api/stats''
                      then let body = stats_body sd metrics in http_ok ''application/json'' (length body) @ body
                    else http_404)"

section \<open>The TCP server\<close>

record response =
  rs_status :: nat
  rs_content_type :: "string option"
  rs_cache :: "string option"
  rs_body :: string

definition tcp_route :: "'j serde \<Rightarrow> string \<Rightarrow> web_metrics \<Rightarrow> string \<Rightarrow> response" where
  "tcp_route sd url metrics html =
     (if url = ''/''
      then \<lparr>rs_status = 200, rs_content_type = Some ''text/html; charset=utf-8'',
            rs_cache = Some ''no-store'', rs_body = html\<rparr>
      else if url = ''/api/stats''
      then \<lparr>rs_status = 200, rs_content_type = Some ''application/json'', rs_cache = Some ''no-store'',
            rs_body = stats_body sd metrics\<rparr>
      else \<lparr>rs_status = 404, rs_content_type = None, rs_cache = None, rs_body = []\<rparr>)"

section \<open>A client\<close>

text \<open>The text before the first CR LF, and what follows it.\<close>

fun cut_line :: "string \<Rightarrow> (string \<times> string) option" where
  "cut_line (c # d # s) =
     (if c = CR \<and> d = LF then Some ([], s)
      else map_option (\<lambda>(l, r). (c # l, r)) (cut_line (d # s)))"
| "cut_line _ = None"

lemma cut_line_shorter: "cut_line s = Some (l, r) \<Longrightarrow> length r < length s"
  by (induction s arbitrary: l rule: cut_line.induct) (auto split: if_splits)

function read_headers :: "string \<Rightarrow> (string list \<times> string) option" where
  "read_headers s =
     (case cut_line s of
        None \<Rightarrow> None
      | Some ([], r) \<Rightarrow> Some ([], r)
      | Some (c # l, r) \<Rightarrow> map_option (\<lambda>(hs, b). ((c # l) # hs, b)) (read_headers r))"
  by pat_completeness auto

termination read_headers
  by (relation "measure length") (auto dest: cut_line_shorter)

declare read_headers.simps [simp del]

fun header :: "string \<Rightarrow> string list \<Rightarrow> string option" where
  "header name [] = None"
| "header name (h # hs) =
     (if take (length name + 2) h = name @ '': '' then Some (drop (length name + 2) h) else header name hs)"

text \<open>A client takes the body to be the \<open>Content-Length\<close> bytes after the empty line, and rejects any other stream.\<close>

definition http_read :: "string \<Rightarrow> response option" where
  "http_read s =
     (case cut_line s of
        None \<Rightarrow> None
      | Some (status, r) \<Rightarrow>
          (case read_headers r of
             None \<Rightarrow> None
           | Some (hs, body) \<Rightarrow>
               (case (split_whitespace status, header ''Content-Length'' hs) of
                  (v # code # _, Some n) \<Rightarrow>
                    (case (parse_uint usize_MAX code, parse_uint (length body) n) of
                       (Some st, Some len) \<Rightarrow>
                         if len = length body
                         then Some \<lparr>rs_status = st, rs_content_type = header ''Content-Type'' hs,
                                    rs_cache = header ''Cache-Control'' hs, rs_body = body\<rparr>
                         else None
                     | _ \<Rightarrow> None)
                | _ \<Rightarrow> None)))"

section \<open>Both front ends serve the same answers\<close>

lemma cut_line_crlf [simp]:
  "list_all (\<lambda>c. c \<noteq> CR) l \<Longrightarrow> cut_line (l @ CR # LF # s) = Some (l, s)"
proof (induction l)
  case Nil
  then show ?case by simp
next
  case (Cons c l)
  then show ?case by (cases l) auto
qed

lemma dec_no_CR: "list_all (\<lambda>c. c \<noteq> CR) (dec n)"
proof -
  have "is_digit c \<Longrightarrow> c \<noteq> CR" for c by (auto simp: is_digit_def)
  then show ?thesis using dec_chars [of n] by (auto simp: list_all_iff)
qed

lemma read_headers_line:
  assumes "list_all (\<lambda>c. c \<noteq> CR) l" and "l \<noteq> []"
  shows "read_headers (l @ CR # LF # s) = map_option (\<lambda>(hs, b). (l # hs, b)) (read_headers s)"
  using assms(2) cut_line_crlf [OF assms(1), of s] by (subst read_headers.simps) (cases l; simp)

lemma read_headers_end: "read_headers (CR # LF # s) = Some ([], s)"
  by (subst read_headers.simps) simp

text \<open>The client reads back the responses the unix handler writes.\<close>

lemma read_headers_lines:
  assumes "list_all (\<lambda>l. l \<noteq> [] \<and> list_all (\<lambda>c. c \<noteq> CR) l) ls"
  shows "read_headers (concat (map (\<lambda>l. l @ [CR, LF]) ls) @ CR # LF # b) = Some (ls, b)"
  using assms by (induction ls) (simp_all add: read_headers_line read_headers_end)

lemma ok_headers:
  assumes "list_all (\<lambda>c. c \<noteq> CR) ct"
  obtains r where "cut_line (http_ok ct n @ body) = Some (''HTTP/1.1 200 OK'', r)"
    "read_headers r = Some ([''Content-Type: '' @ ct, ''Content-Length: '' @ dec n,
       ''Cache-Control: no-store'', ''Connection: close''], body)"
proof -
  define ls where "ls = [''Content-Type: '' @ ct, ''Content-Length: '' @ dec n,
       ''Cache-Control: no-store'', ''Connection: close'']"
  define r where "r = concat (map (\<lambda>l. l @ [CR, LF]) ls) @ CR # LF # body"
  have "http_ok ct n @ body = ''HTTP/1.1 200 OK'' @ CR # LF # r"
    by (simp add: http_ok_def r_def ls_def)
  then have "cut_line (http_ok ct n @ body) = Some (''HTTP/1.1 200 OK'', r)"
    using cut_line_crlf [of "''HTTP/1.1 200 OK''" r] by simp
  moreover have "list_all (\<lambda>l. l \<noteq> [] \<and> list_all (\<lambda>c. c \<noteq> CR) l) ls"
    using assms dec_no_CR [of n] by (simp add: ls_def)
  from read_headers_lines [OF this] have "read_headers r = Some (ls, body)" by (simp add: r_def)
  ultimately show ?thesis using that by (simp add: ls_def)
qed

lemma status_words: "split_whitespace ''HTTP/1.1 200 OK'' = [''HTTP/1.1'', ''200'', ''OK'']"
  "split_whitespace ''HTTP/1.1 404 Not Found'' = [''HTTP/1.1'', ''404'', ''Not'', ''Found'']"
  by (simp_all add: split_whitespace.simps is_space_def)

lemma http_read_ok:
  assumes "list_all (\<lambda>c. c \<noteq> CR) ct"
  shows "http_read (http_ok ct (length body) @ body)
    = Some \<lparr>rs_status = 200, rs_content_type = Some ct, rs_cache = Some ''no-store'', rs_body = body\<rparr>"
proof -
  obtain r where r: "cut_line (http_ok ct (length body) @ body) = Some (''HTTP/1.1 200 OK'', r)"
    "read_headers r = Some ([''Content-Type: '' @ ct, ''Content-Length: '' @ dec (length body),
       ''Cache-Control: no-store'', ''Connection: close''], body)"
    by (rule ok_headers [OF assms])
  have "parse_uint (length body) (dec (length body)) = Some (length body)"
    by (simp add: parse_uint_dec)
  with r show ?thesis
    by (simp add: http_read_def status_words is_digit_def digit_val_def)
qed

lemma http_read_404: "http_read http_404
    = Some \<lparr>rs_status = 404, rs_content_type = None, rs_cache = None, rs_body = []\<rparr>"
proof -
  have "read_headers (''Content-Length: 0'' @ CR # LF # CR # LF # []) = Some ([''Content-Length: 0''], [])"
    using read_headers_lines [of "[''Content-Length: 0'']" "[]"] by simp
  moreover have "cut_line http_404 = Some (''HTTP/1.1 404 Not Found'', ''Content-Length: 0'' @ CR # LF # CR # LF # [])"
    by (simp add: http_404_def)
  ultimately show ?thesis
    by (simp add: http_read_def status_words is_digit_def digit_val_def)
qed

text \<open>
  Whatever a client of the unix socket asks, it reads the same status, content type, caching
  header and body as a client of the TCP server that asks for that path, and a malformed
  request line gets no bytes at all.
\<close>

theorem unix_serves_tcp_routes:
  "if 2 \<le> length (split_whitespace (read_line bytes))
   then http_read (unix_handle_client sd True (Some bytes) (Some metrics) html)
        = Some (tcp_route sd (split_whitespace (read_line bytes) ! 1) metrics html)
   else unix_handle_client sd True (Some bytes) (Some metrics) html = []"
  by (simp add: unix_handle_client_def tcp_route_def Let_def http_read_ok http_read_404 not_le)

end
