(* ===== verification/WebSandbox.thy ===== *)
theory WebSandbox
  imports Prelude
begin

text \<open>
  The listener selection of \<open>src/scx/src/webui.rs\<close> and the loader-sandbox drop-in: how a failed
  TCP bind is classified, when the drop-in is written, and what the exit removes. The outcomes of
  the system calls are parameters; the files they touch, and the drop-in systemd has loaded,
  are the state. The lemmas show that the drop-in is written whole or not at all, only for
  the errors of a sandbox, and that only the file of this program is removed.
\<close>

section \<open>Bind errors\<close>

text \<open>An error with its \<open>source()\<close> chain: an \<open>io::Error\<close> with or without an errno, or another error.\<close>

datatype err_layer =
    Io_error "int option"
  | Other_error

type_synonym err_chain = "err_layer list"

definition EPERM :: int where "EPERM = 1"
definition EAFNOSUPPORT :: int where "EAFNOSUPPORT = 97"
definition EACCES :: int where "EACCES = 13"

fun boxed_io_error :: "err_chain \<Rightarrow> int option" where
  "boxed_io_error [] = None"
| "boxed_io_error (Io_error (Some errno) # es) = Some errno"
| "boxed_io_error (e # es) = boxed_io_error es"

definition sandbox_failure :: "int option \<Rightarrow> bool" where
  "sandbox_failure raw_os_error =
     (case raw_os_error of
        None \<Rightarrow> False
      | Some e \<Rightarrow> e = EPERM \<or> e = EAFNOSUPPORT \<or> e = EACCES)"

section \<open>The drop-in\<close>

definition runtime_dropin_content :: string where
  "runtime_dropin_content =
     ''# scx_mlfq Web UI: runtime unblock of the loader network sandbox.'' @ [CHR 0x0A]
     @ ''# Owned by the scx_mlfq scheduler; removed on exit.'' @ [CHR 0x0A]
     @ ''# This run stays on the unix socket; the unblock serves the next start.'' @ [CHR 0x0A]
     @ ''[Service]'' @ [CHR 0x0A]
     @ ''RestrictAddressFamilies='' @ [CHR 0x0A]
     @ ''SocketBindDeny='' @ [CHR 0x0A]"

definition dropin_matches :: "string \<Rightarrow> bool" where
  "dropin_matches content \<longleftrightarrow> content = runtime_dropin_content"

text \<open>
  The files below \<open>/run/systemd/system\<close>, and the drop-in of the last daemon-reload, which is the
  one the next loader start obeys.
\<close>

record sandbox_fs =
  run_dir :: bool
  dropin :: "string option"
  tmp_file :: "string option"
  loaded :: "string option"

text \<open>Which calls succeed, and what a failing write leaves of the temporary file.\<close>

record fs_io =
  io_mkdir :: bool
  io_write :: bool
  io_partial :: "string option"
  io_chmod :: bool
  io_rename :: bool
  io_remove_tmp :: bool
  io_read :: bool
  io_remove :: bool
  io_reload :: bool

definition daemon_reload :: "fs_io \<Rightarrow> sandbox_fs \<Rightarrow> sandbox_fs" where
  "daemon_reload io fs = (if io_reload io then fs\<lparr>loaded := dropin fs\<rparr> else fs)"

definition remove_tmp :: "fs_io \<Rightarrow> sandbox_fs \<Rightarrow> sandbox_fs" where
  "remove_tmp io fs = (if io_remove_tmp io then fs\<lparr>tmp_file := None\<rparr> else fs)"

definition try_unblock_loader_sandbox :: "fs_io \<Rightarrow> sandbox_fs \<Rightarrow> bool \<times> sandbox_fs" where
  "try_unblock_loader_sandbox io fs =
     (if \<not> run_dir fs then (False, fs)
      else if \<not> io_mkdir io then (False, fs)
      else let content = runtime_dropin_content
      in if \<not> io_write io then (False, remove_tmp io (fs\<lparr>tmp_file := io_partial io\<rparr>))
         else let fs = fs\<lparr>tmp_file := Some content\<rparr>
         in if \<not> io_chmod io then (False, remove_tmp io fs)
            else if \<not> io_rename io then (False, remove_tmp io fs)
            else (True, daemon_reload io (fs\<lparr>dropin := tmp_file fs, tmp_file := None\<rparr>)))"

text \<open>The first component is \<open>UNBLOCK_WRITTEN\<close>.\<close>

definition restore_loader_sandbox :: "fs_io \<Rightarrow> bool \<times> sandbox_fs \<Rightarrow> bool \<times> sandbox_fs" where
  "restore_loader_sandbox io st =
     (case st of (written, fs) \<Rightarrow>
       if \<not> written then st
       else case dropin fs of
              None \<Rightarrow> st
            | Some content \<Rightarrow>
                if \<not> io_read io then st
                else if \<not> dropin_matches content then st
                else if \<not> io_remove io then st
                else (False, daemon_reload io (fs\<lparr>dropin := None\<rparr>)))"

section \<open>Choosing the listener\<close>

datatype serving =
    Tcp string
  | Unix_socket
  | Disabled

datatype path_entry =
    Socket_file
  | Other_file

text \<open>
  What the binds answer; whether a stale socket can be removed, and whether the bind of a free
  path, the mode change and the non-blocking switch succeed.
\<close>

record bind_env =
  be_v6 :: "err_chain + unit"
  be_v4 :: "err_chain + unit"
  be_remove_stale :: bool
  be_unix :: bool
  be_chmod :: bool
  be_nonblocking :: bool

record web_world =
  ww_fs :: sandbox_fs
  ww_unblock_written :: bool
  ww_sock :: "path_entry option"
  ww_sock_root_only :: bool

definition bind_tcp :: "bind_env \<Rightarrow> err_chain + string" where
  "bind_tcp be =
     (case be_v6 be of
        Inr _ \<Rightarrow> Ok ''[::1]:50005''
      | Inl _ \<Rightarrow> (case be_v4 be of
                    Inr _ \<Rightarrow> Ok ''127.0.0.1:50005''
                  | Inl e \<Rightarrow> Err e))"

definition bind_unix :: "bind_env \<Rightarrow> web_world \<Rightarrow> serving \<times> web_world" where
  "bind_unix be w =
     (let w = (if ww_sock w = Some Socket_file \<and> be_remove_stale be then w\<lparr>ww_sock := None\<rparr> else w)
      in if ww_sock w \<noteq> None \<or> \<not> be_unix be then (Disabled, w)
         else let w = w\<lparr>ww_sock := Some Socket_file, ww_sock_root_only := be_chmod be\<rparr>
              in if be_nonblocking be then (Unix_socket, w) else (Disabled, w))"

definition web_bind :: "fs_io \<Rightarrow> bind_env \<Rightarrow> web_world \<Rightarrow> serving \<times> web_world" where
  "web_bind io be w =
     (case bind_tcp be of
        Inr addr \<Rightarrow> (Tcp addr, w)
      | Inl bind_err \<Rightarrow>
          let sandboxed = sandbox_failure (boxed_io_error bind_err);
              (ok, fs) = (if sandboxed then try_unblock_loader_sandbox io (ww_fs w) else (False, ww_fs w));
              w = w\<lparr>ww_fs := fs\<rparr>;
              w = (if ok then w\<lparr>ww_unblock_written := True\<rparr> else w)
          in bind_unix be w)"

section \<open>The drop-in is ours, whole or not at all\<close>

text \<open>
  The unblock either installs exactly the bytes the program owns, with no temporary file
  left, or it changes neither the drop-in nor what systemd has loaded.
\<close>

theorem unblock_all_or_nothing:
  "case try_unblock_loader_sandbox io fs of
     (True, fs') \<Rightarrow> run_dir fs \<and> dropin fs' = Some runtime_dropin_content \<and> tmp_file fs' = None
       \<and> loaded fs' = (if io_reload io then Some runtime_dropin_content else loaded fs)
   | (False, fs') \<Rightarrow> dropin fs' = dropin fs \<and> loaded fs' = loaded fs
       \<and> (if io_remove_tmp io then tmp_file fs' = None \<or> tmp_file fs' = tmp_file fs else True)"
  by (simp add: try_unblock_loader_sandbox_def daemon_reload_def remove_tmp_def Let_def)

lemma bind_unix_frame [simp]:
  "ww_fs (snd (bind_unix be w)) = ww_fs w"
  "ww_unblock_written (snd (bind_unix be w)) = ww_unblock_written w"
  by (simp_all add: bind_unix_def Let_def)

text \<open>
  The start of the web UI touches the drop-in only when both TCP binds fail and the first errno
  in the chain of the last failure is one of the three of a sandbox; a busy port or an error
  without an errno never does.
\<close>

theorem unblock_only_when_sandboxed:
  "case (be_v6 be, be_v4 be) of
     (Inl _, Inl e) \<Rightarrow>
       (if boxed_io_error e \<in> {Some 1, Some 13, Some 97}
        then ww_fs (snd (web_bind io be w)) = snd (try_unblock_loader_sandbox io (ww_fs w))
          \<and> (ww_unblock_written (snd (web_bind io be w))
               \<longleftrightarrow> ww_unblock_written w \<or> fst (try_unblock_loader_sandbox io (ww_fs w)))
        else ww_fs (snd (web_bind io be w)) = ww_fs w
          \<and> ww_unblock_written (snd (web_bind io be w)) = ww_unblock_written w)
   | _ \<Rightarrow> snd (web_bind io be w) = w"
proof (cases "be_v6 be")
  case v6: (Inl e6)
  show ?thesis
  proof (cases "be_v4 be")
    case (Inl e)
    then show ?thesis
      by (cases "boxed_io_error e")
        (simp_all add: v6 web_bind_def bind_tcp_def sandbox_failure_def EPERM_def EAFNOSUPPORT_def EACCES_def
          Let_def case_prod_beta)
  next
    case (Inr u)
    then show ?thesis by (simp add: v6 web_bind_def bind_tcp_def)
  qed
next
  case (Inr u)
  then show ?thesis by (simp add: web_bind_def bind_tcp_def split: sum.split)
qed

text \<open>
  The restore removes nothing but the bytes the program owns, and only after this run wrote them; a
  second call changes nothing.
\<close>

theorem restore_only_own:
  "(dropin (snd (restore_loader_sandbox io (wr, fs))) = dropin fs
     \<or> wr \<and> dropin fs = Some runtime_dropin_content \<and> dropin (snd (restore_loader_sandbox io (wr, fs))) = None)
   \<and> restore_loader_sandbox io (restore_loader_sandbox io (wr, fs)) = restore_loader_sandbox io (wr, fs)"
  by (auto simp: restore_loader_sandbox_def daemon_reload_def dropin_matches_def split: option.splits)

end
