(* ===== verification/Lifecycle.thy ===== *)
theory Lifecycle
  imports WebSandbox
begin

text \<open>
  The life of the process, from \<open>main\<close> of \<open>src/scx/src/main.rs\<close>: the restart loop around
  \<open>Scheduler::init\<close> and \<open>Scheduler::run\<close>, the drop of the scheduler, which joins the web UI
  thread, and the restore of the loader sandbox at the end. \<open>pstep\<close> has one rule per step
  of the main thread and of the web UI thread; Ctrl-C and the kernel's exit report are the
  steps of the environment. The lemmas show that a process told to stop does stop, and what it leaves behind.
\<close>

section \<open>What the options ask for\<close>

text \<open>The command line; intervals are in seconds, and the options of libbpf are left out.\<close>

record opts =
  op_stats :: "nat option"
  op_monitor :: "nat option"
  op_debug :: bool
  op_verbose :: bool
  op_exit_dump_len :: u32
  op_version :: bool
  op_help_stats :: bool
  op_completions :: "string option"
  op_no_webui :: bool

datatype action =
    Completions string
  | Version
  | Help_stats
  | Monitor_only nat
  | Schedule "nat option"

text \<open>\<open>Schedule\<close> carries the interval of the monitor thread that runs beside the scheduler.\<close>

definition main_action :: "opts \<Rightarrow> action" where
  "main_action opts =
     (case op_completions opts of
        Some shell \<Rightarrow> Completions shell
      | None \<Rightarrow>
          if op_version opts then Version
          else if op_help_stats opts then Help_stats
          else case op_monitor opts of
                 Some intv \<Rightarrow> Monitor_only intv
               | None \<Rightarrow> Schedule (op_stats opts))"

lemma schedule_iff: "(\<exists>intv. main_action opts = Schedule intv) \<longleftrightarrow>
    op_completions opts = None \<and> \<not> op_version opts \<and> \<not> op_help_stats opts \<and> op_monitor opts = None"
  by (auto simp: main_action_def split: option.splits)

section \<open>State\<close>

text \<open>How \<open>run\<close> returned: with the wish to restart, without, or with an error.\<close>

datatype outcome =
    Restart
  | Finish
  | Errored

datatype main_phase =
    Init
  | Looping
  | Dropping outcome
  | Restoring
  | Exited
  | Failed

datatype web_thread =
    No_web
  | Starting
  | Serving
  | Stopped

text \<open>\<open>pr_uei\<close> is the exit report of the kernel, with its restart flag.\<close>

record proc =
  pr_phase :: main_phase
  pr_shutdown :: bool
  pr_uei :: "bool option"
  pr_web :: web_thread
  pr_world :: web_world

section \<open>Steps\<close>

definition spawn_web :: "bool \<Rightarrow> web_thread" where
  "spawn_web no_webui = (if no_webui then No_web else Starting)"

definition start_web :: "fs_io \<Rightarrow> bind_env \<Rightarrow> proc \<Rightarrow> proc" where
  "start_web io be p =
     (case web_bind io be (pr_world p) of
        (Disabled, w) \<Rightarrow> p\<lparr>pr_web := Stopped, pr_world := w\<rparr>
      | (_, w) \<Rightarrow> p\<lparr>pr_web := Serving, pr_world := w\<rparr>)"

definition restore :: "fs_io \<Rightarrow> web_world \<Rightarrow> web_world" where
  "restore io w =
     (case restore_loader_sandbox io (ww_unblock_written w, ww_fs w) of
        (written, fs) \<Rightarrow> w\<lparr>ww_unblock_written := written, ww_fs := fs\<rparr>)"

text \<open>What follows the join: the next incarnation, the restore, or an early return of \<open>main\<close>.\<close>

definition after_drop :: "outcome \<Rightarrow> main_phase" where
  "after_drop out = (case out of Restart \<Rightarrow> Init | Finish \<Rightarrow> Restoring | Errored \<Rightarrow> Failed)"

inductive pstep :: "fs_io \<Rightarrow> bind_env \<Rightarrow> bool \<Rightarrow> proc \<Rightarrow> proc \<Rightarrow> bool" for io be no_webui where
  start_ok: "pr_phase p = Init \<Longrightarrow>
    pstep io be no_webui p (p\<lparr>pr_phase := Looping, pr_uei := None, pr_web := spawn_web no_webui\<rparr>)"
| start_fails: "pr_phase p = Init \<Longrightarrow> pstep io be no_webui p (p\<lparr>pr_phase := Failed\<rparr>)"
| leave_loop: "pr_phase p = Looping \<Longrightarrow> pr_shutdown p \<or> pr_uei p \<noteq> None \<Longrightarrow>
    pstep io be no_webui p
      (p\<lparr>pr_phase := Dropping (if pr_uei p = Some True then Restart else Finish)\<rparr>)"
| run_error: "pr_phase p = Looping \<Longrightarrow> pstep io be no_webui p (p\<lparr>pr_phase := Dropping Errored\<rparr>)"
| web_starts: "pr_web p = Starting \<Longrightarrow> pstep io be no_webui p (start_web io be p)"
| web_stops: "pr_web p = Serving \<Longrightarrow> pr_shutdown p \<Longrightarrow> pstep io be no_webui p (p\<lparr>pr_web := Stopped\<rparr>)"
| joined: "pr_phase p = Dropping out \<Longrightarrow> pr_web p = No_web \<or> pr_web p = Stopped \<Longrightarrow>
    pstep io be no_webui p (p\<lparr>pr_phase := after_drop out, pr_web := No_web\<rparr>)"
| restores: "pr_phase p = Restoring \<Longrightarrow>
    pstep io be no_webui p (p\<lparr>pr_phase := Exited, pr_world := restore io (pr_world p)\<rparr>)"

inductive kernel_exit :: "proc \<Rightarrow> proc \<Rightarrow> bool" where
  "pr_phase p = Looping \<Longrightarrow> pr_uei p = None \<Longrightarrow> kernel_exit p (p\<lparr>pr_uei := Some restart\<rparr>)"

inductive ctrl_c :: "proc \<Rightarrow> proc \<Rightarrow> bool" where
  "ctrl_c p (p\<lparr>pr_shutdown := True\<rparr>)"

definition proc_init :: "web_world \<Rightarrow> proc" where
  "proc_init w = \<lparr>pr_phase = Init, pr_shutdown = False, pr_uei = None, pr_web = No_web, pr_world = w\<rparr>"

inductive reachable_proc :: "fs_io \<Rightarrow> bind_env \<Rightarrow> bool \<Rightarrow> web_world \<Rightarrow> proc \<Rightarrow> bool" for io be no_webui w where
  "reachable_proc io be no_webui w (proc_init w)"
| "reachable_proc io be no_webui w p \<Longrightarrow> pstep io be no_webui p q \<Longrightarrow> reachable_proc io be no_webui w q"
| "reachable_proc io be no_webui w p \<Longrightarrow> kernel_exit p q \<Longrightarrow> reachable_proc io be no_webui w q"
| "reachable_proc io be no_webui w p \<Longrightarrow> ctrl_c p q \<Longrightarrow> reachable_proc io be no_webui w q"

inductive_cases pstepE: "pstep io be no_webui p q"
inductive_cases kernel_exitE: "kernel_exit p q"
inductive_cases ctrl_cE: "ctrl_c p q"

section \<open>A process told to stop stops\<close>

text \<open>
  What the process can still do once the flag is set: with a pending restart one more incarnation,
  which leaves its loop at once.
\<close>

fun phase_rank :: "main_phase \<Rightarrow> bool option \<Rightarrow> nat" where
  "phase_rank Exited u = 0"
| "phase_rank Failed u = 0"
| "phase_rank Restoring u = 1"
| "phase_rank (Dropping Finish) u = 2"
| "phase_rank (Dropping Errored) u = 2"
| "phase_rank Looping u = (if u = Some True then 8 else 3)"
| "phase_rank Init u = 6"
| "phase_rank (Dropping Restart) u = 7"

fun web_rank :: "web_thread \<Rightarrow> nat" where
  "web_rank Starting = 2"
| "web_rank Serving = 1"
| "web_rank _ = 0"

definition rank :: "proc \<Rightarrow> nat" where
  "rank p = phase_rank (pr_phase p) (pr_uei p) + web_rank (pr_web p)"

lemma start_web_frame [simp]:
  "pr_phase (start_web io be p) = pr_phase p" "pr_uei (start_web io be p) = pr_uei p"
  "pr_shutdown (start_web io be p) = pr_shutdown p"
  by (simp_all add: start_web_def split: prod.splits serving.splits)

lemma start_web_thread: "pr_web (start_web io be p) = Serving \<or> pr_web (start_web io be p) = Stopped"
  by (simp add: start_web_def split: prod.splits serving.splits)

lemma rank_simps:
  "rank (p\<lparr>pr_phase := ph\<rparr>) = phase_rank ph (pr_uei p) + web_rank (pr_web p)"
  "rank (p\<lparr>pr_web := wt\<rparr>) = phase_rank (pr_phase p) (pr_uei p) + web_rank wt"
  "rank (p\<lparr>pr_phase := ph, pr_web := wt\<rparr>) = phase_rank ph (pr_uei p) + web_rank wt"
  "rank (p\<lparr>pr_phase := ph, pr_uei := u, pr_web := wt\<rparr>) = phase_rank ph u + web_rank wt"
  "rank (p\<lparr>pr_phase := ph, pr_world := w\<rparr>) = phase_rank ph (pr_uei p) + web_rank (pr_web p)"
  by (simp_all add: rank_def)

lemma web_rank_spawn: "web_rank (spawn_web no_webui) \<le> 2"
  by (simp add: spawn_web_def)

lemma rank_start_web: "pr_web p = Starting \<Longrightarrow> rank (start_web io be p) < rank p"
  using start_web_thread [of io be p] by (auto simp: rank_def)

lemma after_drop_rank: "phase_rank (after_drop out) u < phase_rank (Dropping out) u"
  by (cases out) (simp_all add: after_drop_def)

lemma pstep_rank:
  assumes "pstep io be no_webui p q" and "pr_shutdown p"
  shows "rank q < rank p \<and> pr_shutdown q"
  using assms
proof (induction rule: pstep.induct)
  case (start_ok p)
  then show ?case using web_rank_spawn [of no_webui] by (simp add: rank_simps rank_def [of p])
next
  case (joined p out)
  then show ?case
    using after_drop_rank [of out "pr_uei p"] by (auto simp: rank_simps rank_def [of p])
qed (simp_all add: rank_simps rank_start_web, simp_all add: rank_def)

text \<open>
  A run counts the steps of the process and the exits of the kernel that ask for a restart; other
  exits of the kernel and another Ctrl-C may come at any time.
\<close>

inductive prun :: "fs_io \<Rightarrow> bind_env \<Rightarrow> bool \<Rightarrow> nat \<Rightarrow> nat \<Rightarrow> proc \<Rightarrow> proc \<Rightarrow> bool" for io be no_webui where
  stay: "prun io be no_webui 0 0 p p"
| own: "prun io be no_webui n k p q \<Longrightarrow> pstep io be no_webui q r \<Longrightarrow> prun io be no_webui (Suc n) k p r"
| kernel: "prun io be no_webui n k p q \<Longrightarrow> kernel_exit q r \<Longrightarrow>
    prun io be no_webui n (if pr_uei r = Some True then Suc k else k) p r"
| again: "prun io be no_webui n k p q \<Longrightarrow> ctrl_c q r \<Longrightarrow> prun io be no_webui n k p r"

lemma kernel_exit_rank:
  "kernel_exit p q \<Longrightarrow> rank q = rank p + (if pr_uei q = Some True then 5 else 0) \<and> pr_shutdown q = pr_shutdown p"
  by (auto simp: rank_def elim!: kernel_exitE)

lemma ctrl_c_rank: "ctrl_c p q \<Longrightarrow> rank q = rank p \<and> pr_shutdown q"
  by (auto simp: rank_def elim!: ctrl_cE)

lemma prun_rank:
  assumes "prun io be no_webui n k p q" and "pr_shutdown p"
  shows "rank q + n \<le> rank p + 5 * k \<and> pr_shutdown q"
  using assms
proof (induction rule: prun.induct)
  case (own n k p q r)
  then show ?case using pstep_rank [OF own(2)] by simp
next
  case (kernel n k p q r)
  then show ?case using kernel_exit_rank [OF kernel(2)] by auto
next
  case (again n k p q r)
  then show ?case using ctrl_c_rank [OF again(2)] by auto
qed simp

lemma phase_rank_bound: "phase_rank ph u \<le> 8"
  by (rule phase_rank.cases [of "(ph, u)"]) simp_all

lemma rank_bound: "rank p \<le> 10"
proof -
  have "web_rank (pr_web p) \<le> 2" by (cases "pr_web p") simp_all
  with phase_rank_bound [of "pr_phase p" "pr_uei p"] show ?thesis by (simp add: rank_def)
qed

lemma can_step:
  assumes "pr_shutdown p" and "pr_phase p \<noteq> Exited" and "pr_phase p \<noteq> Failed"
  shows "\<exists>q. pstep io be no_webui p q"
proof (cases "pr_phase p")
  case (Dropping out)
  then show ?thesis
    using assms(1) by (cases "pr_web p") (blast intro: pstep.intros)+
qed (use assms in \<open>blast intro: pstep.intros\<close>)+

text \<open>
  C30. Once the shutdown flag is set the process ends unless the kernel keeps asking for restarts: in any
  interleaving of the main thread, the web UI thread, exits of the kernel and further signals, the two threads
  take at most ten steps and five more for every exit of the kernel after the flag that asks
  for a restart, and a process that has not ended can always take one.
\<close>

theorem shutdown_exits:
  assumes "pr_shutdown p" and "prun io be no_webui n k p q"
  shows "n \<le> 10 + 5 * k \<and> (pr_phase q = Exited \<or> pr_phase q = Failed \<or> (\<exists>r. pstep io be no_webui q r))"
  using prun_rank [OF assms(2,1)] rank_bound [of p] can_step [of q io be no_webui] by auto

section \<open>A process that is not told to stop\<close>

lemma unstopped_web:
  assumes "(\<lambda>a b. pstep io be no_webui a b \<or> kernel_exit a b)\<^sup>*\<^sup>* p q"
    and "pr_web p = Serving" and "\<not> pr_shutdown p" and "pr_phase p = Looping"
  shows "pr_web q = Serving \<and> \<not> pr_shutdown q \<and> (pr_phase q = Looping \<or> (\<exists>out. pr_phase q = Dropping out))"
  using assms by (induction rule: rtranclp_induct) (auto elim!: pstepE kernel_exitE)

text \<open>
  C31. While the web UI serves and nobody sets the shutdown flag, an exit or a restart the kernel asks for
  is never carried out: the main thread leaves its loop and then waits for the web UI thread,
  which only the flag stops, and no step of the process is left.
\<close>

theorem kernel_exit_hangs:
  assumes "pr_web p = Serving" and "\<not> pr_shutdown p" and "pr_phase p = Looping"
    and "(\<lambda>a b. pstep io be no_webui a b \<or> kernel_exit a b)\<^sup>*\<^sup>* p q"
  shows "pr_phase q = Looping \<or> (\<exists>out. pr_phase q = Dropping out) \<and> (\<nexists>r. pstep io be no_webui q r)"
  using unstopped_web [OF assms(4,1,2,3)] by (auto elim!: pstepE)

section \<open>What an exit leaves of the sandbox\<close>

text \<open>
  While the process runs, the drop-in is in place exactly when the flag says that a restore is
  owed, and systemd has loaded it only then.
\<close>

definition unblock_owed :: "fs_io \<Rightarrow> web_world \<Rightarrow> bool" where
  "unblock_owed io w \<longleftrightarrow>
     (ww_unblock_written w \<longleftrightarrow> dropin (ww_fs w) = Some runtime_dropin_content)
     \<and> (loaded (ww_fs w) = Some runtime_dropin_content \<longrightarrow> ww_unblock_written w \<and> io_reload io)"

definition proc_inv :: "fs_io \<Rightarrow> proc \<Rightarrow> bool" where
  "proc_inv io p \<longleftrightarrow> unblock_owed io (pr_world p)
     \<and> (case pr_phase p of
          Looping \<Rightarrow> True
        | Dropping out \<Rightarrow> True
        | Exited \<Rightarrow> pr_web p = No_web \<and> \<not> ww_unblock_written (pr_world p)
        | _ \<Rightarrow> pr_web p = No_web)"

lemma try_unblock_owed:
  assumes "try_unblock_loader_sandbox io fs = (ok, fs')"
  shows "dropin fs' = (if ok then Some runtime_dropin_content else dropin fs)"
    and "loaded fs' = (if ok \<and> io_reload io then Some runtime_dropin_content else loaded fs)"
  using assms by (auto simp: try_unblock_loader_sandbox_def daemon_reload_def remove_tmp_def Let_def
    split: if_splits)

lemma web_bind_owed:
  assumes "unblock_owed io w"
  shows "unblock_owed io (snd (web_bind io be w))"
proof (cases "bind_tcp be")
  case (Inr addr)
  with assms show ?thesis by (simp add: web_bind_def)
next
  case (Inl e)
  obtain ok fs where "try_unblock_loader_sandbox io (ww_fs w) = (ok, fs)"
    by (cases "try_unblock_loader_sandbox io (ww_fs w)")
  with assms Inl try_unblock_owed [OF this] show ?thesis
    by (auto simp: web_bind_def unblock_owed_def Let_def split: if_splits)
qed

lemma pr_world_start_web [simp]: "pr_world (start_web io be p) = snd (web_bind io be (pr_world p))"
  by (simp add: start_web_def split: prod.splits serving.splits)

lemma restore_owed:
  assumes "unblock_owed io w" and "io_read io" and "io_remove io"
  shows "unblock_owed io (restore io w) \<and> \<not> ww_unblock_written (restore io w)"
  using assms
  by (auto simp: unblock_owed_def restore_def restore_loader_sandbox_def daemon_reload_def dropin_matches_def)

lemma pstep_inv:
  assumes "pstep io be no_webui p q" and "proc_inv io p" and "io_read io" and "io_remove io"
  shows "proc_inv io q"
  using assms
proof (induction rule: pstep.induct)
  case (web_starts p)
  then show ?case
    using web_bind_owed [of io "pr_world p" be] by (auto simp: proc_inv_def split: main_phase.splits)
next
  case (joined p out)
  then show ?case by (cases out) (simp_all add: proc_inv_def after_drop_def)
next
  case (restores p)
  then show ?case using restore_owed [of io "pr_world p"] by (simp add: proc_inv_def)
qed (simp_all add: proc_inv_def split: main_phase.splits)

lemma reachable_proc_inv:
  assumes "reachable_proc io be no_webui w p" and "unblock_owed io w" and "io_read io" and "io_remove io"
  shows "proc_inv io p"
  using assms
proof (induction rule: reachable_proc.induct)
  case 1
  then show ?case by (simp add: proc_inv_def proc_init_def)
next
  case (2 p q)
  then show ?case by (blast intro: pstep_inv)
next
  case (3 p q)
  then show ?case by (auto simp: proc_inv_def elim!: kernel_exitE split: main_phase.splits)
next
  case (4 p q)
  then show ?case by (auto simp: proc_inv_def elim!: ctrl_cE split: main_phase.splits)
qed

definition sandboxed_world :: "web_world \<Rightarrow> bool" where
  "sandboxed_world w \<longleftrightarrow> \<not> ww_unblock_written w \<and> dropin (ww_fs w) \<noteq> Some runtime_dropin_content
     \<and> loaded (ww_fs w) \<noteq> Some runtime_dropin_content"

text \<open>
  When the drop-in can be read and removed, a process that started in the sandbox and exits in order leaves
  the sandbox in place: neither the drop-in nor what systemd has loaded is the unblock. So the
  start after it is restricted again.
\<close>

theorem exit_leaves_sandbox:
  assumes "reachable_proc io be no_webui w p" and "sandboxed_world w" and "io_read io" and "io_remove io"
    and "pr_phase p = Exited"
  shows "sandboxed_world (pr_world p)"
proof -
  have "unblock_owed io w" using assms(2) by (simp add: sandboxed_world_def unblock_owed_def)
  from reachable_proc_inv [OF assms(1) this assms(3,4)] assms(5) show ?thesis
    by (auto simp: proc_inv_def unblock_owed_def sandboxed_world_def)
qed

section \<open>Examples\<close>

text \<open>A sandboxed host where every call on the files succeeds.\<close>

definition all_io :: fs_io where
  "all_io = \<lparr>io_mkdir = True, io_write = True, io_partial = None, io_chmod = True, io_rename = True,
     io_remove_tmp = True, io_read = True, io_remove = True, io_reload = True\<rparr>"

definition denied_env :: bind_env where
  "denied_env = \<lparr>be_v6 = Err [Io_error (Some 97)], be_v4 = Err [Io_error (Some 97)], be_remove_stale = True,
     be_unix = True, be_chmod = True, be_nonblocking = True\<rparr>"

definition fresh_world :: web_world where
  "fresh_world = \<lparr>ww_fs = \<lparr>run_dir = True, dropin = None, tmp_file = None, loaded = None\<rparr>,
     ww_unblock_written = False, ww_sock = None, ww_sock_root_only = False\<rparr>"

definition unblocked_world :: web_world where
  "unblocked_world = \<lparr>ww_fs = \<lparr>run_dir = True, dropin = Some runtime_dropin_content, tmp_file = None,
     loaded = Some runtime_dropin_content\<rparr>,
     ww_unblock_written = True, ww_sock = Some Socket_file, ww_sock_root_only = True\<rparr>"

lemma denied_web_bind: "web_bind all_io denied_env fresh_world = (Unix_socket, unblocked_world)"
  by (simp add: web_bind_def bind_tcp_def bind_unix_def denied_env_def fresh_world_def unblocked_world_def
    all_io_def sandbox_failure_def EPERM_def EAFNOSUPPORT_def EACCES_def try_unblock_loader_sandbox_def
    daemon_reload_def Let_def)

definition serving_proc :: "bool \<Rightarrow> proc" where
  "serving_proc stop = \<lparr>pr_phase = Looping, pr_shutdown = stop, pr_uei = None, pr_web = Serving,
     pr_world = unblocked_world\<rparr>"

lemma reach_serving: "reachable_proc all_io denied_env False fresh_world (serving_proc False)"
proof -
  let ?R = "reachable_proc all_io denied_env False fresh_world"
  have 1: "?R \<lparr>pr_phase = Looping, pr_shutdown = False, pr_uei = None, pr_web = Starting, pr_world = fresh_world\<rparr>"
    using reachable_proc.intros(2) [OF reachable_proc.intros(1)
        pstep.start_ok [of "proc_init fresh_world" all_io denied_env False]]
    by (simp add: proc_init_def spawn_web_def)
  have "?R (start_web all_io denied_env
      \<lparr>pr_phase = Looping, pr_shutdown = False, pr_uei = None, pr_web = Starting, pr_world = fresh_world\<rparr>)"
    by (rule reachable_proc.intros(2) [OF 1 pstep.web_starts]) simp
  then show ?thesis by (simp add: start_web_def denied_web_bind serving_proc_def)
qed

lemma reach_stopped:
  "reachable_proc all_io denied_env False fresh_world ((serving_proc True)\<lparr>pr_web := Stopped\<rparr>)"
proof -
  have "reachable_proc all_io denied_env False fresh_world ((serving_proc False)\<lparr>pr_shutdown := True\<rparr>)"
    by (rule reachable_proc.intros(4) [OF reach_serving ctrl_c.intros])
  then have "reachable_proc all_io denied_env False fresh_world (serving_proc True)"
    by (simp add: serving_proc_def)
  from reachable_proc.intros(2) [OF this pstep.web_stops] show ?thesis by (simp add: serving_proc_def)
qed

text \<open>The kernel asks for a restart after the flag; the web UI thread stops and the main thread leaves its loop.\<close>

theorem shutdown_exits_witness:
  "\<exists>q. prun all_io denied_env False 2 1 (serving_proc True) q \<and> pr_phase q = Dropping Restart
    \<and> (\<exists>r. pstep all_io denied_env False q r)"
proof -
  let ?p = "serving_proc True" and ?R = "prun all_io denied_env False"
  have s: "pr_shutdown ?p" by (simp add: serving_proc_def)
  have "kernel_exit ?p (?p\<lparr>pr_uei := Some True\<rparr>)"
    by (rule kernel_exit.intros) (simp_all add: serving_proc_def)
  from prun.kernel [OF prun.stay this] have "?R 0 1 ?p (?p\<lparr>pr_uei := Some True\<rparr>)" by simp
  from prun.own [OF this pstep.web_stops] have "?R (Suc 0) 1 ?p (?p\<lparr>pr_uei := Some True, pr_web := Stopped\<rparr>)"
    by (simp add: serving_proc_def)
  from prun.own [OF this pstep.leave_loop]
  have "?R (Suc (Suc 0)) 1 ?p (?p\<lparr>pr_uei := Some True, pr_web := Stopped, pr_phase := Dropping Restart\<rparr>)"
    by (simp add: serving_proc_def)
  then obtain q where q: "?R (Suc (Suc 0)) 1 ?p q" "pr_phase q = Dropping Restart" by (simp add: that)
  from shutdown_exits [OF s q(1)] q show ?thesis by (auto simp: numeral_2_eq_2)
qed

theorem kernel_exit_hangs_witness:
  "\<exists>q. (\<lambda>a b. pstep all_io denied_env False a b \<or> kernel_exit a b)\<^sup>*\<^sup>* (serving_proc False) q
    \<and> pr_phase q = Dropping Restart \<and> (\<nexists>r. pstep all_io denied_env False q r)"
proof -
  let ?R = "\<lambda>a b. pstep all_io denied_env False a b \<or> kernel_exit a b"
  let ?q = "(serving_proc False)\<lparr>pr_uei := Some True\<rparr>"
  have "kernel_exit (serving_proc False) ?q"
    by (rule kernel_exit.intros) (simp_all add: serving_proc_def)
  then have 1: "?R (serving_proc False) ?q" ..
  have "pstep all_io denied_env False ?q (?q\<lparr>pr_phase := Dropping Restart\<rparr>)"
    using pstep.leave_loop [of ?q all_io denied_env False] by (simp add: serving_proc_def)
  then have 2: "?R ?q (?q\<lparr>pr_phase := Dropping Restart\<rparr>)" ..
  have r: "?R\<^sup>*\<^sup>* (serving_proc False) (?q\<lparr>pr_phase := Dropping Restart\<rparr>)"
    by (rule converse_rtranclp_into_rtranclp [of ?R, OF 1 r_into_rtranclp [of ?R, OF 2]])
  have "pr_web (serving_proc False) = Serving" "\<not> pr_shutdown (serving_proc False)"
    "pr_phase (serving_proc False) = Looping" by (simp_all add: serving_proc_def)
  from kernel_exit_hangs [OF this r] r show ?thesis by auto
qed

theorem exit_leaves_sandbox_witness:
  "\<exists>p. reachable_proc all_io denied_env False fresh_world p \<and> pr_phase p = Exited
    \<and> sandboxed_world (pr_world p)"
proof -
  let ?R = "reachable_proc all_io denied_env False fresh_world"
  let ?p = "(serving_proc True)\<lparr>pr_web := Stopped\<rparr>"
  have "?R (?p\<lparr>pr_phase := Dropping Finish\<rparr>)"
    using reachable_proc.intros(2) [OF reach_stopped pstep.leave_loop] by (simp add: serving_proc_def)
  from reachable_proc.intros(2) [OF this pstep.joined [of _ Finish]]
  have "?R (?p\<lparr>pr_phase := Restoring, pr_web := No_web\<rparr>)" by (simp add: after_drop_def)
  from reachable_proc.intros(2) [OF this pstep.restores] obtain q where q: "?R q" "pr_phase q = Exited"
    by (auto simp: simp del: fun_upd_apply)
  have "sandboxed_world fresh_world" by (simp add: sandboxed_world_def fresh_world_def)
  from exit_leaves_sandbox [OF q(1) this _ _ q(2)] q show ?thesis by (auto simp: all_io_def)
qed

text \<open>
  An error of the run loop, or of the start of the next incarnation, ends the process without the restore: the drop-in it
  wrote stays in place and loaded, although the program says it is removed on exit.
\<close>

theorem error_exit_keeps_unblock:
  "\<exists>p. reachable_proc all_io denied_env False fresh_world p \<and> pr_phase p = Failed
    \<and> dropin (ww_fs (pr_world p)) = Some runtime_dropin_content
    \<and> loaded (ww_fs (pr_world p)) = Some runtime_dropin_content \<and> (\<nexists>q. pstep all_io denied_env False p q)"
proof -
  let ?R = "reachable_proc all_io denied_env False fresh_world"
  let ?p = "(serving_proc True)\<lparr>pr_web := Stopped\<rparr>"
  have "?R (?p\<lparr>pr_phase := Dropping Errored\<rparr>)"
    using reachable_proc.intros(2) [OF reach_stopped pstep.run_error] by (simp add: serving_proc_def)
  from reachable_proc.intros(2) [OF this pstep.joined [of _ Errored]]
  have "?R (?p\<lparr>pr_phase := Failed, pr_web := No_web\<rparr>)" by (simp add: after_drop_def)
  then show ?thesis
    by (rule exI [where P = "\<lambda>p. ?R p \<and> _ p", OF conjI])
      (auto simp: serving_proc_def unblocked_world_def elim!: pstepE)
qed

end
