(* ===== verification/ConfigText.thy ===== *)
theory ConfigText
  imports Config Decimal
begin

text \<open>
  \<open>Config::describe\<close> of \<open>src/scx/src/config.rs\<close>: the line of the startup log that shows the
  constants, in their units. The lemma shows that the line is an unambiguous image of them.
\<close>

definition describe :: "config \<Rightarrow> string" where
  "describe c =
     ''slices: Q1='' @ dec (unat (q1_slice_ns c div NSEC_PER_USEC))
     @ ''us Q2='' @ dec (unat (q2_slice_ns c div NSEC_PER_USEC))
     @ ''us Q3='' @ dec (unat (q3_slice_ns c div NSEC_PER_USEC))
     @ ''us, T_L='' @ dec (unat (t_l_ns c div NSEC_PER_USEC))
     @ ''us, T_H='' @ dec (unat (t_h_ns c div NSEC_PER_USEC))
     @ ''us, budget_max='' @ dec (unat (budget_max_ns c div NSEC_PER_USEC))
     @ ''us, alpha='' @ dec (unat (alpha c))
     @ '', ema_half_life='' @ dec (unat (ema_half_life_ns c div NSEC_PER_USEC))
     @ ''us, aging_period='' @ dec (unat (aging_period_ns c div NSEC_PER_SEC))
     @ ''s, short_sleep='' @ dec (unat (short_sleep_ns c div NSEC_PER_USEC))
     @ ''us, ss_rate_limit='' @ dec (unat (short_sleep_rate_limit_ns c div NSEC_PER_USEC))
     @ ''us, hysteresis_sleep='' @ dec (unat (hysteresis_sleep_ns c div NSEC_PER_USEC))
     @ ''us, long_sleep='' @ dec (unat (long_sleep_ns c div NSEC_PER_MSEC))
     @ ''ms, sameq_min_run='' @ dec (unat (sameq_preempt_min_run_ns c div NSEC_PER_USEC))
     @ ''us, preempt_slice='' @ dec (unat (preempt_slice_ns c div NSEC_PER_USEC))
     @ ''us, rtdl_drain_interval='' @ dec (unat (rtdl_drain_interval_ns c div NSEC_PER_USEC))
     @ ''us, quotas: Q1='' @ dec (unat (q1_quota c))
     @ '' Q2='' @ dec (unat (q2_quota c))
     @ '' max_batch='' @ dec (unat (dispatch_max_batch c))
     @ '', tree_bands: T_INT='' @ dec (unat (tree_t_int_ns c div NSEC_PER_USEC))
     @ ''us T_BOUND='' @ dec (unat (tree_t_bound_ns c div NSEC_PER_USEC))
     @ ''us, adapt_enabled='' @ (if adapt_enabled c then ''true'' else ''false'')"

text \<open>The quantities the line shows, in the units it names.\<close>

definition shown :: "config \<Rightarrow> nat list \<times> bool" where
  "shown c =
    ([unat (q1_slice_ns c div NSEC_PER_USEC),
     unat (q2_slice_ns c div NSEC_PER_USEC),
     unat (q3_slice_ns c div NSEC_PER_USEC),
     unat (t_l_ns c div NSEC_PER_USEC),
     unat (t_h_ns c div NSEC_PER_USEC),
     unat (budget_max_ns c div NSEC_PER_USEC),
     unat (alpha c),
     unat (ema_half_life_ns c div NSEC_PER_USEC),
     unat (aging_period_ns c div NSEC_PER_SEC),
     unat (short_sleep_ns c div NSEC_PER_USEC),
     unat (short_sleep_rate_limit_ns c div NSEC_PER_USEC),
     unat (hysteresis_sleep_ns c div NSEC_PER_USEC),
     unat (long_sleep_ns c div NSEC_PER_MSEC),
     unat (sameq_preempt_min_run_ns c div NSEC_PER_USEC),
     unat (preempt_slice_ns c div NSEC_PER_USEC),
     unat (rtdl_drain_interval_ns c div NSEC_PER_USEC),
     unat (q1_quota c),
     unat (q2_quota c),
     unat (dispatch_max_batch c),
     unat (tree_t_int_ns c div NSEC_PER_USEC),
     unat (tree_t_bound_ns c div NSEC_PER_USEC)],
     adapt_enabled c)"

lemma dec_prefix_iff [simp]:
  "dec m @ CHR ''u'' # r = dec n @ CHR ''u'' # r' \<longleftrightarrow> m = n \<and> r = r'"
  "dec m @ CHR ''m'' # r = dec n @ CHR ''m'' # r' \<longleftrightarrow> m = n \<and> r = r'"
  "dec m @ CHR ''s'' # r = dec n @ CHR ''s'' # r' \<longleftrightarrow> m = n \<and> r = r'"
  "dec m @ CHR '','' # r = dec n @ CHR '','' # r' \<longleftrightarrow> m = n \<and> r = r'"
  "dec m @ CHR '' '' # r = dec n @ CHR '' '' # r' \<longleftrightarrow> m = n \<and> r = r'"
  using dec_prefix_inj [of m _ r n r'] by (auto simp: is_digit_def)

text \<open>
  Two configurations print the same line exactly when they agree on every quantity the line shows:
  no two numbers run together, whatever their values.
\<close>

theorem describe_determines: "describe c = describe c' \<longleftrightarrow> shown c = shown c'"
  by (simp add: describe_def shown_def)

end
