(* ===== verification/AllocCount.thy ===== *)
theory AllocCount
  imports Prelude
begin

text \<open>
  \<open>src/scx/src/alloc.rs\<close>: the counting allocator of the \<open>count_alloc\<close> feature, which the tests of
  the hot path read. Its two counters are 64-bit atomics, updated with wrap-around. The system
  allocator behind it is not modelled. The lemma shows what the counters say about a
  window of calls.
\<close>

record alloc_counters =
  ALLOC_COUNT :: u64
  ALLOC_BYTES :: u64

text \<open>The calls of the allocator, with the sizes they are asked for.\<close>

datatype alloc_call =
    Alloc nat
  | Alloc_zeroed nat
  | Realloc nat nat
  | Dealloc nat

definition reset_counters :: "alloc_counters \<Rightarrow> alloc_counters" where
  "reset_counters c = c\<lparr>ALLOC_COUNT := 0, ALLOC_BYTES := 0\<rparr>"

definition bump :: "nat \<Rightarrow> alloc_counters \<Rightarrow> alloc_counters" where
  "bump sz c = c\<lparr>ALLOC_COUNT := ALLOC_COUNT c + 1, ALLOC_BYTES := ALLOC_BYTES c + of_nat sz\<rparr>"

fun track :: "alloc_call \<Rightarrow> alloc_counters \<Rightarrow> alloc_counters" where
  "track (Alloc sz) c = bump sz c"
| "track (Alloc_zeroed sz) c = bump sz c"
| "track (Realloc old_size new_size) c = bump new_size c"
| "track (Dealloc sz) c = c"

text \<open>The sizes a window of calls asks the heap for.\<close>

fun requested :: "alloc_call \<Rightarrow> nat list" where
  "requested (Alloc sz) = [sz]"
| "requested (Alloc_zeroed sz) = [sz]"
| "requested (Realloc old_size new_size) = [new_size]"
| "requested (Dealloc sz) = []"

lemma track_fold:
  "fold track calls c = c\<lparr>ALLOC_COUNT := ALLOC_COUNT c + of_nat (length (concat (map requested calls))),
     ALLOC_BYTES := ALLOC_BYTES c + of_nat (sum_list (concat (map requested calls)))\<rparr>"
proof (induction calls arbitrary: c)
  case Nil
  then show ?case by simp
next
  case (Cons call calls)
  then show ?case by (cases call) (simp_all add: bump_def algebra_simps)
qed

text \<open>
  After a reset the counters are the number and the total size of the requests of the window,
  modulo the width; a window of fewer than \<open>2 ^ 64\<close> calls with a zero count asked the heap for nothing.
\<close>

theorem window_counts:
  "ALLOC_COUNT (fold track calls (reset_counters c)) = of_nat (length (concat (map requested calls)))
   \<and> ALLOC_BYTES (fold track calls (reset_counters c)) = of_nat (sum_list (concat (map requested calls)))"
  by (simp add: track_fold reset_counters_def)

theorem zero_count_no_request:
  assumes "length calls < 18446744073709551616" and "ALLOC_COUNT (fold track calls (reset_counters c)) = 0"
  shows "concat (map requested calls) = []"
proof -
  have one: "length (requested call) \<le> 1" for call by (cases call) simp_all
  have "length (concat (map requested calls)) \<le> length calls"
  proof (induction calls)
    case (Cons call calls)
    then show ?case using one [of call] by simp
  qed simp
  then have "unat (of_nat (length (concat (map requested calls))) :: u64) = length (concat (map requested calls))"
    using assms(1) by (intro unat_of_nat_u64) simp
  with assms(2) show ?thesis by (simp add: window_counts)
qed

end
