(* ===== verification/Build.thy ===== *)
theory Build
  imports Decimal
begin

text \<open>
  The one step of \<open>src/scx/build.rs\<close> that is not a library call: the clang flag appended to the
  environment variable. The lemmas show that the flag ends up in the variable once, whatever it held.
\<close>

definition add_bpf_warning_suppression :: "string \<Rightarrow> string option \<Rightarrow> string option" where
  "add_bpf_warning_suppression flag var =
     (case var of
        Some existing \<Rightarrow>
          if \<not> list_ex (\<lambda>entry. entry = flag) (split_whitespace existing)
          then Some (existing @ '' '' @ flag) else Some existing
      | None \<Rightarrow> Some flag)"

lemma split_word:
  assumes "flag \<noteq> []" and "list_all (\<lambda>c. \<not> is_space c) flag"
  shows "split_whitespace flag = [flag]"
proof (cases flag)
  case (Cons c cs)
  have t: "takeWhile (\<lambda>x. \<not> is_space x) flag = flag" "dropWhile (\<lambda>x. \<not> is_space x) flag = []"
    using assms(2) by (simp_all add: list_all_iff)
  have "split_whitespace [] = []" by (simp add: split_whitespace.simps)
  moreover have "dropWhile is_space flag = flag" using assms(2) Cons by simp
  ultimately show ?thesis using t Cons by (subst split_whitespace.simps) simp
qed (use assms(1) in simp)

lemma split_append_word:
  assumes "flag \<noteq> []" and "list_all (\<lambda>c. \<not> is_space c) flag"
  shows "split_whitespace (s @ '' '' @ flag) = split_whitespace s @ [flag]"
proof (induction s rule: split_whitespace.induct)
  case (1 s)
  have sp: "is_space CHR '' ''" by (simp add: is_space_def)
  show ?case
  proof (cases "dropWhile is_space s")
    case Nil
    then have all: "\<forall>x \<in> set s. is_space x" by simp
    have "dropWhile is_space (s @ '' '' @ flag) = flag"
      using all sp assms by (cases flag) (auto simp: dropWhile_append)
    then have "split_whitespace (s @ '' '' @ flag) = split_whitespace flag"
      using assms by (subst (1 2) split_whitespace.simps) (cases flag; simp)
    moreover have "split_whitespace s = []" unfolding split_whitespace.simps [of s] Nil by simp
    ultimately show ?thesis by (simp add: split_word [OF assms])
  next
    case (Cons c cs)
    have "\<exists>x \<in> set s. \<not> is_space x" using Cons by (metis dropWhile_eq_Nil_conv list.distinct(1))
    then have d: "dropWhile is_space (s @ '' '' @ flag) = c # cs @ '' '' @ flag"
      using Cons by (auto simp: dropWhile_append)
    let ?ns = "\<lambda>x. \<not> is_space x"
    have t: "takeWhile ?ns (c # cs @ '' '' @ flag) = takeWhile ?ns (c # cs)"
      "dropWhile ?ns (c # cs @ '' '' @ flag) = dropWhile ?ns (c # cs) @ '' '' @ flag"
      using sp takeWhile_tail [of ?ns "CHR '' ''" "c # cs" flag] 
      by (auto simp: takeWhile_append dropWhile_append)
    show ?thesis
      unfolding split_whitespace.simps [of "s @ '' '' @ flag"] split_whitespace.simps [of s] d Cons list.case t
      using 1 [OF Cons] by simp
  qed
qed

text \<open>A variable that is set keeps its words, and the flag is among them once if it was not; a second call changes nothing.\<close>

theorem suppression_once:
  assumes "flag \<noteq> []" and "list_all (\<lambda>c. \<not> is_space c) flag"
  shows "\<exists>v. add_bpf_warning_suppression flag var = Some v
    \<and> split_whitespace v = (case var of None \<Rightarrow> [flag]
        | Some old \<Rightarrow> if flag \<in> set (split_whitespace old) then split_whitespace old
                     else split_whitespace old @ [flag])
    \<and> add_bpf_warning_suppression flag (Some v) = Some v"
proof (cases var)
  case None
  then show ?thesis by (simp add: add_bpf_warning_suppression_def split_word [OF assms] list_ex_iff)
next
  case (Some old)
  then show ?thesis
    using split_append_word [OF assms, of old]
    by (cases "flag \<in> set (split_whitespace old)") (auto simp: add_bpf_warning_suppression_def list_ex_iff)
qed

end
