(* ===== verification/Rounds.thy ===== *)
theory Rounds
  imports Daemon
begin

text \<open>
  One round of the run loop of \<open>src/scx/src/main.rs\<close> as the composition of its three calls (consume
  the ring buffer, drain the sample channel, poll the results), and the steps of the training
  pipeline on their own. The lemmas show that a round is a sequence of steps of the daemon and
  leaves nothing behind, that fits are at least a minute apart, and that a job in the pipeline
  always gets out of it.
\<close>

section \<open>The worker beside the loop\<close>

text \<open>One step of \<open>training_worker\<close>; an empty job channel or a full result channel makes it wait.\<close>

definition worker_step :: "powf \<Rightarrow> daemon \<Rightarrow> daemon" where
  "worker_step powf d =
     (case worker d of
        W_idle \<Rightarrow> (case job_chan d of [] \<Rightarrow> d | j # js \<Rightarrow> d\<lparr>job_chan := js, worker := W_busy j\<rparr>)
      | W_busy j \<Rightarrow> (case train_model_with_scratch powf j (worker_scratch d) of
                       (r, sc) \<Rightarrow> d\<lparr>worker := W_sending r, worker_scratch := sc\<rparr>)
      | W_sending r \<Rightarrow> if length (res_chan d) < 1 then d\<lparr>res_chan := res_chan d @ [r], worker := W_idle\<rparr> else d)"

text \<open>
  A schedule lists how many steps the worker takes before each action of the main thread; when it
  is used up the worker is not scheduled any more.
\<close>

type_synonym pace = "nat list"

definition meanwhile :: "powf \<Rightarrow> pace \<times> daemon \<Rightarrow> pace \<times> daemon" where
  "meanwhile powf = (\<lambda>(ks, d). (tl ks, (worker_step powf ^^ (case ks of [] \<Rightarrow> 0 | k # _ \<Rightarrow> k)) d))"

lemma worker_step_chan [simp]: "sample_chan (worker_step powf d) = sample_chan d"
  by (simp add: worker_step_def case_prod_beta split: worker.split list.split)

lemma worker_steps_chan [simp]: "sample_chan ((worker_step powf ^^ k) d) = sample_chan d"
  by (induction k) simp_all

lemma worker_step_dstep: "(dstep powf upd)\<^sup>*\<^sup>* d (worker_step powf d)"
proof (cases "worker d")
  case W_idle
  then show ?thesis by (auto simp: worker_step_def intro: dstep.take_job split: list.split)
next
  case (W_busy j)
  obtain r sc where "train_model_with_scratch powf j (worker_scratch d) = (r, sc)" by fastforce
  with dstep.train [OF W_busy this] show ?thesis by (simp add: worker_step_def W_busy r_into_rtranclp)
next
  case (W_sending r)
  with dstep.send [OF W_sending] show ?thesis by (simp add: worker_step_def r_into_rtranclp)
qed

lemma worker_steps_dstep: "(dstep powf upd)\<^sup>*\<^sup>* d ((worker_step powf ^^ k) d)"
  by (induction k) (auto intro: rtranclp_trans worker_step_dstep)

lemma meanwhile_chan [simp]: "sample_chan (snd (meanwhile powf x)) = sample_chan (snd x)"
  by (simp add: meanwhile_def case_prod_beta)

lemma meanwhile_dstep: "(dstep powf upd)\<^sup>*\<^sup>* (snd x) (snd (meanwhile powf x))"
  by (simp add: meanwhile_def case_prod_beta worker_steps_dstep)

section \<open>A round\<close>

text \<open>\<open>rb_mgr.consume()\<close>: the callback runs for each record.\<close>

definition consume :: "powf \<Rightarrow> u8 list list \<Rightarrow> pace \<times> daemon \<Rightarrow> pace \<times> daemon" where
  "consume powf records x = foldl (\<lambda>x data. apsnd (rb_callback data) (meanwhile powf x)) x records"

text \<open>\<open>while let Ok(s) = sample_rx.try_recv()\<close>; the clock is read by every ingest.\<close>

function drain :: "powf \<Rightarrow> (daemon \<Rightarrow> nat) \<Rightarrow> pace \<times> daemon \<Rightarrow> pace \<times> daemon" where
  "drain powf clock x =
     (let (ks, d) = meanwhile powf x
      in case sample_chan d of
           [] \<Rightarrow> (ks, d)
         | s # ss \<Rightarrow> drain powf clock (ks, ingest_sample (clock d) s (d\<lparr>sample_chan := ss\<rparr>)))"
  by pat_completeness auto

lemma ingest_chan [simp]: "sample_chan (ingest_sample now s d) = sample_chan d"
  "res_chan (ingest_sample now s d) = res_chan d"
  by (simp_all add: ingest_sample_def kick_training_def Let_def case_prod_beta)

termination drain
proof (relation "measure (\<lambda>(powf, clock, x). length (sample_chan (snd x)))", goal_cases)
  case (2 powf clock x y ks d s ss)
  then have "sample_chan (snd (meanwhile powf x)) = s # ss" by (metis snd_conv)
  then show ?case by simp
qed simp

declare drain.simps [simp del]

text \<open>What the pipeline still holds: every step of the worker and every poll of a result uses one up.\<close>

fun worker_rank :: "worker \<Rightarrow> nat" where
  "worker_rank W_idle = 0"
| "worker_rank (W_busy j) = 3"
| "worker_rank (W_sending r) = 2"

definition pending :: "daemon \<Rightarrow> nat" where
  "pending d = 4 * length (job_chan d) + worker_rank (worker d) + length (res_chan d)"

lemma apply_frame [simp]: "job_chan (apply_train_result upd res d) = job_chan d"
  "worker (apply_train_result upd res d) = worker d"
  by (simp_all add: apply_train_result_def Let_def split: sum.split)

lemma poll_frame [simp]: "job_chan (poll_one upd d) = job_chan d" "worker (poll_one upd d) = worker d"
  by (simp_all add: poll_one_def Let_def split: list.split sum.split)

lemma apply_chan [simp]: "res_chan (apply_train_result upd res d) = res_chan d"
  "sample_chan (apply_train_result upd res d) = sample_chan d"
  by (simp_all add: apply_train_result_def Let_def split: sum.split)

lemma poll_chan [simp]: "res_chan (poll_one upd d) = tl (res_chan d)"
  "sample_chan (poll_one upd d) = sample_chan d"
  by (simp_all add: poll_one_def Let_def split: list.split sum.split)

lemma worker_pending: "pending (worker_step powf d) \<le> pending d"
  by (simp add: worker_step_def pending_def case_prod_beta split: worker.split list.split)

lemma meanwhile_pending: "pending (snd (meanwhile powf x)) \<le> pending (snd x)"
proof -
  have "pending ((worker_step powf ^^ k) d) \<le> pending d" for k d
    by (induction k) (auto intro: order_trans [OF worker_pending])
  then show ?thesis by (simp add: meanwhile_def case_prod_beta)
qed

text \<open>\<open>while let Ok(r) = self.train_rx.try_recv()\<close>: a result may arrive while another one is applied.\<close>

function poll_train_results :: "powf \<Rightarrow> map_update \<Rightarrow> pace \<times> daemon \<Rightarrow> pace \<times> daemon" where
  "poll_train_results powf upd x =
     (let (ks, d) = meanwhile powf x
      in if res_chan d = [] then (ks, d) else poll_train_results powf upd (ks, poll_one upd d))"
  by pat_completeness auto

termination poll_train_results
proof (relation "measure (\<lambda>(powf, upd, x). pending (snd x))", goal_cases)
  case (2 powf upd x y ks d)
  then have "d = snd (meanwhile powf x)" by (metis snd_conv)
  moreover have "pending (poll_one upd d) < pending d"
    using 2(3) by (cases "res_chan d") (simp_all add: pending_def)
  ultimately show ?case using meanwhile_pending [of powf x] by simp
qed simp

declare poll_train_results.simps [simp del]

definition run_round ::
  "powf \<Rightarrow> map_update \<Rightarrow> (daemon \<Rightarrow> nat) \<Rightarrow> u8 list list \<Rightarrow> pace \<Rightarrow> daemon \<Rightarrow> daemon" where
  "run_round powf upd clock records ks d =
     snd (poll_train_results powf upd (drain powf clock (consume powf records (ks, d))))"

lemma consume_steps: "(dstep powf upd)\<^sup>*\<^sup>* (snd x) (snd (consume powf records x))"
  unfolding consume_def
proof (induction records arbitrary: x)
  case (Cons data records)
  have "(dstep powf upd)\<^sup>*\<^sup>* (snd x) (snd (apsnd (rb_callback data) (meanwhile powf x)))"
    using meanwhile_dstep [of powf upd x] dstep.callback [of powf upd _ data]
    by (simp add: rtranclp.rtrancl_into_rtrancl)
  with Cons [of "apsnd (rb_callback data) (meanwhile powf x)"] show ?case
    by (auto intro: rtranclp_trans)
qed simp

lemma drain_steps: "(dstep powf upd)\<^sup>*\<^sup>* (snd x) (snd (drain powf clock x)) \<and> sample_chan (snd (drain powf clock x)) = []"
proof (induction powf clock x rule: drain.induct)
  case (1 powf clock x)
  obtain ks d where m: "meanwhile powf x = (ks, d)" by fastforce
  have d: "(dstep powf upd)\<^sup>*\<^sup>* (snd x) d" using meanwhile_dstep [of powf upd x] by (simp add: m)
  show ?case
  proof (cases "sample_chan d")
    case Nil
    with d show ?thesis by (subst (1 2) drain.simps) (simp add: m)
  next
    case (Cons s ss)
    have "(dstep powf upd)\<^sup>*\<^sup>* (snd x) (ingest_sample (clock d) s (d\<lparr>sample_chan := ss\<rparr>))"
      using d dstep.ingest [OF Cons] by (rule rtranclp.rtrancl_into_rtrancl)
    with 1 [OF m [symmetric] refl Cons] show ?thesis
      by (subst (1 2) drain.simps) (auto simp: m Cons intro: rtranclp_trans)
  qed
qed

lemma poll_steps: "(dstep powf upd)\<^sup>*\<^sup>* (snd x) (snd (poll_train_results powf upd x))
    \<and> res_chan (snd (poll_train_results powf upd x)) = []
    \<and> sample_chan (snd (poll_train_results powf upd x)) = sample_chan (snd x)"
proof (induction powf upd x rule: poll_train_results.induct)
  case (1 powf upd x)
  obtain ks d where m: "meanwhile powf x = (ks, d)" by fastforce
  have d: "(dstep powf upd)\<^sup>*\<^sup>* (snd x) d" "sample_chan d = sample_chan (snd x)"
    using meanwhile_dstep [of powf upd x] meanwhile_chan [of powf x] by (simp_all add: m)
  show ?case
  proof (cases "res_chan d = []")
    case True
    with d show ?thesis by (subst (1 2 3) poll_train_results.simps) (simp add: m)
  next
    case False
    have "(dstep powf upd)\<^sup>*\<^sup>* (snd x) (poll_one upd d)"
      using d(1) dstep.poll by (rule rtranclp.rtrancl_into_rtrancl)
    with 1 [OF m [symmetric] refl False] d(2) False show ?thesis
      by (subst (1 2 3) poll_train_results.simps) (auto simp: m intro: rtranclp_trans)
  qed
qed

text \<open>
  A round of the run loop, with the worker beside it, is a sequence of the daemon's steps. When it
  ends the two channels it empties are empty.
\<close>

theorem run_round_refines:
  "(dstep powf upd)\<^sup>*\<^sup>* d (run_round powf upd clock records ks d)
   \<and> sample_chan (run_round powf upd clock records ks d) = [] \<and> res_chan (run_round powf upd clock records ks d) = []"
proof -
  note c = consume_steps [of powf upd "(ks, d)" records]
  note dr = drain_steps [of powf upd "consume powf records (ks, d)" clock]
  note p = poll_steps [of powf upd "drain powf clock (consume powf records (ks, d))"]
  have "(dstep powf upd)\<^sup>*\<^sup>* d (run_round powf upd clock records ks d)"
    unfolding run_round_def using c dr p by (auto intro: rtranclp_trans)
  then show ?thesis using dr p by (simp add: run_round_def)
qed

section \<open>The cadence\<close>

text \<open>
  An ingest hands a snapshot to the worker, or tries to, only when the window holds enough
  samples and the last try is at least a minute ago; it then records the time of the try and the
  queue holds at most one job.
\<close>

theorem kick_cadence:
  "last_train_at (ingest_sample now s d) = last_train_at d
     \<and> job_chan (ingest_sample now s d) = job_chan d
   \<or> last_train_at (ingest_sample now s d) = Some now
     \<and> 512 \<le> length (window (dwin (ingest_sample now s d)))
     \<and> (case last_train_at d of None \<Rightarrow> True | Some t \<Rightarrow> 60000000000 \<le> now - t)
     \<and> job_chan (ingest_sample now s d) =
         (if job_chan d = [] then [window (dwin (ingest_sample now s d))] else job_chan d)"
  by (cases "last_train_at d")
    (auto simp: ingest_sample_def kick_training_def train_due_def Let_def case_prod_beta
      MLFQ_TREE_RETRAIN_INTERVAL_def const_defs)

section \<open>The pipeline\<close>

text \<open>The steps of the worker, and a poll that finds a result.\<close>

inductive work :: "powf \<Rightarrow> map_update \<Rightarrow> daemon \<Rightarrow> daemon \<Rightarrow> bool" for powf upd where
  work_take: "worker d = W_idle \<Longrightarrow> job_chan d = j # js \<Longrightarrow>
    work powf upd d (d\<lparr>job_chan := js, worker := W_busy j\<rparr>)"
| work_train: "worker d = W_busy j \<Longrightarrow> train_model_with_scratch powf j (worker_scratch d) = (r, s) \<Longrightarrow>
    work powf upd d (d\<lparr>worker := W_sending r, worker_scratch := s\<rparr>)"
| work_send: "worker d = W_sending r \<Longrightarrow> length (res_chan d) < 1 \<Longrightarrow>
    work powf upd d (d\<lparr>res_chan := res_chan d @ [r], worker := W_idle\<rparr>)"
| work_poll: "res_chan d \<noteq> [] \<Longrightarrow> work powf upd d (poll_one upd d)"

lemma work_is_dstep: "work powf upd d d' \<Longrightarrow> dstep powf upd d d'"
  by (induction rule: work.induct) (blast intro: dstep.intros)+

lemma work_pending: "work powf upd d d' \<Longrightarrow> pending d = Suc (pending d')"
  by (induction rule: work.induct) (auto simp: pending_def neq_Nil_conv)

lemma works_pending: "(work powf upd ^^ n) d d' \<Longrightarrow> pending d = n + pending d'"
  by (induction n arbitrary: d') (auto dest: work_pending)

lemma can_work: "pending d \<noteq> 0 \<Longrightarrow> \<exists>d'. work powf upd d d'"
proof (cases "res_chan d = []")
  case False
  then show ?thesis by (blast intro: work.intros)
next
  case True
  assume "pending d \<noteq> 0"
  with True consider (idle) j js where "worker d = W_idle" "job_chan d = j # js"
    | (busy) j where "worker d = W_busy j" | (sending) r where "worker d = W_sending r"
    by (cases "worker d"; cases "job_chan d") (auto simp: pending_def)
  then show ?thesis
  proof cases
    case (busy j)
    obtain r s where "train_model_with_scratch powf j (worker_scratch d) = (r, s)"
      by (cases "train_model_with_scratch powf j (worker_scratch d)")
    with busy show ?thesis by (blast intro: work.intros)
  next
    case (sending r)
    have "length (res_chan d) < 1" using True by simp
    with sending show ?thesis by (blast intro: work.intros)
  qed (blast intro: work.intros)
qed

text \<open>
  C32. The training pipeline drains: within the bounds of its two channels, which hold in every reachable
  state, at most eight steps of the worker and of the poll are left, and as long as a job, a fit
  or a result is in the pipeline one of them can be taken.
\<close>

theorem pipeline_drains:
  assumes "pipeline_ok d" and "(work powf upd ^^ n) d d'"
  shows "n \<le> 8 \<and> ((\<exists>d''. work powf upd d' d'')
    \<or> job_chan d' = [] \<and> worker d' = W_idle \<and> res_chan d' = [])"
proof -
  have "length (job_chan d) \<le> 1" "length (res_chan d) \<le> 1"
    using assms(1) by (simp_all add: pipeline_ok_def)
  moreover have "worker_rank (worker d) \<le> 3" by (cases "worker d") simp_all
  ultimately have "pending d \<le> 8" by (simp add: pending_def)
  moreover have "job_chan d' = [] \<and> worker d' = W_idle \<and> res_chan d' = []" if "pending d' = 0"
    using that by (cases "worker d'") (auto simp: pending_def)
  ultimately show ?thesis using works_pending [OF assms(2)] can_work [of d' powf upd] by auto
qed

theorem pipeline_drains_witness:
  "pipeline_ok waiting_daemon
   \<and> (\<exists>d'. (work (\<lambda>x y. x) array_update ^^ 1) waiting_daemon d' \<and> worker d' = W_busy [one_sample]
        \<and> (\<exists>d''. work (\<lambda>x y. x) array_update d' d''))"
proof -
  let ?d = "waiting_daemon\<lparr>job_chan := [], worker := W_busy [one_sample]\<rparr>"
  have p: "pipeline_ok waiting_daemon"
    by (simp add: pipeline_ok_def waiting_daemon_def daemon_init_def)
  have "work (\<lambda>x y. x) array_update waiting_daemon ?d"
    by (rule work_take) (simp_all add: waiting_daemon_def daemon_init_def)
  then have w: "(work (\<lambda>x y. x) array_update ^^ 1) waiting_daemon ?d" unfolding relpowp_1 .
  have b: "worker ?d = W_busy [one_sample]" by simp
  from pipeline_drains [OF p w] b have "\<exists>d''. work (\<lambda>x y. x) array_update ?d d''" by auto
  with p w b show ?thesis by blast
qed

end
