(* ===== verification/WebChannel.thy ===== *)
theory WebChannel
  imports Stats "HOL-Library.Sublist"
begin

text \<open>
  The metrics channel between the run loop and the web UI (\<open>main.rs\<close> 1019-1031, \<open>webui.rs\<close>
  408-419): \<open>try_send\<close> into a queue of capacity 16 drops the snapshot when the queue is full, and
  the consumer keeps the last snapshot it received behind the mutex. A trace of sends and
  receives in any interleaving is run from the empty channel.
\<close>

definition WEB_CHAN_CAP :: nat where
  "WEB_CHAN_CAP = 16"

record web_chan =
  wc_queue :: "web_metrics list"
  wc_state :: web_metrics

datatype chan_event =
    Push web_metrics
  | Recv

definition push_web :: "web_metrics \<Rightarrow> web_chan \<Rightarrow> web_chan" where
  "push_web m c = (if length (wc_queue c) < WEB_CHAN_CAP then c\<lparr>wc_queue := wc_queue c @ [m]\<rparr> else c)"

text \<open>One receive of the consumer; an empty queue is the timeout.\<close>

definition recv_web :: "web_chan \<Rightarrow> web_chan \<times> web_metrics list" where
  "recv_web c =
     (case wc_queue c of
        [] \<Rightarrow> (c, [])
      | m # ms \<Rightarrow> (c\<lparr>wc_queue := ms, wc_state := m\<rparr>, [m]))"

text \<open>The channel a trace leaves, and the snapshots the consumer received, in order.\<close>

fun chan_run :: "chan_event list \<Rightarrow> web_chan \<Rightarrow> web_chan \<times> web_metrics list" where
  "chan_run [] c = (c, [])"
| "chan_run (Push m # evs) c = chan_run evs (push_web m c)"
| "chan_run (Recv # evs) c =
     (let (c', got) = recv_web c; (c'', rest) = chan_run evs c' in (c'', got @ rest))"

fun pushed :: "chan_event list \<Rightarrow> web_metrics list" where
  "pushed [] = []"
| "pushed (Push m # evs) = m # pushed evs"
| "pushed (Recv # evs) = pushed evs"

definition web_chan_init :: "web_metrics \<Rightarrow> web_chan" where
  "web_chan_init d = \<lparr>wc_queue = [], wc_state = d\<rparr>"

section \<open>What the pages show\<close>

lemma push_web_bound: "length (wc_queue c) \<le> WEB_CHAN_CAP \<Longrightarrow> length (wc_queue (push_web m c)) \<le> WEB_CHAN_CAP"
  by (simp add: push_web_def)

lemma chan_run_inv:
  assumes "length (wc_queue c) \<le> WEB_CHAN_CAP" and "chan_run evs c = (c', got)"
  shows "length (wc_queue c') \<le> WEB_CHAN_CAP \<and> subseq (got @ wc_queue c') (wc_queue c @ pushed evs)
    \<and> wc_state c' = last (wc_state c # got)"
  using assms
proof (induction evs c arbitrary: c' got rule: chan_run.induct)
  case (1 c)
  then show ?case by simp
next
  case (2 m evs c)
  from 2(1) [OF push_web_bound [OF 2(2)]] 2(3)
  have ih: "length (wc_queue c') \<le> WEB_CHAN_CAP"
    "subseq (got @ wc_queue c') (wc_queue (push_web m c) @ pushed evs)"
    "wc_state c' = last (wc_state (push_web m c) # got)" by simp_all
  have "subseq (wc_queue (push_web m c) @ pushed evs) (wc_queue c @ m # pushed evs)"
    by (auto simp: push_web_def intro: list_emb_append_mono)
  from subseq_order.order_trans [OF ih(2) this] ih(1,3) show ?case
    by (simp add: push_web_def split: if_splits)
next
  case (3 evs c)
  obtain c1 g1 where r: "recv_web c = (c1, g1)" by (cases "recv_web c")
  obtain c2 g2 where s: "chan_run evs c1 = (c2, g2)" by (cases "chan_run evs c1")
  have q: "g1 @ wc_queue c1 = wc_queue c" "wc_state c1 = last (wc_state c # g1)"
    using r by (auto simp: recv_web_def split: list.splits)
  have "length (wc_queue c1) \<le> WEB_CHAN_CAP" using q(1) 3(2) by (metis le_add2 length_append le_trans)
  from 3(1) [OF r [symmetric] refl this s] have ih: "length (wc_queue c2) \<le> WEB_CHAN_CAP"
    "subseq (g2 @ wc_queue c2) (wc_queue c1 @ pushed evs)" "wc_state c2 = last (wc_state c1 # g2)" by simp_all
  have e: "c' = c2" "got = g1 @ g2" using 3(3) r s by simp_all
  have "subseq (g1 @ (g2 @ wc_queue c2)) (g1 @ (wc_queue c1 @ pushed evs))"
    using ih(2) by (simp only: subseq_append')
  then show ?case using ih(1,3) q unfolding e by (metis append.assoc last.simps last_append append_is_Nil_conv pushed.simps(3))
qed

text \<open>
  Whatever the interleaving of the run loop and the consumer, at most 16 snapshots wait, the
  snapshots received so far and the waiting ones are among those sent, in the order they were sent,
  and the pages show the last received one (the default before the first).
\<close>

theorem channel_keeps_order:
  "case chan_run evs (web_chan_init d) of (c, got) \<Rightarrow>
     length (wc_queue c) \<le> 16 \<and> subseq (got @ wc_queue c) (pushed evs) \<and> wc_state c = last (d # got)"
proof -
  have "length (wc_queue (web_chan_init d)) \<le> WEB_CHAN_CAP" by (simp add: web_chan_init_def)
  from chan_run_inv [OF this] show ?thesis
    by (cases "chan_run evs (web_chan_init d)") (simp add: web_chan_init_def WEB_CHAN_CAP_def)
qed

end
