(* ===== verification/RunLoop.thy ===== *)
theory RunLoop
  imports Rounds Snapshot WebChannel
begin

text \<open>
  \<open>Scheduler::run\<close> of \<open>src/scx/src/main.rs\<close>: rounds with the service of the statistics and of the
  web UI, until the flag is set or the program has exited, and the final drain, with the training
  worker running beside it. What a round
  meets (the records in the ring buffer, the clock, the steps of the worker, the request, the maps,
  whether the reply can be sent) is its input.
\<close>

section \<open>Inputs and state\<close>

text \<open>How the wait for a request of at most 100 ms ends.\<close>

datatype request = Asked | Timed_out | Disconnected

datatype run_error = Ring_buffer_failed | Requests_closed | Reply_failed

text \<open>\<open>ri_pace\<close> schedules the worker during the three calls, \<open>ri_wait\<close> while the loop waits and serves.\<close>

record round_in =
  ri_stop :: bool
  ri_records :: "u8 list list option"
  ri_clock :: "daemon \<Rightarrow> nat"
  ri_pace :: pace
  ri_wait :: nat
  ri_request :: request
  ri_now :: nat
  ri_env :: bpf_env
  ri_reply_ok :: bool

record run_state =
  rn_daemon :: daemon
  rn_web :: web_state
  rn_chan :: "web_chan option"
  rn_replies :: "metrics list"

section \<open>The loop\<close>

definition push_snapshot :: "round_in \<Rightarrow> run_state \<Rightarrow> run_state" where
  "push_snapshot i st =
     (case get_web_metrics (ri_now i) (ri_env i) (rn_daemon st) (rn_web st) of
        (w, ws) \<Rightarrow> st\<lparr>rn_web := ws, rn_chan := map_option (push_web w) (rn_chan st)\<rparr>)"

definition serve :: "round_in \<Rightarrow> run_state \<Rightarrow> run_error + run_state" where
  "serve i st =
     (case ri_request i of
        Asked \<Rightarrow>
          let st = push_snapshot i st
          in if ri_reply_ok i
             then Ok (st\<lparr>rn_replies := rn_replies st @ [get_metrics (ri_now i) (ri_env i) (rn_daemon st)]\<rparr>)
             else Err Reply_failed
      | Timed_out \<Rightarrow> Ok (push_snapshot i st)
      | Disconnected \<Rightarrow> Err Requests_closed)"

definition drain_round :: "powf \<Rightarrow> map_update \<Rightarrow> round_in \<Rightarrow> run_state \<Rightarrow> run_error + run_state" where
  "drain_round powf upd i st =
     (case ri_records i of None \<Rightarrow> Err Ring_buffer_failed
      | Some records \<Rightarrow> Ok (st\<lparr>rn_daemon := run_round powf upd (ri_clock i) records (ri_pace i) (rn_daemon st)\<rparr>))"

definition worker_runs :: "powf \<Rightarrow> nat \<Rightarrow> run_state \<Rightarrow> run_state" where
  "worker_runs powf n st = st\<lparr>rn_daemon := (worker_step powf ^^ n) (rn_daemon st)\<rparr>"

text \<open>The result says whether the loop has ended; without an ending round it is still running.\<close>

fun run_loop :: "powf \<Rightarrow> map_update \<Rightarrow> round_in list \<Rightarrow> run_state \<Rightarrow> run_error + (bool \<times> run_state)" where
  "run_loop powf upd [] st = Ok (False, st)"
| "run_loop powf upd (i # is) st =
     (if ri_stop i
      then (case drain_round powf upd i st of Inl e \<Rightarrow> Inl e | Inr st \<Rightarrow> Ok (True, st))
      else (case drain_round powf upd i st of Inl e \<Rightarrow> Inl e
            | Inr st \<Rightarrow> (case serve i (worker_runs powf (ri_wait i) st) of
                Inl e \<Rightarrow> Inl e | Inr st \<Rightarrow> run_loop powf upd is st)))"

section \<open>What a run does\<close>

lemma serve_frame:
  assumes "serve i st = Ok st'"
  shows "rn_daemon st' = rn_daemon st"
    and "length (rn_replies st') = length (rn_replies st) + (if ri_request i = Asked then 1 else 0)"
  using assms by (auto simp: serve_def push_snapshot_def Let_def case_prod_beta split: request.splits if_splits)

lemma drain_round_steps:
  assumes "drain_round powf upd i st = Ok st'"
  shows "(dstep powf upd)\<^sup>*\<^sup>* (rn_daemon st) (rn_daemon st')" and "sample_chan (rn_daemon st') = []"
    and "res_chan (rn_daemon st') = []" and "rn_replies st' = rn_replies st"
  using assms run_round_refines by (auto simp: drain_round_def split: option.splits)

lemma worker_runs_steps:
  "(dstep powf upd)\<^sup>*\<^sup>* (rn_daemon st) (rn_daemon (worker_runs powf n st))"
  "rn_replies (worker_runs powf n st) = rn_replies st"
  by (simp_all add: worker_runs_def worker_steps_dstep)

text \<open>
  C29. A run of the loop without an error, with the training worker taking any number of steps
  before every record, every ingest, every poll and every service, is a sequence of the daemon's steps
  that answers every request of its rounds once. It ends with the first round that finds the flag set or the program
  gone, and then the sample channel and the result channel are empty: every sample and every result
  handed over by then is processed, while a fit the worker has not handed over is dropped.
\<close>

theorem run_loop_refines:
  assumes "run_loop powf upd ins st = Ok (stopped, st')"
  shows "(dstep powf upd)\<^sup>*\<^sup>* (rn_daemon st) (rn_daemon st')
    \<and> length (rn_replies st') = length (rn_replies st)
        + length (filter (\<lambda>i. ri_request i = Asked) (takeWhile (\<lambda>i. \<not> ri_stop i) ins))
    \<and> stopped = list_ex ri_stop ins
    \<and> (if stopped then sample_chan (rn_daemon st') = [] \<and> res_chan (rn_daemon st') = [] else True)"
  using assms
proof (induction ins arbitrary: st)
  case Nil
  then show ?case by simp
next
  case (Cons i "is")
  obtain s1 where s1: "drain_round powf upd i st = Ok s1"
    using Cons.prems by (cases "drain_round powf upd i st") (auto split: if_splits)
  note d = drain_round_steps [OF s1]
  let ?s = "worker_runs powf (ri_wait i) s1"
  show ?case
  proof (cases "ri_stop i")
    case True
    then show ?thesis using Cons.prems s1 d by auto
  next
    case False
    then obtain s2 where s2: "serve i ?s = Ok s2" "run_loop powf upd is s2 = Ok (stopped, st')"
      using Cons.prems s1 by (cases "serve i ?s") auto
    have "(dstep powf upd)\<^sup>*\<^sup>* (rn_daemon st) (rn_daemon s2)"
      using d(1) worker_runs_steps(1) [of powf upd s1 "ri_wait i"] serve_frame(1) [OF s2(1)] by (auto intro: rtranclp_trans)
    then show ?thesis
      using Cons.IH [OF s2(2)] False d(4) worker_runs_steps(2) [of powf "ri_wait i" s1] serve_frame(2) [OF s2(1)]
      by (auto intro: rtranclp_trans)
  qed
qed

text \<open>
  The loop fails only in a round that meets a failure: a ring buffer that cannot be read, a closed
  request channel or a reply that cannot be sent.
\<close>

theorem run_loop_fails:
  assumes "run_loop powf upd ins st = Err e"
  shows "\<exists>i\<in>set ins. e = Ring_buffer_failed \<and> ri_records i = None
    \<or> e = Requests_closed \<and> ri_request i = Disconnected
    \<or> e = Reply_failed \<and> ri_request i = Asked \<and> \<not> ri_reply_ok i"
  using assms
proof (induction ins arbitrary: st)
  case (Cons i "is")
  show ?case
  proof (cases "drain_round powf upd i st")
    case (Inl e')
    then show ?thesis using Cons.prems by (auto simp: drain_round_def split: if_splits option.splits)
  next
    case (Inr s1)
    show ?thesis
    proof (cases "serve i (worker_runs powf (ri_wait i) s1)")
      case (Inl e')
      then show ?thesis
        using Cons.prems Inr by (auto simp: serve_def Let_def split: if_splits request.splits)
    next
      case s2: (Inr s2)
      then show ?thesis using Cons Inr by (auto split: if_splits)
    qed
  qed
qed simp

text \<open>
  A daemon with a job in the channel. In a round that is asked the worker takes the job; in the round that ends the loop it
  fits the job and hands the result over before the last poll.
\<close>

definition example_round :: "bool \<Rightarrow> pace \<Rightarrow> request \<Rightarrow> bpf_env \<Rightarrow> round_in" where
  "example_round stop ks q env = \<lparr>ri_stop = stop, ri_records = Some [], ri_clock = (\<lambda>_. 0), ri_pace = ks,
     ri_wait = 1, ri_request = q, ri_now = 0, ri_env = env, ri_reply_ok = True\<rparr>"

theorem run_loop_refines_witness:
  "\<forall>env st. \<exists>st'. run_loop (\<lambda>x y. x) array_update [example_round False [] Asked env, example_round True [1, 1] Timed_out env]
      (st\<lparr>rn_daemon := waiting_daemon\<rparr>) = Ok (True, st')
    \<and> length (rn_replies st') = length (rn_replies st) + 1 \<and> res_chan (rn_daemon st') = []"
proof (intro allI)
  fix env st
  let ?rounds = "[example_round False [] Asked env, example_round True [1, 1] Timed_out env]"
  obtain st' where r: "run_loop (\<lambda>x y. x) array_update ?rounds (st\<lparr>rn_daemon := waiting_daemon\<rparr>) = Ok (True, st')"
    by (simp add: example_round_def drain_round_def serve_def Let_def)
  from run_loop_refines [OF r] r
  show "\<exists>st'. run_loop (\<lambda>x y. x) array_update ?rounds (st\<lparr>rn_daemon := waiting_daemon\<rparr>) = Ok (True, st')
    \<and> length (rn_replies st') = length (rn_replies st) + 1 \<and> res_chan (rn_daemon st') = []"
    by (simp add: example_round_def)
qed

end
