(* ===== verification/Startup.thy ===== *)
theory Startup
  imports TopoInit
begin

text \<open>
  \<open>Scheduler::init\<close> of \<open>src/scx/src/main.rs\<close>: the object is opened, the validated constants and the
  topology go into the read-only data, the operations table gets its flags, the object is
  loaded, and the maps and the tracepoint mask are filled. The kernel's flag values, the
  tracefs directories, the load and the map updates are parameters. The lemmas show what a
  started scheduler holds, and which failures abort the start.
\<close>

section \<open>Parameters\<close>

text \<open>The flags the running kernel knows, 0 when it does not (\<open>scx_utils::compat\<close>).\<close>

record compat =
  SCX_OPS_ENQ_EXITING :: u64
  SCX_OPS_ENQ_LAST :: u64
  SCX_OPS_ENQ_MIGRATION_DISABLED :: u64
  SCX_OPS_ALLOW_QUEUED_WAKEUP :: u64
  SCX_OPS_KEEP_BUILTIN_IDLE :: u64

text \<open>Which of the two tracefs paths of an event exist.\<close>

record tracefs =
  fs_amdgpu_cs :: "bool \<times> bool"
  fs_amdgpu_cs_ioctl :: "bool \<times> bool"
  fs_gpu_sched_queue :: "bool \<times> bool"

definition has_event :: "bool \<times> bool \<Rightarrow> bool" where
  "has_event p \<longleftrightarrow> fst p \<or> snd p"

section \<open>The object\<close>

record ops_table =
  ops_flags :: u64
  ops_update_idle :: bool
  ops_exit_dump_len :: u32

record skel =
  sk_rodata :: "rodata option"
  sk_ops :: ops_table
  sk_auto_sched_switch :: bool
  sk_auto_amdgpu_cs :: bool
  sk_auto_amdgpu_cs_ioctl :: bool
  sk_auto_gpu_sched_queue :: bool

datatype init_error =
    Open_failed string
  | Config_failed config_error
  | No_rodata_panic
  | Load_failed string
  | Attach_failed string
  | Server_failed string
  | Ringbuf_add_failed string
  | Ringbuf_build_failed string

definition ops_flags_of :: "compat \<Rightarrow> u64" where
  "ops_flags_of c =
     (let flags = SCX_OPS_ENQ_EXITING c OR SCX_OPS_ENQ_LAST c OR SCX_OPS_ENQ_MIGRATION_DISABLED c
                    OR SCX_OPS_ALLOW_QUEUED_WAKEUP c
      in if SCX_OPS_KEEP_BUILTIN_IDLE c \<noteq> 0 then flags OR SCX_OPS_KEEP_BUILTIN_IDLE c else flags)"

definition set_ops :: "compat \<Rightarrow> u32 \<Rightarrow> skel \<Rightarrow> init_error + skel" where
  "set_ops c exit_dump_len sk =
     (let flags = ops_flags_of c;
          sk' = (if SCX_OPS_KEEP_BUILTIN_IDLE c \<noteq> 0
                 then (case sk_rodata sk of
                         None \<Rightarrow> Err No_rodata_panic
                       | Some r \<Rightarrow> Ok (sk\<lparr>sk_rodata := Some (r\<lparr>mlfq_idle_tracking := 1\<rparr>)\<rparr>))
                 else Ok (sk\<lparr>sk_ops := (sk_ops sk)\<lparr>ops_update_idle := False\<rparr>\<rparr>))
      in case sk' of
           Inl e \<Rightarrow> Err e
         | Inr sk1 \<Rightarrow> Ok (sk1\<lparr>sk_ops := (sk_ops sk1)\<lparr>ops_flags := flags, ops_exit_dump_len := exit_dump_len\<rparr>\<rparr>))"

definition set_autoload :: "tracefs \<Rightarrow> skel \<Rightarrow> skel" where
  "set_autoload fs sk =
     (let sk = sk\<lparr>sk_auto_sched_switch := True\<rparr>;
          sk = (if \<not> has_event (fs_amdgpu_cs fs) then sk\<lparr>sk_auto_amdgpu_cs := False\<rparr> else sk);
          sk = (if \<not> has_event (fs_amdgpu_cs_ioctl fs) then sk\<lparr>sk_auto_amdgpu_cs_ioctl := False\<rparr> else sk)
      in if \<not> has_event (fs_gpu_sched_queue fs) then sk\<lparr>sk_auto_gpu_sched_queue := False\<rparr> else sk)"

text \<open>\<open>MLFQ_GPU_TRACE_*\<close>: one bit per tracepoint.\<close>

definition gpu_mask :: "skel \<Rightarrow> u32" where
  "gpu_mask sk =
     (let mask = (0 :: u32);
          mask = (if sk_auto_amdgpu_cs sk then mask OR 1 else mask);
          mask = (if sk_auto_amdgpu_cs_ioctl sk then mask OR 2 else mask)
      in if sk_auto_gpu_sched_queue sk then mask OR 4 else mask)"

text \<open>\<open>MLFQ_IDLE_RESUME_LATENCY_US\<close>, the bound asked of PM QoS.\<close>

definition MLFQ_IDLE_RESUME_LATENCY_US :: i32 where
  "MLFQ_IDLE_RESUME_LATENCY_US = 10"

text \<open>What libbpf, PM QoS and the stats server answer.\<close>

record init_env =
  ie_open :: "string + unit"
  ie_load :: "skel \<Rightarrow> string + skel"
  ie_bitmap :: "u64 list update"
  ie_cpu_list :: "llc_cpu_list update"
  ie_attach :: "string + unit"
  ie_pm_supported :: bool
  ie_pm_update :: "i32 \<Rightarrow> string + unit"
  ie_launch :: "string + unit"
  ie_rb_add :: "string + unit"
  ie_rb_build :: "string + unit"

text \<open>
  What the start leaves: the loaded object, the maps, the write errors, the mask in the BSS (when
  the object has one), whether the PM QoS request is held, and the web UI's seed (none with
  \<open>--no-webui\<close>).
\<close>

record started =
  st_skel :: skel
  st_plan :: topology_plan
  st_maps :: topo_maps
  st_primary_err :: "string option"
  st_llc_err :: "(nat \<times> string) option"
  st_list_err :: "(nat \<times> string) option"
  st_gpu_mask :: "u32 option"
  st_pm_qos :: bool
  st_webui :: "per_cpu_metrics list option"

definition hold_pm_qos :: "init_env \<Rightarrow> bool" where
  "hold_pm_qos env =
     (if ie_pm_supported env
      then (case ie_pm_update env MLFQ_IDLE_RESUME_LATENCY_US of Inl e \<Rightarrow> False | Inr _ \<Rightarrow> True)
      else False)"

definition seed_gpu_mask :: "skel \<Rightarrow> u32 option \<Rightarrow> u32 option" where
  "seed_gpu_mask sk bss_mask =
     (let gpu = gpu_mask sk in if gpu \<noteq> 0 then map_option (\<lambda>b. b OR gpu) bss_mask else bss_mask)"

text \<open>After the maps: attach, PM QoS, stats server, web UI and ring buffer.\<close>

definition start_services :: "host \<Rightarrow> init_env \<Rightarrow> bool \<Rightarrow> started \<Rightarrow> init_error + started" where
  "start_services h env no_webui st =
     (case ie_attach env of Inl e \<Rightarrow> Err (Attach_failed e)
      | Inr _ \<Rightarrow> let st = st\<lparr>st_pm_qos := hold_pm_qos env\<rparr>
          in (case ie_launch env of Inl e \<Rightarrow> Err (Server_failed e)
              | Inr _ \<Rightarrow> let st = st\<lparr>st_webui := (if no_webui then None else Some (web_cpu_static h))\<rparr>
                  in (case ie_rb_add env of Inl e \<Rightarrow> Err (Ringbuf_add_failed e)
                      | Inr _ \<Rightarrow> (case ie_rb_build env of Inl e \<Rightarrow> Err (Ringbuf_build_failed e) | Inr _ \<Rightarrow> Ok st))))"

definition scheduler_init ::
  "host \<Rightarrow> compat \<Rightarrow> tracefs \<Rightarrow> init_env \<Rightarrow> u32 \<Rightarrow> bool \<Rightarrow> u32 option \<Rightarrow> skel \<Rightarrow> init_error + started" where
  "scheduler_init h c fs env exit_dump_len no_webui bss_mask sk =
     (case ie_open env of
        Inl e \<Rightarrow> Err (Open_failed e)
      | Inr _ \<Rightarrow> (let config = config_default
      in case validate config of
        Inl e \<Rightarrow> Err (Config_failed e)
      | Inr _ \<Rightarrow> (case apply_config config (sk_rodata sk) of
        Inl e \<Rightarrow> Err (Config_failed e)
      | Inr r \<Rightarrow> (case init_topology h (Some r) of
        Inl e \<Rightarrow> Err (Config_failed e)
      | Inr (plan, rod) \<Rightarrow> (case set_ops c exit_dump_len (sk\<lparr>sk_rodata := rod\<rparr>) of
        Inl e \<Rightarrow> Err e
      | Inr sk1 \<Rightarrow> (case ie_load env (set_autoload fs sk1) of
        Inl e \<Rightarrow> Err (Load_failed e)
      | Inr sk2 \<Rightarrow>
          let (m1, e1) = write_primary_bitmap (ie_bitmap env) (capacity plan) maps_zero;
              (m2, e2) = write_llc_bitmaps (ie_bitmap env) (llcs plan) m1;
              (m3, e3) = write_llc_cpu_lists (ie_cpu_list env) (llcs plan) m2
          in start_services h env no_webui \<lparr>st_skel = sk2, st_plan = plan, st_maps = m3, st_primary_err = e1,
               st_llc_err = e2, st_list_err = e3, st_gpu_mask = seed_gpu_mask sk2 bss_mask, st_pm_qos = False,
               st_webui = None\<rparr>))))))"

text \<open>The load puts the object into the kernel as it is.\<close>

definition load_keeps :: "(skel \<Rightarrow> string + skel) \<Rightarrow> bool" where
  "load_keeps load \<longleftrightarrow> (\<forall>sk sk'. load sk = Ok sk' \<longrightarrow> sk' = sk)"

text \<open>The opened object has its read-only data and its load succeeds.\<close>

definition loads :: "init_env \<Rightarrow> tracefs \<Rightarrow> skel \<Rightarrow> bool" where
  "loads env fs sk \<longleftrightarrow> ie_open env = Ok () \<and> sk_rodata sk \<noteq> None
     \<and> (\<exists>sk1 sk2. ie_load env (set_autoload fs sk1) = Ok sk2)"

section \<open>What a started scheduler holds\<close>

lemma validate_default: "validate config_default = Ok ()"
  using validate_ok_cases [of config_default "()"] config_default_valid by simp

lemmas init_defs = scheduler_init_def start_services_def seed_gpu_mask_def validate_default

lemma apply_default:
  "\<exists>r'. apply_config config_default (Some r) = Ok r' \<and> config_of_rodata r' = config_default
     \<and> rodata_topology r' = rodata_topology r"
  by (simp add: apply_config_def config_of_rodata_def rodata_topology_def)

lemma init_topology_keeps:
  assumes "init_topology h (Some r) = Ok (plan, rod)"
  obtains r' where "rod = Some r'" "config_of_rodata r' = config_of_rodata r"
    "mlfq_idle_tracking r' = mlfq_idle_tracking r"
  using assms
  by (auto simp: init_topology_def Let_def config_of_rodata_def split: option.splits)

lemma set_ops_ok:
  assumes "set_ops c n sk = Ok sk'" and "sk_rodata sk = Some r"
  shows "sk_rodata sk' = Some (if SCX_OPS_KEEP_BUILTIN_IDLE c \<noteq> 0 then r\<lparr>mlfq_idle_tracking := 1\<rparr> else r)"
    and "sk_ops sk' = \<lparr>ops_flags = ops_flags_of c,
      ops_update_idle = (SCX_OPS_KEEP_BUILTIN_IDLE c \<noteq> 0 \<and> ops_update_idle (sk_ops sk)), ops_exit_dump_len = n\<rparr>"
  using assms by (auto simp: set_ops_def Let_def split: if_splits)

lemma set_autoload_frame [simp]:
  "sk_rodata (set_autoload fs sk) = sk_rodata sk" "sk_ops (set_autoload fs sk) = sk_ops sk"
  by (simp_all add: set_autoload_def Let_def)

lemma set_ops_total: "sk_rodata sk = Some r \<Longrightarrow> \<exists>sk'. set_ops c n sk = Ok sk'"
  by (simp add: set_ops_def Let_def)

lemma init_topology_total: "\<exists>plan rod. init_topology h (Some r) = Ok (plan, rod)"
  by (auto simp: init_topology_def Let_def split: option.split)

text \<open>The steps of a start that reaches the load, and of a successful one.\<close>

lemma scheduler_init_steps:
  assumes "sk_rodata sk = Some r0"
  obtains r1 plan rod sk1 where "apply_config config_default (Some r0) = Ok r1"
    "init_topology h (Some r1) = Ok (plan, rod)" "set_ops c n (sk\<lparr>sk_rodata := rod\<rparr>) = Ok sk1"
proof -
  obtain r1 where r1: "apply_config config_default (Some r0) = Ok r1" using apply_default by blast
  obtain plan rod where p: "init_topology h (Some r1) = Ok (plan, rod)" using init_topology_total by blast
  obtain r2 where r2: "rod = Some r2" by (rule init_topology_keeps [OF p])
  then have "sk_rodata (sk\<lparr>sk_rodata := rod\<rparr>) = Some r2" by simp
  from set_ops_total [OF this, of c n] obtain sk1 where "set_ops c n (sk\<lparr>sk_rodata := rod\<rparr>) = Ok sk1"
    by blast
  from that [OF r1 p this] show ?thesis .
qed

lemma scheduler_init_ok:
  assumes "scheduler_init h c fs env n nw bss sk = Ok st"
  obtains r0 r1 plan rod sk1 where "sk_rodata sk = Some r0" "apply_config config_default (Some r0) = Ok r1"
    "init_topology h (Some r1) = Ok (plan, rod)" "set_ops c n (sk\<lparr>sk_rodata := rod\<rparr>) = Ok sk1"
    "ie_load env (set_autoload fs sk1) = Ok (st_skel st)" "st_plan st = plan"
    "st_maps st = fst (write_llc_cpu_lists (ie_cpu_list env) (llcs plan)
       (fst (write_llc_bitmaps (ie_bitmap env) (llcs plan)
         (fst (write_primary_bitmap (ie_bitmap env) (capacity plan) maps_zero)))))"
    "st_llc_err st = snd (write_llc_bitmaps (ie_bitmap env) (llcs plan)
       (fst (write_primary_bitmap (ie_bitmap env) (capacity plan) maps_zero)))"
proof (cases "sk_rodata sk")
  case None
  with assms show ?thesis by (cases "ie_open env") (simp_all add: init_defs apply_config_def)
next
  case (Some r0)
  obtain r1 plan rod sk1 where s: "apply_config config_default (Some r0) = Ok r1"
    "init_topology h (Some r1) = Ok (plan, rod)" "set_ops c n (sk\<lparr>sk_rodata := rod\<rparr>) = Ok sk1"
    by (rule scheduler_init_steps [OF Some])
  from assms obtain sk2 where l: "ie_load env (set_autoload fs sk1) = Ok sk2"
    by (auto simp: init_defs Some s Let_def split: sum.splits)
  from assms have "ie_attach env = Ok () \<and> ie_launch env = Ok () \<and> ie_rb_add env = Ok () \<and> ie_rb_build env = Ok () \<and> ie_open env = Ok ()"
    by (simp add: init_defs Some s l Let_def case_prod_beta split: sum.splits)
  with assms show ?thesis
    by (intro that [OF Some s]) (auto simp: init_defs Some s l Let_def case_prod_beta)
qed

text \<open>
  C39. A start fails only where a step of it fails that is not best-effort, and with the error of the
  first such step in the order of the code: opening the object, its missing read-only data,
  loading it, attaching it, launching the stats server, adding the sample ring buffer or building it. No
  failure to discover the topology, to read sysfs, to write a map or to set PM QoS aborts a start,
  the default constants always validate, and the expected read-only section never panics.
\<close>

theorem startup_errors:
  "case scheduler_init h c fs env n nw bss sk of
     Inl (Open_failed m) \<Rightarrow> ie_open env = Err m
   | Inl (Config_failed e) \<Rightarrow> ie_open env = Ok () \<and> sk_rodata sk = None \<and> e = Rodata_missing
   | Inl No_rodata_panic \<Rightarrow> False
   | Inl (Load_failed m) \<Rightarrow> ie_open env = Ok () \<and> sk_rodata sk \<noteq> None \<and> (\<exists>sk1. ie_load env (set_autoload fs sk1) = Err m)
   | Inl (Attach_failed m) \<Rightarrow> loads env fs sk \<and> ie_attach env = Err m
   | Inl (Server_failed m) \<Rightarrow> loads env fs sk \<and> ie_attach env = Ok () \<and> ie_launch env = Err m
   | Inl (Ringbuf_add_failed m) \<Rightarrow> loads env fs sk \<and> ie_attach env = Ok () \<and> ie_launch env = Ok () \<and> ie_rb_add env = Err m
   | Inl (Ringbuf_build_failed m) \<Rightarrow> loads env fs sk \<and> ie_attach env = Ok () \<and> ie_launch env = Ok ()
       \<and> ie_rb_add env = Ok () \<and> ie_rb_build env = Err m
   | Inr st \<Rightarrow> ie_open env = Ok () \<and> sk_rodata sk \<noteq> None \<and> (\<exists>sk1. ie_load env (set_autoload fs sk1) = Ok (st_skel st))
       \<and> ie_attach env = Ok () \<and> ie_launch env = Ok () \<and> ie_rb_add env = Ok () \<and> ie_rb_build env = Ok ()"
proof (cases "sk_rodata sk")
  case None
  then show ?thesis by (cases "ie_open env") (simp_all add: init_defs apply_config_def)
next
  case (Some r0)
  obtain r1 plan rod sk1 where s: "apply_config config_default (Some r0) = Ok r1"
    "init_topology h (Some r1) = Ok (plan, rod)" "set_ops c n (sk\<lparr>sk_rodata := rod\<rparr>) = Ok sk1"
    by (rule scheduler_init_steps [OF Some])
  show ?thesis
    by (cases "ie_open env"; cases "ie_load env (set_autoload fs sk1)"; cases "ie_attach env"; cases "ie_launch env";
        cases "ie_rb_add env"; cases "ie_rb_build env")
      (auto simp: init_defs Some s Let_def case_prod_beta loads_def)
qed

text \<open>A start on a host of two CPUs with a cache each, where nothing fails.\<close>

definition example_host :: host where
  "example_host = \<lparr>host_topology = Some [\<lparr>hc_id = 0, hc_llc_id = 0, hc_core_id = 0, hc_max_freq = 4800\<rparr>,
       \<lparr>hc_id = 1, hc_llc_id = 1, hc_core_id = 1, hc_max_freq = 3600\<rparr>],
     host_primaries = Some [1], host_llc_id = (\<lambda>_. None), host_cache = (\<lambda>_. None), host_smt_active = None\<rparr>"

definition example_compat :: compat where
  "example_compat = \<lparr>SCX_OPS_ENQ_EXITING = 4, SCX_OPS_ENQ_LAST = 2, SCX_OPS_ENQ_MIGRATION_DISABLED = 16,
     SCX_OPS_ALLOW_QUEUED_WAKEUP = 32, SCX_OPS_KEEP_BUILTIN_IDLE = 1\<rparr>"

definition example_tracefs :: tracefs where
  "example_tracefs = \<lparr>fs_amdgpu_cs = (True, False), fs_amdgpu_cs_ioctl = (False, False),
     fs_gpu_sched_queue = (False, True)\<rparr>"

definition example_env :: init_env where
  "example_env = \<lparr>ie_open = Ok (), ie_load = Ok, ie_bitmap = array_update, ie_cpu_list = array_update, ie_attach = Ok (),
     ie_pm_supported = True, ie_pm_update = (\<lambda>_. Ok ()), ie_launch = Ok (), ie_rb_add = Ok (), ie_rb_build = Ok ()\<rparr>"

definition example_skel :: "rodata \<Rightarrow> skel" where
  "example_skel r = \<lparr>sk_rodata = Some r,
     sk_ops = \<lparr>ops_flags = 0, ops_update_idle = True, ops_exit_dump_len = 0\<rparr>,
     sk_auto_sched_switch = False, sk_auto_amdgpu_cs = True, sk_auto_amdgpu_cs_ioctl = True,
     sk_auto_gpu_sched_queue = True\<rparr>"

lemma example_starts:
  "\<exists>st. scheduler_init example_host example_compat example_tracefs example_env 0 False (Some 0)
     (example_skel r0) = Ok st"
proof -
  have sk: "sk_rodata (example_skel r0) = Some r0" by (simp add: example_skel_def)
  obtain r1 plan rod sk1 where "apply_config config_default (Some r0) = Ok r1"
    "init_topology example_host (Some r1) = Ok (plan, rod)"
    "set_ops example_compat 0 ((example_skel r0)\<lparr>sk_rodata := rod\<rparr>) = Ok sk1"
    by (rule scheduler_init_steps [OF sk])
  then show ?thesis
    by (simp add: init_defs sk example_env_def Let_def case_prod_beta)
qed

lemma example_load_keeps: "load_keeps (ie_load example_env)"
  by (simp add: load_keeps_def example_env_def)

lemma flags_keep: "SCX_OPS_KEEP_BUILTIN_IDLE c \<noteq> 0 \<Longrightarrow>
    ops_flags_of c AND SCX_OPS_KEEP_BUILTIN_IDLE c = SCX_OPS_KEEP_BUILTIN_IDLE c"
  by (rule bit_word_eqI) (auto simp: ops_flags_of_def Let_def bit_simps)

lemma started_rodata:
  assumes "load_keeps (ie_load env)" and "scheduler_init h c fs env n nw bss sk = Ok st"
  obtains r where "sk_rodata (st_skel st) = Some r" and "config_of_rodata r = config_default"
proof -
  obtain r0 r1 plan rod sk1 where s: "sk_rodata sk = Some r0" "apply_config config_default (Some r0) = Ok r1"
    "init_topology h (Some r1) = Ok (plan, rod)" "set_ops c n (sk\<lparr>sk_rodata := rod\<rparr>) = Ok sk1"
    "ie_load env (set_autoload fs sk1) = Ok (st_skel st)"
    by (rule scheduler_init_ok [OF assms(2)])
  have r1: "config_of_rodata r1 = config_default" using apply_default [of r0] s(2) by auto
  obtain r2 where r2: "rod = Some r2" "config_of_rodata r2 = config_of_rodata r1"
    by (rule init_topology_keeps [OF s(3)])
  have sk: "st_skel st = set_autoload fs sk1" using assms(1) s(5) by (auto simp: load_keeps_def)
  have "sk_rodata (sk\<lparr>sk_rodata := rod\<rparr>) = Some r2" by (simp add: r2(1))
  note o = set_ops_ok [OF s(4) this]
  have "config_of_rodata (r2\<lparr>mlfq_idle_tracking := 1\<rparr>) = config_default"
    using r1 r2 by (simp add: config_of_rodata_def)
  then show ?thesis using that o(1) r1 r2 sk by (cases "SCX_OPS_KEEP_BUILTIN_IDLE c = 0") auto
qed

text \<open>
  The object of a started scheduler carries the default constants, which are valid, whatever the
  topology step wrote. The idle callback is registered only together with the flag that keeps
  the kernel's idle tracking, and the read-only data says so.
\<close>

theorem started_object:
  assumes "load_keeps (ie_load env)" and "sk_rodata sk = Some r0"
    and "scheduler_init h c fs env n nw bss sk = Ok st"
  shows "\<exists>r. sk_rodata (st_skel st) = Some r \<and> config_of_rodata r = config_default
    \<and> config_valid (config_of_rodata r)
    \<and> (if SCX_OPS_KEEP_BUILTIN_IDLE c = 0
       then \<not> ops_update_idle (sk_ops (st_skel st)) \<and> mlfq_idle_tracking r = mlfq_idle_tracking r0
       else ops_flags (sk_ops (st_skel st)) AND SCX_OPS_KEEP_BUILTIN_IDLE c = SCX_OPS_KEEP_BUILTIN_IDLE c
         \<and> mlfq_idle_tracking r = 1)"
proof -
  obtain r0' r1 plan rod sk1 where s: "sk_rodata sk = Some r0'" "apply_config config_default (Some r0') = Ok r1"
    "init_topology h (Some r1) = Ok (plan, rod)" "set_ops c n (sk\<lparr>sk_rodata := rod\<rparr>) = Ok sk1"
    "ie_load env (set_autoload fs sk1) = Ok (st_skel st)"
    by (rule scheduler_init_ok [OF assms(3)])
  have r1: "config_of_rodata r1 = config_default" "mlfq_idle_tracking r1 = mlfq_idle_tracking r0"
    using apply_default [of r0'] s(1,2) assms(2) by (auto simp: rodata_topology_def)
  obtain r2 where r2: "rod = Some r2" "config_of_rodata r2 = config_of_rodata r1"
    "mlfq_idle_tracking r2 = mlfq_idle_tracking r1"
    by (rule init_topology_keeps [OF s(3)])
  have sk: "st_skel st = set_autoload fs sk1" using assms(1) s(5) by (auto simp: load_keeps_def)
  have "sk_rodata (sk\<lparr>sk_rodata := rod\<rparr>) = Some r2" by (simp add: r2(1))
  note o = set_ops_ok [OF s(4) this]
  have cfg: "config_of_rodata (r\<lparr>mlfq_idle_tracking := 1\<rparr>) = config_of_rodata r" for r
    by (simp add: config_of_rodata_def)
  show ?thesis
    unfolding sk using o r1 r2 flags_keep [of c] config_default_valid by (auto simp: cfg)
qed

theorem started_object_witness:
  "\<forall>r0. \<exists>st r. scheduler_init example_host example_compat example_tracefs example_env 0 False (Some 0)
      (example_skel r0) = Ok st \<and> sk_rodata (st_skel st) = Some r \<and> config_of_rodata r = config_default
    \<and> mlfq_idle_tracking r = 1"
proof
  fix r0
  obtain st where st: "scheduler_init example_host example_compat example_tracefs example_env 0 False (Some 0)
      (example_skel r0) = Ok st"
    using example_starts by blast
  have "sk_rodata (example_skel r0) = Some r0" by (simp add: example_skel_def)
  from started_object [OF example_load_keeps this st] st
  show "\<exists>st r. scheduler_init example_host example_compat example_tracefs example_env 0 False (Some 0)
      (example_skel r0) = Ok st \<and> sk_rodata (st_skel st) = Some r \<and> config_of_rodata r = config_default
    \<and> mlfq_idle_tracking r = 1"
    by (auto simp: example_compat_def)
qed

definition host_cpus :: "host \<Rightarrow> host_cpu list" where
  "host_cpus h = (case host_topology h of None \<Rightarrow> [] | Some cpus \<Rightarrow> cpus)"

lemma init_plan_llcs:
  assumes "init_topology h (Some r) = Ok (plan, Some r')" and "nr_llcs (llcs plan) \<noteq> 0"
  obtains prim where "nr_llcs (llcs plan) = nr_llcs (plan_llcs (host_llc_map (host_cpus h)) prim MLFQ_MAX_LLCS)"
    "llc_cpus (llcs plan) = llc_cpus (plan_llcs (host_llc_map (host_cpus h)) prim MLFQ_MAX_LLCS)"
    "mlfq_nr_llcs r' = nr_llcs (llcs plan)"
    "mlfq_cpu_llc r' = cpu_llc (plan_llcs (host_llc_map (host_cpus h)) prim MLFQ_MAX_LLCS)"
proof (cases "host_topology h")
  case None
  with assms show ?thesis by (auto simp: init_topology_def uniform_plan_def llc_plan_off_def)
next
  case (Some cpus)
  with assms(1) show ?thesis
    by (intro that [of "primary_cpus (plan_primary_mask (primary_list h) (length cpus))"])
      (auto simp: init_topology_def Let_def host_cpus_def)
qed

text \<open>
  C28. Once the LLC bitmaps are written, the two views the BPF side has of the cache domains agree:
  the bitmap of a domain holds exactly the CPUs whose entry in the read-only table is that
  domain.
\<close>

theorem llc_views_agree:
  assumes "load_keeps (ie_load env)" and "update_replaces (ie_bitmap env)"
    and "scheduler_init h c fs env n nw bss sk = Ok st" and "st_llc_err st = None"
    and "distinct (map fst (host_llc_map (host_cpus h)))"
    and "unat cpu < MLFQ_MAX_CPUS" and "unat llc < unat (nr_llcs (llcs (st_plan st)))"
  shows "\<exists>r. sk_rodata (st_skel st) = Some r \<and> mlfq_nr_llcs r = nr_llcs (llcs (st_plan st))
    \<and> (mlfq_bitmap_test_cpu (llc_bitmaps (st_maps st) llc) cpu \<longleftrightarrow> mlfq_cpu_llc r ! unat cpu = llc)"
proof -
  obtain r0 r1 plan rod sk1 where s: "sk_rodata sk = Some r0" "apply_config config_default (Some r0) = Ok r1"
    "init_topology h (Some r1) = Ok (plan, rod)" "set_ops c n (sk\<lparr>sk_rodata := rod\<rparr>) = Ok sk1"
    "ie_load env (set_autoload fs sk1) = Ok (st_skel st)" "st_plan st = plan"
    "st_maps st = fst (write_llc_cpu_lists (ie_cpu_list env) (llcs plan) (fst (write_llc_bitmaps (ie_bitmap env) (llcs plan)
       (fst (write_primary_bitmap (ie_bitmap env) (capacity plan) maps_zero)))))"
    "st_llc_err st = snd (write_llc_bitmaps (ie_bitmap env) (llcs plan) (fst (write_primary_bitmap (ie_bitmap env) (capacity plan) maps_zero)))"
    by (rule scheduler_init_ok [OF assms(3)])
  obtain r2 where r2: "rod = Some r2" by (rule init_topology_keeps [OF s(3)])
  have nz: "nr_llcs (llcs plan) \<noteq> 0" using assms(7) s(6) by auto
  obtain prim where p: "nr_llcs (llcs plan) = nr_llcs (plan_llcs (host_llc_map (host_cpus h)) prim MLFQ_MAX_LLCS)"
    "llc_cpus (llcs plan) = llc_cpus (plan_llcs (host_llc_map (host_cpus h)) prim MLFQ_MAX_LLCS)"
    "mlfq_nr_llcs r2 = nr_llcs (llcs plan)"
    "mlfq_cpu_llc r2 = cpu_llc (plan_llcs (host_llc_map (host_cpus h)) prim MLFQ_MAX_LLCS)"
    by (rule init_plan_llcs [OF s(3) [unfolded r2] nz])
  have sk: "st_skel st = set_autoload fs sk1" using assms(1) s(5) by (auto simp: load_keeps_def)
  have "sk_rodata (sk\<lparr>sk_rodata := rod\<rparr>) = Some r2" by (simp add: r2)
  note o = set_ops_ok(1) [OF s(4) this]
  define m1 where "m1 = fst (write_primary_bitmap (ie_bitmap env) (capacity plan) maps_zero)"
  have "snd (write_llc_bitmaps (ie_bitmap env) (llcs plan) m1) = None" using assms(4) s(8) by (simp add: m1_def)
  then have w: "write_all (ie_bitmap env) (\<lambda>llc. build_bitmap (llc_cpus (llcs plan) ! llc)) [0..<unat (nr_llcs (llcs plan))]
      (llc_bitmaps m1) = (llc_bitmaps (st_maps st), None)"
    using nz s(7) unfolding m1_def [symmetric]
    by (auto simp: write_llc_bitmaps_def write_llc_cpu_lists_def Let_def case_prod_beta prod_eq_iff)
  have am: "array_map (ie_bitmap env)" using assms(2) by (simp add: array_map_iff)
  have "unat (nr_llcs (llcs plan)) < 4294967296" using unsigned_less [of "nr_llcs (llcs plan)", where ?'a = nat] by simp
  then have b: "llc_bitmaps (st_maps st) llc = build_bitmap (llc_cpus (llcs plan) ! unat llc)"
    using array_map.write_range_ok [OF am w] assms(7) s(6) by simp
  have "mlfq_bitmap_test_cpu (llc_bitmaps (st_maps st) llc) cpu
    \<longleftrightarrow> map_of (host_llc_map (host_cpus h)) cpu = Some llc"
    unfolding b build_bitmap_test p(2)
    using plan_llcs_view [OF assms(5) _ assms(6), of prim llc] nz p(1) assms(6,7) s(6) by simp
  also have "\<dots> \<longleftrightarrow> mlfq_cpu_llc r2 ! unat cpu = llc"
  proof -
    have "llc \<noteq> of_nat MLFQ_MAX_LLCS"
    proof
      assume "llc = of_nat MLFQ_MAX_LLCS"
      moreover have "unat (nr_llcs (llcs plan)) \<le> MLFQ_MAX_LLCS"
        unfolding p(1) by (rule plan_llcs_on [OF _ order_refl]) (use nz p(1) in auto)
      ultimately show False using assms(7) s(6) by (simp add: const_defs)
    qed
    then show ?thesis
      unfolding p(4) using plan_llcs_view [OF assms(5) _ assms(6), of prim llc] nz p(1) assms(7) s(6)
      by (auto split: option.splits)
  qed
  finally show ?thesis
    unfolding sk using o p(3) s(6) by auto
qed

lemma write_all_array_update [simp]: "snd (write_all array_update val ks m) = None"
  by (induction ks arbitrary: m) (simp_all add: array_update_def)

lemma example_plan:
  assumes "init_topology example_host (Some r) = Ok (plan, rod)"
  shows "nr_llcs (llcs plan) = 2"
proof -
  have "primary_cpus (plan_primary_mask [1] (Suc (Suc 0))) = [1]" by (simp add: plan_primary_mask_def Let_def const_defs)
  then show ?thesis
    using assms plan_two_domains
    by (auto simp: init_topology_def example_host_def primary_list_def host_llc_map_def Let_def)
qed

theorem llc_views_agree_witness:
  "\<forall>r0. \<exists>st r. scheduler_init example_host example_compat example_tracefs example_env 0 False (Some 0)
      (example_skel r0) = Ok st \<and> sk_rodata (st_skel st) = Some r \<and> mlfq_nr_llcs r = 2
    \<and> (mlfq_bitmap_test_cpu (llc_bitmaps (st_maps st) 1) 1 \<longleftrightarrow> mlfq_cpu_llc r ! 1 = 1)"
proof
  fix r0
  obtain st where st: "scheduler_init example_host example_compat example_tracefs example_env 0 False (Some 0)
      (example_skel r0) = Ok st"
    using example_starts by blast
  obtain r0' r1 plan rod sk1 where p: "init_topology example_host (Some r1) = Ok (plan, rod)" "st_plan st = plan"
    and e: "st_llc_err st = snd (write_llc_bitmaps (ie_bitmap example_env) (llcs plan)
       (fst (write_primary_bitmap (ie_bitmap example_env) (capacity plan) maps_zero)))"
    by (rule scheduler_init_ok [OF st])
  have nr: "nr_llcs (llcs (st_plan st)) = 2" using example_plan [OF p(1)] p(2) by simp
  have "st_llc_err st = None"
    unfolding e by (simp add: example_env_def write_llc_bitmaps_def Let_def case_prod_beta)
  moreover have "update_replaces (ie_bitmap example_env)"
    by (simp add: example_env_def array_update_replaces)
  moreover have "distinct (map fst (host_llc_map (host_cpus example_host)))"
    by (simp add: host_llc_map_def host_cpus_def example_host_def)
  ultimately have "\<exists>r. sk_rodata (st_skel st) = Some r \<and> mlfq_nr_llcs r = nr_llcs (llcs (st_plan st))
    \<and> (mlfq_bitmap_test_cpu (llc_bitmaps (st_maps st) 1) 1 \<longleftrightarrow> mlfq_cpu_llc r ! unat (1 :: u32) = 1)"
    using nr by (intro llc_views_agree [OF example_load_keeps _ st]) (simp_all add: const_defs)
  with st nr show "\<exists>st r. scheduler_init example_host example_compat example_tracefs example_env 0 False (Some 0)
      (example_skel r0) = Ok st \<and> sk_rodata (st_skel st) = Some r \<and> mlfq_nr_llcs r = 2
    \<and> (mlfq_bitmap_test_cpu (llc_bitmaps (st_maps st) 1) 1 \<longleftrightarrow> mlfq_cpu_llc r ! 1 = 1)"
    by auto
qed

end
