(* ===== verification/Gauge.thy ===== *)
theory Gauge
  imports Intf
begin

text \<open>
  The gauges of the scheduler, from \<open>src/scx/src/bpf/intf.h\<close>: \<open>mlfq_ema_climb\<close> and
  \<open>mlfq_ema_decay\<close> move the interactivity gauge of a task and the busy gauge of a CPU,
  \<open>mlfq_sys_lat_fold\<close> and \<open>mlfq_sys_rate_step\<close> the two system gauges, and
  \<open>mlfq_cpuperf_from_ema\<close> reads a busy gauge as a frequency target. Division by zero is 0 in
  BPF, as it is on words here. The lemmas give the values on the numbers, the bounds of each
  gauge, and that no product leaves 64 bits at the constants of the program.
\<close>

section \<open>Operations\<close>

definition mlfq_ema_climb :: "u64 \<Rightarrow> u64 \<Rightarrow> u64 \<Rightarrow> u64 \<Rightarrow> u64" where
  "mlfq_ema_climb g delta bmax al =
     (let d = (if bmax < delta then bmax else delta);
          gap = bmax - g
      in if gap = 0 then g
         else let step = gap * d * al div (bmax * FP_ONE);
                  step = (if gap < step then gap else step)
              in g + step)"

definition mlfq_ema_decay :: "u64 \<Rightarrow> u64 \<Rightarrow> u64 \<Rightarrow> u64" where
  "mlfq_ema_decay g slept half_life =
     (if push_bit 6 half_life \<le> slept then 0
      else let periods = slept div half_life;
               sub = slept mod half_life;
               decayed = drop_bit (unat periods) g
           in if sub = 0 \<or> decayed = 0 then decayed
              else let x_fp = sub * FP_ONE div half_life;
                       a_fp = x_fp * 177 div FP_ONE;
                       factor_fp = FP_ONE - a_fp + (a_fp * a_fp) div push_bit 1 FP_ONE
                   in decayed * factor_fp div FP_ONE)"

definition mlfq_sys_lat_fold :: "u64 \<Rightarrow> u64 \<Rightarrow> u64 \<Rightarrow> u64 \<Rightarrow> u64 \<Rightarrow> u64 \<Rightarrow> u64" where
  "mlfq_sys_lat_fold lat_ema wait_total wait_count elapsed half_life max_ns =
     (if wait_count = 0 then lat_ema
      else let avg = wait_total div wait_count;
               avg = (if max_ns < avg then max_ns else avg);
               factor = mlfq_ema_decay FP_ONE elapsed half_life;
               decayed = mlfq_ema_decay lat_ema elapsed half_life;
               rise = avg * (FP_ONE - factor) div FP_ONE;
               v = decayed + rise
           in if max_ns < v then max_ns else v)"

definition mlfq_sys_rate_step :: "u64 \<Rightarrow> u32 \<Rightarrow> u64 \<Rightarrow> u64" where
  "mlfq_sys_rate_step rate_ema wakeup_cnt elapsed =
     (let e = (if elapsed < MLFQ_ADAPT_MIN_INTERVAL_NS then MLFQ_ADAPT_MIN_INTERVAL_NS else elapsed);
          e = (if MLFQ_SYS_RATE_WINDOW_MAX_NS < e then MLFQ_SYS_RATE_WINDOW_MAX_NS else e);
          rate_i = ucast wakeup_cnt * NSEC_PER_SEC div e;
          rate_i = (if MLFQ_SYS_RATE_MAX < rate_i then MLFQ_SYS_RATE_MAX else rate_i);
          rate_i_fp = push_bit FP_SHIFT rate_i;
          factor = mlfq_ema_decay FP_ONE e MLFQ_SYS_GAUGE_HALF_LIFE_NS
      in rate_ema * factor div FP_ONE + rate_i_fp * (FP_ONE - factor) div FP_ONE)"

definition mlfq_cpuperf_from_ema :: "u64 \<Rightarrow> u32" where
  "mlfq_cpuperf_from_ema g =
     (let perf = g * MLFQ_CPUPERF_Q1 div MLFQ_BUDGET_MAX_NS
      in if MLFQ_CPUPERF_Q1 < perf then ucast MLFQ_CPUPERF_Q1 else ucast perf)"

section \<open>The climb\<close>

lemma FP_ONE_eq: "FP_ONE = 256"
  by (simp add: const_defs)

lemma unat_FP_ONE: "unat FP_ONE = 256"
  by (simp add: FP_ONE_eq)

lemma climb_bounds:
  assumes "g \<le> bmax"
  shows "g \<le> mlfq_ema_climb g delta bmax al" and "mlfq_ema_climb g delta bmax al \<le> bmax"
proof -
  have key: "g \<le> g + s \<and> g + s \<le> bmax" if "s \<le> bmax - g" for s
  proof -
    have "unat s \<le> unat bmax - unat g"
      using that assms by (simp add: word_le_nat_alt unat_sub)
    moreover have "unat bmax < 18446744073709551616" by (rule unat_u64_less)
    ultimately have "unat (g + s) = unat g + unat s"
      using assms by (intro unat_add_in_range) (simp add: word_le_nat_alt)
    with \<open>unat s \<le> _\<close> assms show ?thesis by (simp add: word_le_nat_alt)
  qed
  have *: "(if bmax - g < st then bmax - g else st) \<le> bmax - g" for st by (simp add: not_less)
  show "g \<le> mlfq_ema_climb g delta bmax al" and "mlfq_ema_climb g delta bmax al \<le> bmax"
    using assms key [OF *] by (auto simp: mlfq_ema_climb_def Let_def)
qed

text \<open>The value on the numbers, when the largest product fits.\<close>

definition climb_nat :: "nat \<Rightarrow> nat \<Rightarrow> nat \<Rightarrow> nat \<Rightarrow> nat" where
  "climb_nat g d b a = g + min (b - g) ((b - g) * min d b * a div (b * 256))"

lemma unat_climb:
  assumes "g \<le> bmax" and "unat bmax * unat bmax * unat al < 18446744073709551616"
    and "unat bmax * 256 < 18446744073709551616"
  shows "unat (mlfq_ema_climb g delta bmax al) = climb_nat (unat g) (unat delta) (unat bmax) (unat al)"
proof (cases "g = bmax \<or> al = 0")
  case True
  then show ?thesis by (auto simp: mlfq_ema_climb_def climb_nat_def Let_def)
next
  case False
  define d where "d = (if bmax < delta then bmax else delta)"
  have d: "unat d = min (unat delta) (unat bmax)"
    by (auto simp: d_def word_less_nat_alt)
  have gap: "unat (bmax - g) = unat bmax - unat g" using assms(1) by (simp add: unat_sub)
  have gap0: "bmax \<noteq> g" "bmax - g \<noteq> 0" using False by auto
  have al1: "1 \<le> unat al" using False by (simp add: Suc_leI unat_gt_0)
  have le: "(unat bmax - unat g) * unat d \<le> unat bmax * unat bmax"
    using d by (intro mult_le_mono) auto
  have le2: "(unat bmax - unat g) * unat d * unat al \<le> unat bmax * unat bmax * unat al"
    using le by (rule mult_le_mono1)
  have "(unat bmax - unat g) * unat d * 1 \<le> (unat bmax - unat g) * unat d * unat al"
    using al1 by (rule mult_le_mono2)
  then have le3: "(unat bmax - unat g) * unat d \<le> (unat bmax - unat g) * unat d * unat al"
    by (simp only: mult_1_right)
  note lt2 = le_less_trans [OF le2 assms(2)]
  have p1: "unat ((bmax - g) * d) = (unat bmax - unat g) * unat d"
    using le_less_trans [OF le3 lt2] by (simp only: unat_mult_in_range gap)
  have p2: "unat ((bmax - g) * d * al) = (unat bmax - unat g) * unat d * unat al"
    using lt2 by (simp only: unat_mult_in_range p1)
  have p3: "unat (bmax * FP_ONE) = unat bmax * 256"
    using assms(3) by (simp add: unat_mult_in_range unat_FP_ONE)
  define st where "st = (bmax - g) * d * al div (bmax * FP_ONE)"
  have st: "unat st = (unat bmax - unat g) * min (unat delta) (unat bmax) * unat al div (unat bmax * 256)"
    by (simp add: st_def unat_div_mod_drop p2 p3 d)
  have lt: "unat bmax < 18446744073709551616" by (rule unat_u64_less)
  have m: "unat (if bmax - g < st then bmax - g else st) = min (unat bmax - unat g) (unat st)"
    by (auto simp: word_less_nat_alt gap)
  have "unat (g + (if bmax - g < st then bmax - g else st)) = unat g + min (unat bmax - unat g) (unat st)"
    using assms(1) lt m by (subst unat_add_in_range) (auto simp: word_le_nat_alt)
  moreover have "mlfq_ema_climb g delta bmax al = g + (if bmax - g < st then bmax - g else st)"
    using gap0(2) by (simp only: mlfq_ema_climb_def Let_def d_def [symmetric] st_def [symmetric] if_False)
  ultimately show ?thesis by (simp only: st climb_nat_def)
qed

section \<open>The decay\<close>

text \<open>The factor of the fractional period, and the decay on the numbers.\<close>

definition factor_nat :: "nat \<Rightarrow> nat" where
  "factor_nat x = (let a = x * 177 div 256 in 256 - a + a * a div 512)"

definition decay_nat :: "nat \<Rightarrow> nat \<Rightarrow> nat \<Rightarrow> nat" where
  "decay_nat g s h = (if 64 * h \<le> s then 0
     else let d = g div 2 ^ (s div h)
          in if s mod h = 0 then d else d * factor_nat (s mod h * 256 div h) div 256)"

lemma factor_nat_le: "factor_nat x \<le> 256" if "x < 256"
proof -
  define a where "a = x * 177 div 256"
  have a: "a \<le> 176" using that unfolding a_def by linarith
  have "a * a div 512 \<le> a"
  proof -
    have "a * a \<le> a * 512" using a by (intro mult_le_mono2) simp
    then have "a * a div 512 \<le> a * 512 div 512" by (rule div_le_mono)
    then show ?thesis by simp
  qed
  then show ?thesis using a by (simp add: factor_nat_def Let_def a_def [symmetric])
qed

lemma factor_step: "256 - Suc a + Suc a * Suc a div 512 \<le> 256 - a + a * a div 512" if "a < 256" for a :: nat
proof -
  have "Suc a * Suc a \<le> a * a + 1 * 512" using that by (simp add: algebra_simps)
  then have "Suc a * Suc a div 512 \<le> (a * a + 1 * 512) div 512" by (rule div_le_mono)
  then have "Suc a * Suc a div 512 \<le> a * a div 512 + 1"
    by simp
  with that show ?thesis by linarith
qed

lemma factor_mono: "256 - b + b * b div 512 \<le> 256 - a + a * a div 512" if "a \<le> b" and "b \<le> 256" for a b :: nat
  using that
proof (induction b rule: dec_induct)
  case base
  then show ?case by simp
next
  case (step n)
  then show ?case using factor_step [of n] by linarith
qed

lemma factor_nat_antimono: "factor_nat y \<le> factor_nat x" if "x \<le> y" and "y < 256"
proof -
  have "x * 177 div 256 \<le> y * 177 div 256" using that by (intro div_le_mono) simp
  moreover have "y * 177 div 256 \<le> 256" using that by linarith
  ultimately show ?thesis unfolding factor_nat_def Let_def by (rule factor_mono)
qed

lemma factor_nat_ge: "140 \<le> factor_nat x" if "x < 256"
proof -
  have "factor_nat 255 \<le> factor_nat x" using that by (intro factor_nat_antimono) auto
  moreover have "factor_nat 255 = 140" by (simp add: factor_nat_def)
  ultimately show ?thesis by simp
qed

lemma sub_period_less: "s mod h * 256 div h < 256" if "0 < h" for s h :: nat
proof -
  have "s mod h * 256 < h * 256" using that by simp
  then show ?thesis using that by (simp add: less_mult_imp_div_less mult.commute)
qed

lemma unat_half_lives: "unat (push_bit 6 h :: u64) = 64 * unat h" if "unat h * 256 < 18446744073709551616"
  using that by (simp add: push_bit_eq_mult unat_mult_in_range)

lemma unat_decay:
  assumes h: "unat h * 256 < 18446744073709551616" and g: "unat g * 256 < 18446744073709551616"
  shows "unat (mlfq_ema_decay g s h) = decay_nat (unat g) (unat s) (unat h)"
proof (cases "push_bit 6 h \<le> s")
  case True
  then show ?thesis
    using unat_half_lives [OF h] by (simp add: mlfq_ema_decay_def decay_nat_def word_le_nat_alt)
next
  case False
  then have nat: "\<not> 64 * unat h \<le> unat s" using unat_half_lives [OF h] by (simp add: word_le_nat_alt)
  then have h0: "0 < unat h" by simp
  define d where "d = drop_bit (unat (s div h)) g"
  have d: "unat d = unat g div 2 ^ (unat s div unat h)" by (simp add: d_def unat_div_mod_drop)
  have sub: "unat (s mod h) = unat s mod unat h" by (simp add: unat_div_mod_drop)
  define x where "x = s mod h * FP_ONE div h"
  have "unat (s mod h) * 256 \<le> unat h * 256" using h0 sub by simp
  then have "unat (s mod h * FP_ONE) = unat s mod unat h * 256"
    using h by (simp add: unat_mult_in_range unat_FP_ONE sub)
  then have x: "unat x = unat s mod unat h * 256 div unat h" by (simp add: x_def unat_div_mod_drop)
  have x256: "unat x < 256" unfolding x using h0 by (rule sub_period_less)
  define a where "a = x * 177 div FP_ONE"
  have a: "unat a = unat x * 177 div 256"
    using x256 by (simp add: a_def unat_div_mod_drop unat_FP_ONE unat_mult_in_range)
  have a176: "unat a \<le> 176" using x256 unfolding a by linarith
  have aa: "unat a * unat a \<le> 176 * 176" using a176 by (rule mult_le_mono [OF a176])
  have q: "unat (a * a div push_bit 1 FP_ONE) = unat a * unat a div 512"
  proof -
    have "unat (push_bit 1 FP_ONE) = 512" by (simp add: FP_ONE_eq)
    then show ?thesis using aa by (simp add: unat_div_mod_drop unat_mult_in_range)
  qed
  define f where "f = FP_ONE - a + a * a div push_bit 1 FP_ONE"
  have "a \<le> FP_ONE" using a176 by (simp add: word_le_nat_alt unat_FP_ONE)
  then have s1: "unat (FP_ONE - a) = 256 - unat a" by (simp add: unat_sub_in_range unat_FP_ONE)
  have "unat a * unat a div 512 \<le> 176 * 176 div 512" using aa by (rule div_le_mono)
  then have "256 - unat a + unat a * unat a div 512 < 18446744073709551616" by linarith
  then have f: "unat f = factor_nat (unat x)"
    unfolding f_def by (simp only: unat_add_in_range s1 q factor_nat_def Let_def a)
  have "unat d * unat f \<le> unat g * 256"
    using factor_nat_le [OF x256] unfolding f d by (intro mult_le_mono) auto
  then have p: "unat (d * f div FP_ONE) = unat d * factor_nat (unat x) div 256"
    using g f by (simp add: unat_div_mod_drop unat_mult_in_range unat_FP_ONE)
  have "mlfq_ema_decay g s h = (if s mod h = 0 \<or> d = 0 then d else d * f div FP_ONE)"
    using False by (simp only: mlfq_ema_decay_def Let_def d_def x_def a_def f_def if_False)
  moreover have "s mod h = 0 \<longleftrightarrow> unat s mod unat h = 0"
    by (simp only: sub [symmetric] unat_eq_zero)
  moreover have "unat (0 :: u64) = 0" by simp
  ultimately show ?thesis
    unfolding decay_nat_def Let_def if_not_P [OF nat] d [symmetric] x [symmetric]
    using p by (cases "d = 0") (simp_all del: unat_div_mod_drop)
qed

lemma decay_nat_le: "decay_nat g s h \<le> g"
proof (cases "64 * h \<le> s \<or> s mod h = 0")
  case True
  then show ?thesis by (auto simp: decay_nat_def Let_def)
next
  case False
  then have "0 < h" by (cases h) auto
  then have "factor_nat (s mod h * 256 div h) \<le> 256" by (intro factor_nat_le sub_period_less)
  then have "g div 2 ^ (s div h) * factor_nat (s mod h * 256 div h) \<le> g div 2 ^ (s div h) * 256"
    by (rule mult_le_mono2)
  then have "g div 2 ^ (s div h) * factor_nat (s mod h * 256 div h) div 256 \<le> g div 2 ^ (s div h) * 256 div 256"
    by (rule div_le_mono)
  also have "\<dots> \<le> g" by simp
  finally show ?thesis using False by (simp add: decay_nat_def Let_def)
qed

lemma decay_nat_antimono: "decay_nat g t h \<le> decay_nat g s h" if "s \<le> t"
proof (cases "64 * h \<le> t")
  case True
  then show ?thesis by (simp add: decay_nat_def)
next
  case False
  then have h0: "0 < h" by (cases h) auto
  have s64: "\<not> 64 * h \<le> s" using False that by simp
  define d where "d = g div 2 ^ (s div h)"
  have f256: "factor_nat (r mod h * 256 div h) \<le> 256" for r
    using sub_period_less [OF h0] by (rule factor_nat_le)
  have le: "e * factor_nat (r mod h * 256 div h) div 256 \<le> e" for e r
  proof -
    have "e * factor_nat (r mod h * 256 div h) \<le> e * 256" using f256 by (rule mult_le_mono2)
    then have "e * factor_nat (r mod h * 256 div h) div 256 \<le> e * 256 div 256" by (rule div_le_mono)
    then show ?thesis by simp
  qed
  have top: "decay_nat g t h \<le> g div 2 ^ (t div h)"
    using False le by (simp add: decay_nat_def Let_def)
  show ?thesis
  proof (cases "s div h = t div h")
    case True
    have mod: "s mod h \<le> t mod h"
    proof -
      have "s = s div h * h + s mod h" "t = s div h * h + t mod h"
        using div_mult_mod_eq [of s h] div_mult_mod_eq [of t h] True by simp_all
      with that show ?thesis by linarith
    qed
    have "s mod h * 256 div h \<le> t mod h * 256 div h" using mod by (intro div_le_mono) simp
    then have "factor_nat (t mod h * 256 div h) \<le> factor_nat (s mod h * 256 div h)"
      using sub_period_less [OF h0] by (rule factor_nat_antimono)
    then have "d * factor_nat (t mod h * 256 div h) div 256 \<le> d * factor_nat (s mod h * 256 div h) div 256"
      by (intro div_le_mono mult_le_mono2)
    then show ?thesis
      using False s64 le [of d t] mod True unfolding decay_nat_def Let_def d_def by auto
  next
    case other: False
    then have "Suc (s div h) \<le> t div h" using div_le_mono [OF that, of h] by simp
    then have "g div 2 ^ (t div h) \<le> g div 2 ^ Suc (s div h)"
      by (intro div_le_mono2 power_increasing) auto
    also have "\<dots> = d div 2" by (simp add: d_def mult.commute flip: div_mult2_eq)
    finally have half: "decay_nat g t h \<le> d div 2" using top by simp
    have "d div 2 \<le> d * factor_nat (s mod h * 256 div h) div 256"
    proof -
      have "d * 128 \<le> d * factor_nat (s mod h * 256 div h)"
        using factor_nat_ge [OF sub_period_less [OF h0, of s]] by (intro mult_le_mono2) simp
      then have "d * 128 div 256 \<le> d * factor_nat (s mod h * 256 div h) div 256" by (rule div_le_mono)
      then show ?thesis by simp
    qed
    then show ?thesis
      using half s64 by (auto simp: decay_nat_def Let_def d_def [symmetric])
  qed
qed

lemma decay_le:
  assumes "unat h * 256 < 18446744073709551616" and "unat g * 256 < 18446744073709551616"
  shows "mlfq_ema_decay g s h \<le> g"
  using unat_decay [OF assms] decay_nat_le by (simp add: word_le_nat_alt)

lemma decay_antimono:
  assumes "unat h * 256 < 18446744073709551616" and "unat g * 256 < 18446744073709551616"
    and "s \<le> t"
  shows "mlfq_ema_decay g t h \<le> mlfq_ema_decay g s h"
  using unat_decay [OF assms(1, 2)] decay_nat_antimono assms(3) by (simp add: word_le_nat_alt)

section \<open>The system gauges\<close>

lemma lat_fold_le:
  assumes "lat \<le> max_ns"
  shows "mlfq_sys_lat_fold lat waits cnt e h max_ns \<le> max_ns"
  using assms by (auto simp: mlfq_sys_lat_fold_def Let_def not_less)

definition RATE_FP_MAX :: u64 where
  "RATE_FP_MAX = push_bit FP_SHIFT MLFQ_SYS_RATE_MAX"

lemma unat_RATE_FP_MAX: "unat RATE_FP_MAX = 256000000"
  by (simp add: RATE_FP_MAX_def const_defs)

lemma rate_step_le:
  assumes "rate \<le> RATE_FP_MAX"
  shows "mlfq_sys_rate_step rate cnt e \<le> RATE_FP_MAX"
proof -
  define e1 where "e1 = (if e < MLFQ_ADAPT_MIN_INTERVAL_NS then MLFQ_ADAPT_MIN_INTERVAL_NS else e)"
  define e2 where "e2 = (if MLFQ_SYS_RATE_WINDOW_MAX_NS < e1 then MLFQ_SYS_RATE_WINDOW_MAX_NS else e1)"
  define r0 where "r0 = ucast cnt * NSEC_PER_SEC div e2"
  define r where "r = (if MLFQ_SYS_RATE_MAX < r0 then MLFQ_SYS_RATE_MAX else r0)"
  define f where "f = mlfq_ema_decay FP_ONE e2 MLFQ_SYS_GAUGE_HALF_LIFE_NS"
  have r: "unat r \<le> 1000000"
    by (auto simp: r_def const_defs word_less_nat_alt not_less)
  have "mlfq_ema_decay FP_ONE e2 MLFQ_SYS_GAUGE_HALF_LIFE_NS \<le> FP_ONE"
    by (rule decay_le) (simp_all add: const_defs)
  then have fle: "f \<le> FP_ONE" by (simp add: f_def)
  then have f: "unat f \<le> 256" by (simp add: word_le_nat_alt unat_FP_ONE)
  have rate: "unat rate \<le> 256000000" using assms by (simp add: word_le_nat_alt unat_RATE_FP_MAX)
  have "unat rate * unat f \<le> 256000000 * unat f" using rate by (rule mult_le_mono1)
  moreover have "256000000 * unat f \<le> 256000000 * 256" using f by simp
  ultimately have p1: "unat rate * unat f \<le> 256000000 * unat f" "unat rate * unat f < 18446744073709551616"
    by linarith+
  have g: "unat (FP_ONE - f) = 256 - unat f" using fle by (simp add: unat_sub_in_range unat_FP_ONE)
  have rf: "unat (push_bit FP_SHIFT r) = unat r * 256"
    using r by (simp add: push_bit_eq_mult FP_SHIFT_def unat_mult_in_range)
  have "unat r * 256 * (256 - unat f) \<le> 256000000 * (256 - unat f)" using r by (intro mult_le_mono1) simp
  moreover have "256000000 * (256 - unat f) \<le> 256000000 * 256" by simp
  ultimately have p2: "unat r * 256 * (256 - unat f) \<le> 256000000 * (256 - unat f)"
    "unat r * 256 * (256 - unat f) < 18446744073709551616" by linarith+
  have t1: "unat (rate * f div FP_ONE) \<le> 1000000 * unat f"
    using p1 div_le_mono [OF p1(1), of 256] by (simp add: unat_div_mod_drop unat_mult_in_range unat_FP_ONE)
  have "unat (push_bit FP_SHIFT r * (FP_ONE - f)) = unat r * 256 * (256 - unat f)"
    using p2(2) by (simp only: unat_mult_in_range rf g)
  then have t2: "unat (push_bit FP_SHIFT r * (FP_ONE - f) div FP_ONE) \<le> 1000000 * (256 - unat f)"
    using div_le_mono [OF p2(1), of 256] by (simp add: unat_div_mod_drop unat_FP_ONE)
  have "unat (rate * f div FP_ONE + push_bit FP_SHIFT r * (FP_ONE - f) div FP_ONE)
      \<le> 1000000 * unat f + 1000000 * (256 - unat f)"
    using t1 t2 f by (subst unat_add_in_range) auto
  also have "\<dots> = 256000000" using f by simp
  finally show ?thesis
    by (simp only: mlfq_sys_rate_step_def Let_def e1_def [symmetric] e2_def [symmetric] r0_def [symmetric]
        r_def [symmetric] f_def [symmetric] word_le_nat_alt unat_RATE_FP_MAX)
qed

section \<open>Runs of the gauge of a task\<close>

text \<open>
  What moves the gauge: a run segment climbs it (\<open>mlfq_ema_climb_task\<close>, in \<open>stopping\<close>), a
  sleep decays it (in \<open>mlfq_wakeup_classify\<close>).
\<close>

datatype gauge_event = Ran u64 | Slept u64

fun gauge_step :: "rodata \<Rightarrow> gauge_event \<Rightarrow> u64 \<Rightarrow> u64" where
  "gauge_step r (Ran delta) g = mlfq_ema_climb g delta (mlfq_budget_max_ns r) (mlfq_alpha r)"
| "gauge_step r (Slept s) g = mlfq_ema_decay g s (mlfq_ema_half_life_ns r)"

text \<open>The constants for which no product of the two formulas leaves 64 bits.\<close>

definition gauge_consts_fit :: "rodata \<Rightarrow> bool" where
  "gauge_consts_fit r \<longleftrightarrow>
     unat (mlfq_budget_max_ns r) * unat (mlfq_budget_max_ns r) * unat (mlfq_alpha r) < 18446744073709551616
   \<and> unat (mlfq_budget_max_ns r) * 256 < 18446744073709551616
   \<and> unat (mlfq_ema_half_life_ns r) * 256 < 18446744073709551616"

lemma gauge_step_le:
  assumes "gauge_consts_fit r" and "g \<le> mlfq_budget_max_ns r"
  shows "gauge_step r ev g \<le> mlfq_budget_max_ns r"
proof (cases ev)
  case (Ran d)
  then show ?thesis using climb_bounds(2) [OF assms(2)] by simp
next
  case (Slept s)
  have "unat g \<le> unat (mlfq_budget_max_ns r)" using assms(2) by (simp add: word_le_nat_alt)
  then have "unat g * 256 < 18446744073709551616" using assms(1) unfolding gauge_consts_fit_def by linarith
  with assms(1) have "mlfq_ema_decay g s (mlfq_ema_half_life_ns r) \<le> g"
    by (intro decay_le) (auto simp: gauge_consts_fit_def)
  with assms(2) Slept show ?thesis by simp
qed

lemma gauge_run_le:
  assumes "gauge_consts_fit r" and "g \<le> mlfq_budget_max_ns r"
  shows "fold (gauge_step r) evs g \<le> mlfq_budget_max_ns r"
  using assms(2) by (induction evs arbitrary: g) (auto intro: gauge_step_le [OF assms(1)])

lemma default_climb_saturates:
  assumes "unat g \<le> 6000000" and "500000 \<le> unat delta"
  shows "unat (mlfq_ema_climb g delta MLFQ_BUDGET_MAX_NS MLFQ_ALPHA) = 6000000"
proof -
  have b: "unat MLFQ_BUDGET_MAX_NS = 6000000" and a: "unat MLFQ_ALPHA = 3072"
    by (simp_all add: const_defs)
  have gb: "g \<le> MLFQ_BUDGET_MAX_NS" using assms(1) by (simp add: word_le_nat_alt b)
  have "unat (mlfq_ema_climb g delta MLFQ_BUDGET_MAX_NS MLFQ_ALPHA)
      = climb_nat (unat g) (unat delta) 6000000 3072"
    using unat_climb [OF gb, of MLFQ_ALPHA delta] by (simp add: a b)
  moreover have "6000000 - unat g \<le> (6000000 - unat g) * min (unat delta) 6000000 * 3072 div (6000000 * 256)"
  proof -
    have "(6000000 - unat g) * 500000 * 3072 \<le> (6000000 - unat g) * min (unat delta) 6000000 * 3072"
      using assms(2) by (intro mult_le_mono) auto
    then have "(6000000 - unat g) * (6000000 * 256) div (6000000 * 256)
        \<le> (6000000 - unat g) * min (unat delta) 6000000 * 3072 div (6000000 * 256)"
      by (intro div_le_mono) simp
    then show ?thesis by simp
  qed
  ultimately show ?thesis using assms(1) by (simp add: climb_nat_def)
qed

end
