(* ===== verification/TaskCtx.thy ===== *)
theory TaskCtx
  imports Gauge Tree
begin

text \<open>
  The per-task and per-queue state of the scheduler: \<open>struct task_ctx\<close> and
  \<open>struct queue_ctx\<close> of \<open>src/scx/src/bpf/intf.h\<close>, what the handlers read of the kernel's
  \<open>task_struct\<close>, and the resets of \<open>lifecycle.bpf.c\<close> and \<open>intf.h\<close>. Signed 64-bit fields
  are words read with \<open>sint\<close>; the padding members, which are only ever zeroed, are left out.
\<close>

section \<open>State\<close>

record task_ctx =
  tc_vruntime :: u64
  tc_vlag :: u64
  tc_deadline :: u64
  tc_ema :: u64
  tc_last_run_at :: u64
  tc_last_sleep_at :: u64
  tc_queued_at :: u64
  tc_last_ss_boost_at :: u64
  tc_weight :: u32
  tc_queue :: u8
  tc_reenq_cnt :: u8
  tc_wake_cnt :: u8
  tc_flags :: u8
  tc_wake_cpu_state :: u8
  tc_last_llc :: u8
  tc_last_qid :: u8
  tc_enq_at :: u64
  tc_last_wake_lat_ns :: u32
  tc_last_q_wait_ns :: u32
  tc_sq_ema :: u64
  tc_prev_burst_ns :: u64
  tc_last_sample_at :: u64
  tc_sleep_mean_ema :: u64
  tc_sleep_var_ema :: u64
  tc_sleep_var_ratio :: u32
  tc_pending_feats :: tree_feats
  tc_pending_queue :: u32
  tc_pending_valid :: u64
  tc_gpu_submit :: u32
  tc_last_gpu_submit_at :: u64

text \<open>Task storage is created zeroed.\<close>

definition task_ctx_zero :: task_ctx where
  "task_ctx_zero = \<lparr>tc_vruntime = 0, tc_vlag = 0, tc_deadline = 0, tc_ema = 0, tc_last_run_at = 0,
     tc_last_sleep_at = 0, tc_queued_at = 0, tc_last_ss_boost_at = 0, tc_weight = 0, tc_queue = 0,
     tc_reenq_cnt = 0, tc_wake_cnt = 0, tc_flags = 0, tc_wake_cpu_state = 0, tc_last_llc = 0,
     tc_last_qid = 0, tc_enq_at = 0, tc_last_wake_lat_ns = 0, tc_last_q_wait_ns = 0, tc_sq_ema = 0,
     tc_prev_burst_ns = 0, tc_last_sample_at = 0, tc_sleep_mean_ema = 0, tc_sleep_var_ema = 0,
     tc_sleep_var_ratio = 0, tc_pending_feats = feats_default, tc_pending_queue = 0,
     tc_pending_valid = 0, tc_gpu_submit = 0, tc_last_gpu_submit_at = 0\<rparr>"

record queue_ctx =
  qc_clock :: u64
  qc_max_slice_ns :: u64

text \<open>
  What the handlers read of a \<open>task_struct\<close>: its id, policy, the iowait bit, the weight and
  queued flag of its \<open>scx\<close> entity, its affinity, and what the helpers \<open>scx_bpf_task_cpu\<close>,
  \<open>scx_bpf_task_running\<close> and \<open>is_migration_disabled\<close> say of it.
\<close>

record task_struct =
  ts_pid :: u32
  ts_policy :: u32
  ts_in_iowait :: bool
  ts_weight :: u32
  ts_queued :: bool
  ts_nr_cpus_allowed :: nat
  ts_cpus :: "u32 \<Rightarrow> bool"
  ts_cpu :: i32
  ts_running :: bool
  ts_migration_disabled :: bool

section \<open>Resets\<close>

definition mlfq_reset_classification :: "task_ctx \<Rightarrow> task_ctx" where
  "mlfq_reset_classification t =
     t\<lparr>tc_ema := 0, tc_queue := 2, tc_reenq_cnt := 0, tc_wake_cnt := 0, tc_last_ss_boost_at := 0\<rparr>"

definition mlfq_reset_task_ctx :: "task_struct \<Rightarrow> u64 \<Rightarrow> task_ctx \<Rightarrow> task_ctx" where
  "mlfq_reset_task_ctx p now t = mlfq_reset_classification (t\<lparr>
     tc_vruntime := 0, tc_vlag := 0, tc_deadline := 0, tc_last_run_at := 0,
     tc_last_sleep_at := (if ts_running p then 0 else now),
     tc_queued_at := 0,
     tc_weight := (if ts_weight p = 0 then 1 else ts_weight p),
     tc_flags := MLFQ_TF_FIRST_RUN, tc_wake_cpu_state := 0,
     tc_sleep_mean_ema := 0, tc_sleep_var_ema := 0, tc_sleep_var_ratio := 0,
     tc_gpu_submit := 0, tc_last_gpu_submit_at := 0,
     tc_last_llc := MLFQ_LLC_UNOWNED, tc_last_qid := 0,
     tc_enq_at := 0, tc_last_wake_lat_ns := 0, tc_last_q_wait_ns := 0, tc_sq_ema := 0 \<rparr>)"

section \<open>Time\<close>
text \<open>The wrapping order of the clocks, \<open>(s64)(b - a) > 0\<close>.\<close>

definition mlfq_time_before :: "u64 \<Rightarrow> u64 \<Rightarrow> bool" where
  "mlfq_time_before a b \<longleftrightarrow> 0 < sint (b - a)"

lemma time_before_irrefl [simp]: "\<not> mlfq_time_before a a"
  by (simp add: mlfq_time_before_def)

lemma sint_u64: "sint (w :: u64) =
    (if unat w < 9223372036854775808 then int (unat w) else int (unat w) - 18446744073709551616)"
proof -
  define x where "x = int (unat w)"
  have x: "0 \<le> x" "x < 18446744073709551616" using unat_u64_less [of w] unfolding x_def by linarith+
  have ux: "uint w = x" by (simp add: x_def)
  have s: "sint w = (x + 9223372036854775808) mod 18446744073709551616 - 9223372036854775808"
    using int_word_sint [where ?'a = 64, of "uint w"] unfolding word_of_int_uint by (simp only: ux) simp
  have small: "x < 9223372036854775808 \<longleftrightarrow> unat w < 9223372036854775808"
    unfolding x_def by linarith
  show ?thesis
  proof (cases "x < 9223372036854775808")
    case True
    with x s have "sint w = x" by (simp add: mod_pos_pos_trivial)
    with True small show ?thesis by (simp only: if_True x_def)
  next
    case False
    have "(x + 9223372036854775808) mod 18446744073709551616
        = (x + 9223372036854775808 - 18446744073709551616) mod 18446744073709551616"
      by (rule minus_mod_self2 [symmetric])
    also have "\<dots> = x - 9223372036854775808"
      using False x by (subst mod_pos_pos_trivial) auto
    finally have "sint w = x - 18446744073709551616" using s by simp
    with False small show ?thesis by (simp only: if_False x_def)
  qed
qed

lemma sint_small: "unat (w :: u64) < 9223372036854775808 \<Longrightarrow> sint w = int (unat w)"
  by (simp add: sint_u64)

text \<open>Positions less than half the clock range apart are ordered as their distance says.\<close>

lemma time_before_iff: "mlfq_time_before a b \<longleftrightarrow> a \<noteq> b \<and> unat (b - a) < 9223372036854775808"
proof -
  have "0 < unat (b - a) \<longleftrightarrow> a \<noteq> b" by (auto simp: unat_gt_0)
  moreover have "0 < sint (b - a) \<longleftrightarrow> 0 < unat (b - a) \<and> unat (b - a) < 9223372036854775808"
    unfolding sint_u64 using unat_u64_less [of "b - a"] by (simp del: of_nat_unat) linarith?
  ultimately show ?thesis by (auto simp: mlfq_time_before_def)
qed

lemma time_before_add: "mlfq_time_before a (a + d) \<longleftrightarrow> d \<noteq> 0 \<and> unat d < 9223372036854775808"
  by (simp add: time_before_iff)

lemma unat_neg: "d \<noteq> 0 \<Longrightarrow> unat (- d :: u64) = 18446744073709551616 - unat d"
proof -
  assume "d \<noteq> 0"
  have "unat (- 1 :: u64) = 18446744073709551615" by (simp add: unsigned_minus_1_eq_mask mask_eq_exp_minus_1)
  then have "unat (- 1 - d) = 18446744073709551615 - unat d"
    by (simp add: unat_sub_in_range)
  moreover have "0 < unat d" using \<open>d \<noteq> 0\<close> by (simp add: unat_gt_0)
  moreover have "- d = (- 1 - d) + 1" by simp
  ultimately show "unat (- d) = 18446744073709551616 - unat d"
    using unat_u64_less [of d] unat_add_in_range [of "- 1 - d" 1] by simp
qed

lemma not_time_before_add: "unat d \<le> 9223372036854775808 \<Longrightarrow> \<not> mlfq_time_before (a + d) a"
proof -
  assume "unat d \<le> 9223372036854775808"
  show ?thesis
  proof (cases "d = 0")
    case False
    then have "unat (- d) = 18446744073709551616 - unat d" by (rule unat_neg)
    with \<open>unat d \<le> _\<close> have "\<not> unat (- d) < 9223372036854775808" by linarith
    then show ?thesis by (simp add: time_before_iff)
  qed simp
qed

text \<open>Two clock readings of the same half range are ordered as numbers.\<close>

lemma time_before_less:
  assumes "unat a < 9223372036854775808" and "unat b < 9223372036854775808"
  shows "mlfq_time_before a b \<longleftrightarrow> a < b"
proof (cases "a \<le> b")
  case True
  then have "unat (b - a) = unat b - unat a" by (rule unat_sub_in_range)
  with assms True show ?thesis by (auto simp: time_before_iff)
next
  case False
  then have lt: "b < a" by simp
  then have "unat (a - b) = unat a - unat b" by (simp add: unat_sub_in_range)
  moreover have "b - a = - (a - b)" by simp
  ultimately have "\<not> mlfq_time_before a b"
    using not_time_before_add [of "a - b" b] assms by simp
  with lt show ?thesis by simp
qed

end
