(* ===== verification/Adapt.thy ===== *)
theory Adapt
  imports TaskCtx BssState
begin

text \<open>
  The band adaptation: \<open>mlfq_adapt_shift_target\<close>, \<open>mlfq_adapt_slew\<close>, \<open>mlfq_adapt_band\<close>
  and \<open>mlfq_check_bands\<close> of \<open>src/scx/src/bpf/intf.h\<close>, the step and its rate limit in
  \<open>main.bpf.c\<close>. Signed arithmetic is done on words and compared with \<open><s\<close>. The lemmas
  show that the shift stays in its range, that every step leaves the four band edges inside
  their hard bounds and strictly ordered whatever the gauges and the bases are, and how fast
  the shift reaches a constant target.
\<close>

section \<open>Operations\<close>

definition mlfq_adapt_shift_target :: "u64 \<Rightarrow> u64 \<Rightarrow> u64" where
  "mlfq_adapt_shift_target lat_ema rate_ema =
     (let err = lat_ema - MLFQ_ADAPT_TARGET_LAT_NS;
          mag = (if err <s 0 then 0 else err);
          scaled = mag * MLFQ_ADAPT_K div MLFQ_ADAPT_TARGET_LAT_NS;
          target = (if MLFQ_ADAPT_MAX_SHIFT <s scaled then MLFQ_ADAPT_MAX_SHIFT else scaled)
      in if MLFQ_ADAPT_RATE_GATE_HIGH < rate_ema \<and> MLFQ_ADAPT_RATE_GATE_SHIFT <s target
         then MLFQ_ADAPT_RATE_GATE_SHIFT else target)"

definition mlfq_adapt_slew :: "u64 \<Rightarrow> u64 \<Rightarrow> u64" where
  "mlfq_adapt_slew prev target =
     (let step = target - prev;
          step = (if MLFQ_ADAPT_MAX_STEP <s step then MLFQ_ADAPT_MAX_STEP else step);
          step = (if step <s - MLFQ_ADAPT_MAX_STEP then - MLFQ_ADAPT_MAX_STEP else step)
      in prev + step)"

definition mlfq_adapt_band :: "u64 \<Rightarrow> u64 \<Rightarrow> u64 \<Rightarrow> u64 \<Rightarrow> u64" where
  "mlfq_adapt_band base shift_fp lo hi =
     (let mag = (if shift_fp <s 0 then - shift_fp else shift_fp);
          scaled = base * mag div FP_ONE;
          v = (if shift_fp <s 0 then base - scaled else base + scaled);
          v = (if v <s lo then lo else v)
      in if hi <s v then hi else v)"

definition mlfq_check_bands :: "u64 \<Rightarrow> u64 \<Rightarrow> u64 \<Rightarrow> u64 \<Rightarrow> bool" where
  "mlfq_check_bands t_l t_h t_int t_bnd \<longleftrightarrow>
     t_l < t_h \<and> t_int < t_bnd
   \<and> MLFQ_ADAPT_T_L_FLOOR_NS \<le> t_l \<and> t_l \<le> MLFQ_ADAPT_T_L_CEIL_NS
   \<and> MLFQ_ADAPT_T_H_FLOOR_NS \<le> t_h \<and> t_h \<le> MLFQ_ADAPT_T_H_CEIL_NS
   \<and> MLFQ_ADAPT_T_INT_FLOOR_NS \<le> t_int \<and> t_int \<le> MLFQ_ADAPT_T_INT_CEIL_NS
   \<and> MLFQ_ADAPT_T_BND_FLOOR_NS \<le> t_bnd \<and> t_bnd \<le> MLFQ_ADAPT_T_BND_CEIL_NS"

text \<open>The per-CPU wakeup counters; the fold adds up the windows and zeroes them.\<close>

record wakeup_counters =
  wk_total :: u64
  wk_window :: u64

definition mlfq_wakeup_window_fold :: "nat \<Rightarrow> (nat \<Rightarrow> wakeup_counters) \<Rightarrow> u64 \<times> (nat \<Rightarrow> wakeup_counters)" where
  "mlfq_wakeup_window_fold nr_cpus wc =
     (sum_list (map (\<lambda>cpu. wk_window (wc cpu)) [0..<nr_cpus]),
      \<lambda>cpu. if cpu < nr_cpus then (wc cpu)\<lparr>wk_window := 0\<rparr> else wc cpu)"

text \<open>What the adaptation reads and writes: the two system gauges, the bands and the windows.\<close>

record adapt_sys =
  ad_gauge :: sys_gauge
  ad_state :: adapt_state
  ad_wakeups :: "nat \<Rightarrow> wakeup_counters"

definition mlfq_adapt_step :: "rodata \<Rightarrow> nat \<Rightarrow> u64 \<Rightarrow> adapt_sys \<Rightarrow> adapt_sys" where
  "mlfq_adapt_step r nr_cpus elapsed s =
     (let (total, wc) = mlfq_wakeup_window_fold nr_cpus (ad_wakeups s);
          g = (ad_gauge s)\<lparr>
            sg_rate_ema := mlfq_sys_rate_step (sg_rate_ema (ad_gauge s)) (ucast total) elapsed,
            sg_adapt_steps := sg_adapt_steps (ad_gauge s) + 1\<rparr>;
          target = mlfq_adapt_shift_target (sg_lat_ema g) (sg_rate_ema g);
          sh = mlfq_adapt_slew (as_shift_fp (ad_state s)) target
      in s\<lparr>ad_gauge := g, ad_wakeups := wc, ad_state := (ad_state s)\<lparr>
           as_shift_fp := sh,
           as_t_l_eff_ns := mlfq_adapt_band (mlfq_t_l_ns r) sh MLFQ_ADAPT_T_L_FLOOR_NS MLFQ_ADAPT_T_L_CEIL_NS,
           as_t_h_eff_ns := mlfq_adapt_band (mlfq_t_h_ns r) sh MLFQ_ADAPT_T_H_FLOOR_NS MLFQ_ADAPT_T_H_CEIL_NS,
           as_t_int_eff_ns := mlfq_adapt_band (mlfq_tree_t_int_ns r) sh
             MLFQ_ADAPT_T_INT_FLOOR_NS MLFQ_ADAPT_T_INT_CEIL_NS,
           as_t_bnd_eff_ns := mlfq_adapt_band (mlfq_tree_t_bound_ns r) sh
             MLFQ_ADAPT_T_BND_FLOOR_NS MLFQ_ADAPT_T_BND_CEIL_NS\<rparr>\<rparr>)"

text \<open>
  The rate limit. The compare-and-swap on the stamp has one winner; \<open>won\<close> is its result.
\<close>

definition mlfq_maybe_adapt_step :: "rodata \<Rightarrow> nat \<Rightarrow> bool \<Rightarrow> u64 \<Rightarrow> adapt_sys \<Rightarrow> adapt_sys" where
  "mlfq_maybe_adapt_step r nr_cpus won now s =
     (let last = sg_step_at (ad_gauge s)
      in if mlfq_time_before now (last + MLFQ_ADAPT_MIN_INTERVAL_NS) then s
         else if \<not> won then s
         else let elapsed = (if mlfq_time_before now last then 0 else now - last);
                  g = (ad_gauge s)\<lparr>sg_step_at := now,
                    sg_lat_ema := mlfq_sys_lat_fold (sg_lat_ema (ad_gauge s)) (sg_wait_total (ad_gauge s))
                      (sg_wait_count (ad_gauge s)) elapsed MLFQ_SYS_GAUGE_HALF_LIFE_NS MLFQ_SYS_LAT_MAX_NS,
                    sg_wait_total := 0, sg_wait_count := 0\<rparr>
              in if \<not> mlfq_adapt_enabled r then s\<lparr>ad_gauge := g\<rparr>
                 else mlfq_adapt_step r nr_cpus elapsed (s\<lparr>ad_gauge := g\<rparr>))"

text \<open>The seed of \<open>mlfq_init\<close>.\<close>

definition adapt_seed :: "rodata \<Rightarrow> adapt_state" where
  "adapt_seed r = \<lparr>as_shift_fp = 0, as_t_l_eff_ns = mlfq_t_l_ns r, as_t_h_eff_ns = mlfq_t_h_ns r,
     as_t_int_eff_ns = mlfq_tree_t_int_ns r, as_t_bnd_eff_ns = mlfq_tree_t_bound_ns r,
     as_guard_eff_ns = mlfq_sameq_preempt_min_run_ns r\<rparr>"

section \<open>The bands\<close>

lemma band_bounds:
  assumes "unat lo < 9223372036854775808" and "unat hi < 9223372036854775808" and "lo \<le> hi"
  shows "lo \<le> mlfq_adapt_band base sh lo hi" and "mlfq_adapt_band base sh lo hi \<le> hi"
proof -
  have s: "sint lo = int (unat lo)" "sint hi = int (unat hi)"
    using assms by (simp_all add: sint_small del: of_nat_unat)
  have clamp: "lo \<le> (if hi <s w then hi else w) \<and> (if hi <s w then hi else w) \<le> hi"
    if "w = (if v <s lo then lo else v)" for v w
  proof -
    have nn: "\<not> w <s lo" using that by (auto simp: word_sless_alt)
    show ?thesis
    proof (cases "hi <s w")
      case True
      then show ?thesis using assms(3) by simp
    next
      case False
      with nn have "int (unat lo) \<le> sint w" "sint w \<le> int (unat hi)"
        using s by (simp_all add: word_sless_alt del: of_nat_unat)
      moreover from this have "sint w = int (unat w)"
        using unat_u64_less [of w] unat_u64_less [of hi] by (auto simp: sint_u64 simp del: of_nat_unat split: if_splits)
      ultimately show ?thesis using False by (simp add: word_le_nat_alt del: of_nat_unat)
    qed
  qed
  show "lo \<le> mlfq_adapt_band base sh lo hi" and "mlfq_adapt_band base sh lo hi \<le> hi"
    unfolding mlfq_adapt_band_def Let_def using clamp [OF refl] by blast+
qed

lemma adapt_step_bands:
  "let a = ad_state (mlfq_adapt_step r n e s)
   in mlfq_check_bands (as_t_l_eff_ns a) (as_t_h_eff_ns a) (as_t_int_eff_ns a) (as_t_bnd_eff_ns a)"
proof -
  have L: "MLFQ_ADAPT_T_L_FLOOR_NS \<le> mlfq_adapt_band b sh MLFQ_ADAPT_T_L_FLOOR_NS MLFQ_ADAPT_T_L_CEIL_NS"
    "mlfq_adapt_band b sh MLFQ_ADAPT_T_L_FLOOR_NS MLFQ_ADAPT_T_L_CEIL_NS \<le> MLFQ_ADAPT_T_L_CEIL_NS" for b sh
    by (rule band_bounds; simp add: const_defs)+
  have H: "MLFQ_ADAPT_T_H_FLOOR_NS \<le> mlfq_adapt_band b sh MLFQ_ADAPT_T_H_FLOOR_NS MLFQ_ADAPT_T_H_CEIL_NS"
    "mlfq_adapt_band b sh MLFQ_ADAPT_T_H_FLOOR_NS MLFQ_ADAPT_T_H_CEIL_NS \<le> MLFQ_ADAPT_T_H_CEIL_NS" for b sh
    by (rule band_bounds; simp add: const_defs)+
  have I: "MLFQ_ADAPT_T_INT_FLOOR_NS \<le> mlfq_adapt_band b sh MLFQ_ADAPT_T_INT_FLOOR_NS MLFQ_ADAPT_T_INT_CEIL_NS"
    "mlfq_adapt_band b sh MLFQ_ADAPT_T_INT_FLOOR_NS MLFQ_ADAPT_T_INT_CEIL_NS \<le> MLFQ_ADAPT_T_INT_CEIL_NS" for b sh
    by (rule band_bounds; simp add: const_defs)+
  have B: "MLFQ_ADAPT_T_BND_FLOOR_NS \<le> mlfq_adapt_band b sh MLFQ_ADAPT_T_BND_FLOOR_NS MLFQ_ADAPT_T_BND_CEIL_NS"
    "mlfq_adapt_band b sh MLFQ_ADAPT_T_BND_FLOOR_NS MLFQ_ADAPT_T_BND_CEIL_NS \<le> MLFQ_ADAPT_T_BND_CEIL_NS" for b sh
    by (rule band_bounds; simp add: const_defs)+
  have d: "MLFQ_ADAPT_T_L_CEIL_NS < MLFQ_ADAPT_T_H_FLOOR_NS" "MLFQ_ADAPT_T_INT_CEIL_NS < MLFQ_ADAPT_T_BND_FLOOR_NS"
    by (simp_all add: const_defs)
  have LH: "mlfq_adapt_band b sh MLFQ_ADAPT_T_L_FLOOR_NS MLFQ_ADAPT_T_L_CEIL_NS
      < mlfq_adapt_band b' sh MLFQ_ADAPT_T_H_FLOOR_NS MLFQ_ADAPT_T_H_CEIL_NS" for b b' sh
    using L(2) [of b sh] d(1) H(1) [of b' sh] by order
  have IB: "mlfq_adapt_band b sh MLFQ_ADAPT_T_INT_FLOOR_NS MLFQ_ADAPT_T_INT_CEIL_NS
      < mlfq_adapt_band b' sh MLFQ_ADAPT_T_BND_FLOOR_NS MLFQ_ADAPT_T_BND_CEIL_NS" for b b' sh
    using I(2) [of b sh] d(2) B(1) [of b' sh] by order
  show ?thesis
    using L H I B LH IB
    by (simp add: mlfq_adapt_step_def mlfq_check_bands_def Let_def case_prod_beta)
qed

section \<open>The shift\<close>

lemma shift_consts:
  "unat MLFQ_ADAPT_TARGET_LAT_NS = 1000000" "unat MLFQ_ADAPT_K = 128" "unat MLFQ_ADAPT_MAX_SHIFT = 128"
  "unat MLFQ_ADAPT_MAX_STEP = 25" "unat MLFQ_ADAPT_RATE_GATE_SHIFT = 64" "MLFQ_ADAPT_MAX_STEP = 25"
  by (simp_all add: const_defs)

lemma sless_small:
  fixes a b :: u64
  assumes "unat a < 9223372036854775808" and "unat b < 9223372036854775808"
  shows "a <s b \<longleftrightarrow> a < b"
  using assms by (simp add: word_sless_alt sint_small word_less_nat_alt del: of_nat_unat)

lemma shift_target_le: "unat (mlfq_adapt_shift_target lat rate) \<le> 128"
proof -
  define m where "m = (if lat - MLFQ_ADAPT_TARGET_LAT_NS <s 0 then 0 else lat - MLFQ_ADAPT_TARGET_LAT_NS) * MLFQ_ADAPT_K"
  have "unat (m div MLFQ_ADAPT_TARGET_LAT_NS) = unat m div 1000000"
    by (simp add: unat_div_mod_drop shift_consts)
  also have "\<dots> \<le> 18446744073709551616 div 1000000"
    using unat_u64_less [of m] by (intro div_le_mono) simp
  finally have sc: "unat (m div MLFQ_ADAPT_TARGET_LAT_NS) < 9223372036854775808" by simp
  define t where "t = (if MLFQ_ADAPT_MAX_SHIFT <s m div MLFQ_ADAPT_TARGET_LAT_NS then MLFQ_ADAPT_MAX_SHIFT
                       else m div MLFQ_ADAPT_TARGET_LAT_NS)"
  have "unat t \<le> 128"
    using sless_small [of MLFQ_ADAPT_MAX_SHIFT "m div MLFQ_ADAPT_TARGET_LAT_NS"] sc
    by (auto simp: t_def shift_consts word_less_nat_alt)
  then show ?thesis
    unfolding mlfq_adapt_shift_target_def Let_def m_def [symmetric] t_def [symmetric]
    by (auto simp: shift_consts)
qed

text \<open>The slew on the numbers.\<close>

definition slew_nat :: "nat \<Rightarrow> nat \<Rightarrow> nat" where
  "slew_nat p t = (if p \<le> t then min (p + 25) t else max (p - 25) t)"

lemma unat_slew:
  assumes "unat prev \<le> 128" and "unat target \<le> 128"
  shows "unat (mlfq_adapt_slew prev target) = slew_nat (unat prev) (unat target)"
proof (cases "prev \<le> target")
  case True
  then have d: "unat (target - prev) = unat target - unat prev" by (rule unat_sub_in_range)
  define st where "st = (if MLFQ_ADAPT_MAX_STEP <s target - prev then MLFQ_ADAPT_MAX_STEP else target - prev)"
  have st: "unat st = min 25 (unat target - unat prev)"
    using sless_small [of MLFQ_ADAPT_MAX_STEP "target - prev"] assms d
    by (auto simp: st_def shift_consts word_less_nat_alt)
  have "\<not> st <s - MLFQ_ADAPT_MAX_STEP"
    using st by (simp add: word_sless_alt shift_consts sint_small del: of_nat_unat)
  then have "mlfq_adapt_slew prev target = prev + st"
    by (simp add: mlfq_adapt_slew_def Let_def st_def [symmetric])
  moreover have "unat (prev + st) = unat prev + unat st"
    using st assms by (intro unat_add_in_range) simp
  ultimately show ?thesis using True st by (simp add: slew_nat_def word_le_nat_alt)
next
  case False
  define d where "d = prev - target"
  have "target \<le> prev" using False by simp
  then have d: "unat d = unat prev - unat target" unfolding d_def by (rule unat_sub_in_range)
  have "unat target < unat prev" using False by (simp add: word_le_nat_alt)
  with d have d0: "0 < unat d" by simp
  have d128: "unat d \<le> 128" using d assms by simp
  have td: "target - prev = - d" by (simp add: d_def)
  have sd: "sint (- d) = - int (unat d)"
  proof -
    have "unat (- d) = 18446744073709551616 - unat d"
      using d0 by (intro unat_neg) auto
    then show ?thesis using d0 d128 by (simp add: sint_u64 del: of_nat_unat)
  qed
  have n25: "sint (- MLFQ_ADAPT_MAX_STEP) = - 25" by (simp add: shift_consts)
  have "\<not> MLFQ_ADAPT_MAX_STEP <s - d" using sd by (simp add: word_sless_alt shift_consts del: of_nat_unat)
  moreover have "- d <s - MLFQ_ADAPT_MAX_STEP \<longleftrightarrow> 25 < unat d"
    using sd n25 by (simp add: word_sless_alt del: of_nat_unat)
  ultimately have e: "mlfq_adapt_slew prev target = (if 25 < unat d then prev - MLFQ_ADAPT_MAX_STEP else target)"
    by (simp add: mlfq_adapt_slew_def Let_def td d_def [symmetric]) (simp add: d_def)
  show ?thesis
  proof (cases "25 < unat d")
    case True
    then have "MLFQ_ADAPT_MAX_STEP \<le> prev" using d by (simp add: word_le_nat_alt shift_consts(4))
    then have "unat (prev - MLFQ_ADAPT_MAX_STEP) = unat prev - 25"
      by (simp add: unat_sub_in_range shift_consts(4))
    with True e d False show ?thesis by (simp add: slew_nat_def word_le_nat_alt)
  next
    case F: False
    with e d False show ?thesis by (simp add: slew_nat_def word_le_nat_alt)
  qed
qed

lemma slew_nat_le: "p \<le> 128 \<Longrightarrow> t \<le> 128 \<Longrightarrow> slew_nat p t \<le> 128"
  by (auto simp: slew_nat_def)

text \<open>Distance to the target after some steps towards it.\<close>

lemma slew_steps:
  "(if t \<le> p then p - t else t - p) \<le> 25 * k \<Longrightarrow> ((\<lambda>x. slew_nat x t) ^^ k) p = t"
proof (induction k arbitrary: p)
  case 0
  then show ?case by (auto split: if_splits)
next
  case (Suc k)
  have "((\<lambda>x. slew_nat x t) ^^ k) (slew_nat p t) = t"
    using Suc.prems by (intro Suc.IH) (auto simp: slew_nat_def split: if_splits)
  then show ?case by (simp add: funpow_Suc_right del: funpow.simps)
qed

section \<open>The invariant of the adaptation\<close>

definition adapt_inv :: "rodata \<Rightarrow> adapt_sys \<Rightarrow> bool" where
  "adapt_inv r s \<longleftrightarrow>
     unat (as_shift_fp (ad_state s)) \<le> 128
   \<and> sg_lat_ema (ad_gauge s) \<le> MLFQ_SYS_LAT_MAX_NS
   \<and> sg_rate_ema (ad_gauge s) \<le> RATE_FP_MAX
   \<and> as_guard_eff_ns (ad_state s) = mlfq_sameq_preempt_min_run_ns r
   \<and> (ad_state s = adapt_seed r
      \<or> mlfq_adapt_enabled r
        \<and> mlfq_check_bands (as_t_l_eff_ns (ad_state s)) (as_t_h_eff_ns (ad_state s))
            (as_t_int_eff_ns (ad_state s)) (as_t_bnd_eff_ns (ad_state s)))"

lemma adapt_step_fields:
  "ad_gauge (mlfq_adapt_step r n e s) = (ad_gauge s)\<lparr>
     sg_rate_ema := mlfq_sys_rate_step (sg_rate_ema (ad_gauge s))
       (ucast (fst (mlfq_wakeup_window_fold n (ad_wakeups s)))) e,
     sg_adapt_steps := sg_adapt_steps (ad_gauge s) + 1\<rparr>"
  "as_guard_eff_ns (ad_state (mlfq_adapt_step r n e s)) = as_guard_eff_ns (ad_state s)"
  "as_shift_fp (ad_state (mlfq_adapt_step r n e s)) = mlfq_adapt_slew (as_shift_fp (ad_state s))
     (mlfq_adapt_shift_target (sg_lat_ema (ad_gauge s)) (sg_rate_ema (ad_gauge (mlfq_adapt_step r n e s))))"
  by (simp_all add: mlfq_adapt_step_def Let_def case_prod_beta)

lemma adapt_step_inv:
  assumes "adapt_inv r s" and "mlfq_adapt_enabled r"
  shows "adapt_inv r (mlfq_adapt_step r n e s)"
proof -
  let ?s = "mlfq_adapt_step r n e s"
  have "unat (as_shift_fp (ad_state ?s)) \<le> 128"
    using assms(1) unfolding adapt_step_fields(3) adapt_inv_def
    by (subst unat_slew) (auto intro: slew_nat_le shift_target_le)
  moreover have "sg_rate_ema (ad_gauge ?s) \<le> RATE_FP_MAX"
    using assms(1) by (simp add: adapt_step_fields(1) adapt_inv_def rate_step_le)
  ultimately show ?thesis
    using assms adapt_step_bands [of r n e s]
    by (simp add: adapt_inv_def adapt_step_fields(1, 2) Let_def)
qed

lemma maybe_adapt_step_inv:
  assumes "adapt_inv r s"
  shows "adapt_inv r (mlfq_maybe_adapt_step r n won now s)"
proof -
  define g where "g = (ad_gauge s)\<lparr>sg_step_at := now,
    sg_lat_ema := mlfq_sys_lat_fold (sg_lat_ema (ad_gauge s)) (sg_wait_total (ad_gauge s))
      (sg_wait_count (ad_gauge s)) (if mlfq_time_before now (sg_step_at (ad_gauge s)) then 0
         else now - sg_step_at (ad_gauge s)) MLFQ_SYS_GAUGE_HALF_LIFE_NS MLFQ_SYS_LAT_MAX_NS,
    sg_wait_total := 0, sg_wait_count := 0\<rparr>"
  have inv: "adapt_inv r (s\<lparr>ad_gauge := g\<rparr>)"
    using assms by (simp add: adapt_inv_def g_def lat_fold_le)
  show ?thesis
    using assms inv adapt_step_inv [OF inv]
    unfolding mlfq_maybe_adapt_step_def Let_def g_def [symmetric] by simp
qed

lemma adapt_inv_ordered:
  assumes "adapt_inv r s" and "mlfq_t_l_ns r < mlfq_t_h_ns r" and "mlfq_tree_t_int_ns r < mlfq_tree_t_bound_ns r"
  shows "as_t_l_eff_ns (ad_state s) < as_t_h_eff_ns (ad_state s)
    \<and> as_t_int_eff_ns (ad_state s) < as_t_bnd_eff_ns (ad_state s)"
  using assms by (auto simp: adapt_inv_def adapt_seed_def mlfq_check_bands_def)

section \<open>Convergence\<close>

text \<open>
  The slew reaches a target that stays the same within six steps from anywhere in the range,
  and moves at most a tenth of the base per step.
\<close>

theorem slew_converges:
  assumes "unat sh \<le> 128" and "unat target \<le> 128"
  shows "((\<lambda>x. mlfq_adapt_slew x target) ^^ 6) sh = target"
proof -
  have *: "unat (((\<lambda>x. mlfq_adapt_slew x target) ^^ k) sh) = ((\<lambda>x. slew_nat x (unat target)) ^^ k) (unat sh)
      \<and> unat (((\<lambda>x. mlfq_adapt_slew x target) ^^ k) sh) \<le> 128" for k
  proof (induction k)
    case 0
    then show ?case using assms by simp
  next
    case (Suc k)
    then show ?case using assms by (simp add: unat_slew slew_nat_le)
  qed
  have "((\<lambda>x. slew_nat x (unat target)) ^^ 6) (unat sh) = unat target"
    using assms by (intro slew_steps) auto
  with * [of 6] show ?thesis by (simp add: word_unat_eq_iff)
qed

end
