(* ===== verification/Classify.thy ===== *)
theory Classify
  imports Adapt Publish
begin

text \<open>
  The classification of \<open>src/scx/src/bpf/classify.bpf.c\<close> with its state machines in
  \<open>intf.h\<close>: the wakeup path (decay, tree prediction, interactive boost, band hysteresis,
  untrained remap, Q3 seed) and the run-out path (prediction, Q3 seed, demotion hysteresis).
  The prediction is \<open>mlfq_tree_predict\<close> over the published tree. The lemmas give every way a
  queue can change on the two paths.
\<close>

section \<open>State machines\<close>

definition mlfq_ss_boost_allowed :: "u64 \<Rightarrow> u64 \<Rightarrow> u64 \<Rightarrow> bool" where
  "mlfq_ss_boost_allowed last_boost_at now rate_limit =
     (if last_boost_at = 0 then True else mlfq_time_before (last_boost_at + rate_limit) now)"

definition mlfq_boost_eligible :: "u64 \<Rightarrow> u64 \<Rightarrow> bool \<Rightarrow> bool" where
  "mlfq_boost_eligible slept window_ns iowait =
     (if iowait then True else slept \<noteq> 0 \<and> slept \<le> window_ns)"

definition mlfq_ss_boost_pending :: "task_ctx \<Rightarrow> u64 \<Rightarrow> bool \<Rightarrow> u64 \<Rightarrow> u64 \<Rightarrow> u64 \<Rightarrow> bool" where
  "mlfq_ss_boost_pending t slept iowait now short_sleep rate_limit \<longleftrightarrow>
     mlfq_boost_eligible slept short_sleep iowait
   \<and> mlfq_ss_boost_allowed (tc_last_ss_boost_at t) now rate_limit"

definition mlfq_queue_from_ema :: "u64 \<Rightarrow> u64 \<Rightarrow> u64 \<Rightarrow> u8" where
  "mlfq_queue_from_ema g t_l t_h = (if g \<le> t_l then 1 else if t_h \<le> g then 3 else 2)"

definition mlfq_tree_map_queue :: "u64 \<Rightarrow> u8 \<Rightarrow> u64 \<Rightarrow> u64 \<Rightarrow> u8" where
  "mlfq_tree_map_queue pred cur t_int t_bound =
     (if pred \<noteq> 0 \<and> pred < t_int then 1
      else if pred \<noteq> 0 \<and> pred < t_bound \<and> 2 < cur then 2
      else cur)"

definition mlfq_promote_on_wakeup :: "u64 \<Rightarrow> u64 \<Rightarrow> u64 \<Rightarrow> u64 \<Rightarrow> task_ctx \<Rightarrow> bool \<times> task_ctx" where
  "mlfq_promote_on_wakeup slept t_l t_h short_sleep t =
     (let t = (if slept \<le> short_sleep then t\<lparr>tc_wake_cnt := tc_wake_cnt t + 1\<rparr> else t\<lparr>tc_wake_cnt := 0\<rparr>)
      in if tc_queue t = 2 \<and> tc_ema t < t_l div 2 \<and> 2 \<le> tc_wake_cnt t
         then (True, t\<lparr>tc_queue := 1, tc_wake_cnt := 0\<rparr>)
         else if tc_queue t = 3 \<and> tc_ema t < t_h div 2 \<and> 2 \<le> tc_wake_cnt t
         then (True, t\<lparr>tc_queue := 2, tc_wake_cnt := 0\<rparr>)
         else (False, t))"

definition mlfq_demote_on_reenq :: "u64 \<Rightarrow> u64 \<Rightarrow> u64 \<Rightarrow> task_ctx \<Rightarrow> bool \<times> task_ctx" where
  "mlfq_demote_on_reenq t_h t_bound pred t =
     (let t = t\<lparr>tc_reenq_cnt := tc_reenq_cnt t + 1\<rparr>;
          cpu_bound = (if pred \<noteq> 0 then t_bound \<le> pred else t_h < tc_ema t)
      in if (tc_queue t = 1 \<or> tc_queue t = 2) \<and> cpu_bound \<and> 8 \<le> tc_reenq_cnt t
         then (True, t\<lparr>tc_queue := tc_queue t + 1, tc_reenq_cnt := 0\<rparr>)
         else (False, t))"

section \<open>Classification\<close>

text \<open>The build has no \<open>uclamp\<close> field to read (\<open>MLFQ_HAVE_TASK_UCLAMP_MIN\<close> is 0).\<close>

definition mlfq_demotion_blocked :: "task_struct \<Rightarrow> bool" where
  "mlfq_demotion_blocked p = False"

definition mlfq_apply_sched_idle :: "task_struct \<Rightarrow> task_ctx \<Rightarrow> bool \<times> task_ctx" where
  "mlfq_apply_sched_idle p t =
     (if ts_policy p = MLFQ_SCHED_IDLE then (True, t\<lparr>tc_queue := 3\<rparr>) else (False, t))"

definition mlfq_ema_climb_task :: "rodata \<Rightarrow> u64 \<Rightarrow> task_ctx \<Rightarrow> task_ctx" where
  "mlfq_ema_climb_task r delta t =
     t\<lparr>tc_ema := mlfq_ema_climb (tc_ema t) delta (mlfq_budget_max_ns r) (mlfq_alpha r)\<rparr>"

text \<open>The captured feature vector and the pending sample.\<close>

definition capture_feats :: "u64 \<Rightarrow> bool \<Rightarrow> task_ctx \<Rightarrow> tree_feats" where
  "capture_feats slept iowait t = \<lparr>
     prev_burst_ns = tc_prev_burst_ns t, sleep_ns = slept, ema = tc_ema t,
     io_wait = (if iowait then 1 else 0), wake_cnt = ucast (tc_wake_cnt t),
     wake_lat_us = ucast (ucast (tc_last_wake_lat_ns t) div NSEC_PER_USEC),
     queue_wait_us = ucast (ucast (tc_last_q_wait_ns t) div NSEC_PER_USEC),
     sq_ema = tc_sq_ema t, sleep_var_ratio = tc_sleep_var_ratio t, feats_pad = 0,
     gpu_submit = tc_gpu_submit t, feats_pad2 = 0 \<rparr>"

definition arm_sample :: "u64 \<Rightarrow> bool \<Rightarrow> task_ctx \<Rightarrow> task_ctx" where
  "arm_sample slept iowait t = t\<lparr>tc_pending_feats := capture_feats slept iowait t,
     tc_pending_queue := ucast (tc_queue t), tc_pending_valid := 1\<rparr>"

text \<open>The steps of the wakeup classification, in their order.\<close>

definition wake_decay :: "rodata \<Rightarrow> u64 \<Rightarrow> task_ctx \<Rightarrow> u64 \<times> task_ctx" where
  "wake_decay r now t =
     (if tc_last_sleep_at t \<noteq> 0 \<and> mlfq_time_before (tc_last_sleep_at t) now
      then let slept = now - tc_last_sleep_at t
           in (slept, t\<lparr>tc_ema := mlfq_ema_decay (tc_ema t) slept (mlfq_ema_half_life_ns r),
                        tc_last_sleep_at := 0, tc_reenq_cnt := 0\<rparr>)
      else (0, t\<lparr>tc_last_sleep_at := 0, tc_reenq_cnt := 0\<rparr>))"

definition wake_predict :: "rodata \<Rightarrow> adapt_state \<Rightarrow> kernel \<Rightarrow> task_struct \<Rightarrow> u64 \<Rightarrow> task_ctx \<Rightarrow> u64 \<times> task_ctx" where
  "wake_predict r a k p slept t =
     (let (pred, t) = (if ts_policy p = MLFQ_SCHED_IDLE then (0, t\<lparr>tc_pending_valid := 0\<rparr>)
            else let t = arm_sample slept (ts_in_iowait p) t in (mlfq_tree_predict k (tc_pending_feats t), t))
      in (if as_t_bnd_eff_ns a \<le> pred \<and> 0 < tc_gpu_submit t
             \<and> \<not> (mlfq_short_sleep_ns r < slept \<or> as_t_h_eff_ns a < tc_prev_burst_ns t)
          then as_t_bnd_eff_ns a - 1 else pred, t))"

definition wake_map :: "adapt_state \<Rightarrow> task_struct \<Rightarrow> u64 \<Rightarrow> task_ctx \<times> mlfq_stats \<Rightarrow> task_ctx \<times> mlfq_stats" where
  "wake_map a p pred = (\<lambda>(t, st).
     if pred \<noteq> 0
     then let q = mlfq_tree_map_queue pred (tc_queue t) (as_t_int_eff_ns a) (as_t_bnd_eff_ns a);
              base_q = mlfq_queue_from_ema (tc_ema t) (as_t_l_eff_ns a) (as_t_h_eff_ns a)
          in (t\<lparr>tc_queue := q\<rparr>, st\<lparr>st_tree_inference := st_tree_inference st + 1,
                st_tree_disagree := st_tree_disagree st + (if q \<noteq> base_q then 1 else 0)\<rparr>)
     else if ts_policy p \<noteq> MLFQ_SCHED_IDLE
     then (t, st\<lparr>st_tree_fallback := st_tree_fallback st + 1\<rparr>)
     else (t, st))"

definition wake_boost :: "rodata \<Rightarrow> task_struct \<Rightarrow> u64 \<Rightarrow> u64 \<Rightarrow> task_ctx \<times> mlfq_stats \<Rightarrow> task_ctx \<times> mlfq_stats" where
  "wake_boost r p slept now = (\<lambda>(t, st).
     if ts_policy p \<noteq> MLFQ_SCHED_IDLE
        \<and> mlfq_ss_boost_pending t slept (ts_in_iowait p) now (mlfq_short_sleep_ns r) (mlfq_short_sleep_rate_limit_ns r)
     then (t\<lparr>tc_queue := 1, tc_last_ss_boost_at := now\<rparr>,
           st\<lparr>st_short_sleep_boosts := st_short_sleep_boosts st + 1\<rparr>)
     else (t, st))"

definition wake_promote :: "rodata \<Rightarrow> adapt_state \<Rightarrow> u64 \<Rightarrow> task_ctx \<times> mlfq_stats \<Rightarrow> task_ctx \<times> mlfq_stats" where
  "wake_promote r a slept = (\<lambda>(t, st).
     case mlfq_promote_on_wakeup slept (as_t_l_eff_ns a) (as_t_h_eff_ns a) (mlfq_hysteresis_sleep_ns r) t of
       (promoted, t) \<Rightarrow> (t, if promoted then st\<lparr>st_promotions := st_promotions st + 1\<rparr> else st))"

definition wake_remap :: "rodata \<Rightarrow> adapt_state \<Rightarrow> u64 \<Rightarrow> u64 \<Rightarrow> task_ctx \<times> mlfq_stats \<Rightarrow> task_ctx \<times> mlfq_stats" where
  "wake_remap r a slept pred = (\<lambda>(t, st).
     if pred = 0 \<and> mlfq_long_sleep_ns r < slept
     then let base_q = mlfq_queue_from_ema (tc_ema t) (as_t_l_eff_ns a) (as_t_h_eff_ns a)
          in if base_q < tc_queue t
             then (t\<lparr>tc_queue := base_q\<rparr>, st\<lparr>st_promotions := st_promotions st + 1\<rparr>) else (t, st)
     else (t, st))"

definition wake_seeds :: "rodata \<Rightarrow> adapt_state \<Rightarrow> task_struct \<Rightarrow> u64 \<Rightarrow> task_ctx \<Rightarrow> bool" where
  "wake_seeds r a p slept t \<longleftrightarrow> \<not> ts_in_iowait p \<and> tc_gpu_submit t = 0
     \<and> as_t_h_eff_ns a < tc_prev_burst_ns t \<and> mlfq_short_sleep_ns r < slept"

definition wake_seed :: "rodata \<Rightarrow> adapt_state \<Rightarrow> task_struct \<Rightarrow> u64 \<Rightarrow> task_ctx \<times> mlfq_stats \<Rightarrow> task_ctx \<times> mlfq_stats" where
  "wake_seed r a p slept = (\<lambda>(t, st).
     if wake_seeds r a p slept t \<and> tc_queue t \<noteq> 3 then (t\<lparr>tc_queue := 3\<rparr>, st) else (t, st))"

definition mlfq_wakeup_classify ::
  "rodata \<Rightarrow> adapt_state \<Rightarrow> kernel \<Rightarrow> task_struct \<Rightarrow> u64 \<Rightarrow> task_ctx \<times> mlfq_stats \<Rightarrow> task_ctx \<times> mlfq_stats" where
  "mlfq_wakeup_classify r a k p now = (\<lambda>(t, st).
     let (slept, t) = wake_decay r now t;
         (pred, t) = wake_predict r a k p slept t
     in wake_seed r a p slept (wake_remap r a slept pred (wake_promote r a slept
          (wake_boost r p slept now (wake_map a p pred (t, st))))))"

definition runout_seed :: "adapt_state \<Rightarrow> task_ctx \<Rightarrow> task_ctx" where
  "runout_seed a t =
     (if tc_gpu_submit t = 0 \<and> as_t_h_eff_ns a < tc_prev_burst_ns t \<and> tc_queue t \<noteq> 3
      then t\<lparr>tc_queue := 3\<rparr> else t)"

definition mlfq_runout_classify ::
  "adapt_state \<Rightarrow> kernel \<Rightarrow> task_struct \<Rightarrow> task_ctx \<times> mlfq_stats \<Rightarrow> task_ctx \<times> mlfq_stats" where
  "mlfq_runout_classify a k p = (\<lambda>(t, st).
     let idle = (ts_policy p = MLFQ_SCHED_IDLE);
         t = (if idle then t\<lparr>tc_pending_valid := 0\<rparr> else arm_sample 0 False t);
         pred = (if idle then 0 else mlfq_tree_predict k (tc_pending_feats t));
         st = (if idle then st
               else if pred \<noteq> 0 then st\<lparr>st_tree_inference := st_tree_inference st + 1\<rparr>
               else st\<lparr>st_tree_fallback := st_tree_fallback st + 1\<rparr>);
         t = runout_seed a (t\<lparr>tc_wake_cnt := 0\<rparr>)
     in if mlfq_demotion_blocked p then (t, st)
        else case mlfq_demote_on_reenq (as_t_h_eff_ns a) (as_t_bnd_eff_ns a) pred t of
          (demoted, t) \<Rightarrow> (t, if demoted then st\<lparr>st_demotions := st_demotions st + 1\<rparr> else st))"

section \<open>The queue along the wakeup path\<close>

definition queue_ok :: "task_ctx \<Rightarrow> bool" where
  "queue_ok t \<longleftrightarrow> tc_queue t = 1 \<or> tc_queue t = 2 \<or> tc_queue t = 3"

named_theorems wake_defs \<open>the steps of the classification\<close>

lemmas wake_step_defs [wake_defs] =
  wake_map_def wake_boost_def wake_promote_def wake_remap_def wake_seed_def
  mlfq_promote_on_wakeup_def mlfq_tree_map_queue_def mlfq_queue_from_ema_def

text \<open>The fields the seed reads and the storage identity of the task pass through every step.\<close>

definition same_inputs :: "task_ctx \<Rightarrow> task_ctx \<Rightarrow> bool" where
  "same_inputs t u \<longleftrightarrow> tc_gpu_submit u = tc_gpu_submit t \<and> tc_prev_burst_ns u = tc_prev_burst_ns t
     \<and> tc_weight u = tc_weight t \<and> tc_last_llc u = tc_last_llc t \<and> tc_last_qid u = tc_last_qid t
     \<and> tc_sq_ema u = tc_sq_ema t \<and> tc_vruntime u = tc_vruntime t \<and> tc_vlag u = tc_vlag t
     \<and> tc_queued_at u = tc_queued_at t \<and> tc_enq_at u = tc_enq_at t \<and> tc_flags u = tc_flags t
     \<and> tc_sleep_var_ratio u = tc_sleep_var_ratio t"

lemma same_inputs_refl [simp]: "same_inputs t t"
  by (simp add: same_inputs_def)

lemma same_inputs_trans: "same_inputs t u \<Longrightarrow> same_inputs u v \<Longrightarrow> same_inputs t v"
  by (simp add: same_inputs_def)

lemma wake_steps_inputs:
  "same_inputs t (snd (wake_decay r now t))"
  "same_inputs t (snd (wake_predict r a k p slept t))"
  "same_inputs (fst x) (fst (wake_map a p pred x))"
  "same_inputs (fst x) (fst (wake_boost r p slept now x))"
  "same_inputs (fst x) (fst (wake_promote r a slept x))"
  "same_inputs (fst x) (fst (wake_remap r a slept pred x))"
  "same_inputs (fst x) (fst (wake_seed r a p slept x))"
  by (auto simp: same_inputs_def wake_decay_def wake_predict_def arm_sample_def wake_defs Let_def
      split: prod.splits)

lemma wake_steps_ema:
  "tc_ema (snd (wake_predict r a k p slept t)) = tc_ema t"
  "tc_ema (fst (wake_map a p pred x)) = tc_ema (fst x)"
  "tc_ema (fst (wake_boost r p slept now x)) = tc_ema (fst x)"
  "tc_ema (fst (wake_promote r a slept x)) = tc_ema (fst x)"
  "tc_ema (fst (wake_remap r a slept pred x)) = tc_ema (fst x)"
  "tc_ema (fst (wake_seed r a p slept x)) = tc_ema (fst x)"
  by (auto simp: wake_predict_def arm_sample_def wake_defs Let_def split: prod.splits)

lemma wake_steps_queue:
  "tc_queue (snd (wake_decay r now t)) = tc_queue t"
  "tc_queue (snd (wake_predict r a k p slept t)) = tc_queue t"
  by (auto simp: wake_decay_def wake_predict_def arm_sample_def Let_def)

text \<open>Each mapping step keeps the queue or raises it.\<close>

lemma wake_map_queue:
  assumes "queue_ok (fst x)"
  shows "queue_ok (fst (wake_map a p pred x))" and "tc_queue (fst (wake_map a p pred x)) \<le> tc_queue (fst x)"
  using assms by (auto simp: wake_defs queue_ok_def Let_def split: prod.splits)

lemma wake_boost_queue:
  assumes "queue_ok (fst x)"
  shows "queue_ok (fst (wake_boost r p slept now x))"
    and "tc_queue (fst (wake_boost r p slept now x)) \<le> tc_queue (fst x)"
  using assms by (auto simp: wake_defs queue_ok_def Let_def split: prod.splits)

lemma wake_promote_queue:
  assumes "queue_ok (fst x)"
  shows "queue_ok (fst (wake_promote r a slept x))"
    and "tc_queue (fst (wake_promote r a slept x)) \<le> tc_queue (fst x)"
  using assms by (auto simp: wake_defs queue_ok_def Let_def split: prod.splits if_splits)

lemma queue_from_ema_cases:
  "mlfq_queue_from_ema g t_l t_h = 1 \<or> mlfq_queue_from_ema g t_l t_h = 2 \<or> mlfq_queue_from_ema g t_l t_h = 3"
  by (simp add: mlfq_queue_from_ema_def)

lemma wake_remap_queue:
  assumes "queue_ok (fst x)"
  shows "queue_ok (fst (wake_remap r a slept pred x))"
    and "tc_queue (fst (wake_remap r a slept pred x)) \<le> tc_queue (fst x)"
  using assms queue_from_ema_cases [of "tc_ema (fst x)" "as_t_l_eff_ns a" "as_t_h_eff_ns a"]
  by (auto simp: wake_remap_def queue_ok_def Let_def case_prod_beta)

text \<open>The task before the seed.\<close>

definition wake_unseeded ::
  "rodata \<Rightarrow> adapt_state \<Rightarrow> kernel \<Rightarrow> task_struct \<Rightarrow> u64 \<Rightarrow> task_ctx \<times> mlfq_stats \<Rightarrow> task_ctx \<times> mlfq_stats" where
  "wake_unseeded r a k p now x =
     (let d = wake_decay r now (fst x); pr = wake_predict r a k p (fst d) (snd d)
      in wake_remap r a (fst d) (fst pr) (wake_promote r a (fst d)
           (wake_boost r p (fst d) now (wake_map a p (fst pr) (snd pr, snd x)))))"

lemma wakeup_classify_eq:
  "mlfq_wakeup_classify r a k p now x
     = wake_seed r a p (fst (wake_decay r now (fst x))) (wake_unseeded r a k p now x)"
  by (simp add: mlfq_wakeup_classify_def wake_unseeded_def Let_def case_prod_beta)

lemma wake_unseeded_inputs: "same_inputs (fst x) (fst (wake_unseeded r a k p now x))"
proof -
  let ?d = "wake_decay r now (fst x)"
  let ?pr = "wake_predict r a k p (fst ?d) (snd ?d)"
  have "same_inputs (fst x) (fst (snd ?pr, snd x))"
    using same_inputs_trans [OF wake_steps_inputs(1) wake_steps_inputs(2)] by simp
  note m = same_inputs_trans [OF this wake_steps_inputs(3)]
  note b = same_inputs_trans [OF m wake_steps_inputs(4)]
  note w = same_inputs_trans [OF b wake_steps_inputs(5)]
  show ?thesis
    unfolding wake_unseeded_def Let_def by (rule same_inputs_trans [OF w wake_steps_inputs(6)])
qed

lemma wake_unseeded_queue:
  assumes "queue_ok (fst x)"
  shows "queue_ok (fst (wake_unseeded r a k p now x))"
    and "tc_queue (fst (wake_unseeded r a k p now x)) \<le> tc_queue (fst x)"
proof -
  let ?d = "wake_decay r now (fst x)"
  let ?pr = "wake_predict r a k p (fst ?d) (snd ?d)"
  let ?m = "wake_map a p (fst ?pr) (snd ?pr, snd x)"
  let ?b = "wake_boost r p (fst ?d) now ?m"
  let ?w = "wake_promote r a (fst ?d) ?b"
  have q0: "tc_queue (snd ?pr) = tc_queue (fst x)" by (simp add: wake_steps_queue)
  have ok0: "queue_ok (fst (snd ?pr, snd x))" using assms q0 by (simp add: queue_ok_def)
  note m = wake_map_queue [OF ok0, of a p "fst ?pr"]
  note b = wake_boost_queue [OF m(1), of r p "fst ?d" now]
  note w = wake_promote_queue [OF b(1), of r a "fst ?d"]
  note z = wake_remap_queue [OF w(1), of r a "fst ?d" "fst ?pr"]
  show "queue_ok (fst (wake_unseeded r a k p now x))"
    using z(1) unfolding wake_unseeded_def Let_def .
  have "tc_queue (fst (wake_remap r a (fst ?d) (fst ?pr) ?w)) \<le> tc_queue (fst (snd ?pr, snd x))"
    using z(2) w(2) b(2) m(2) by order
  then show "tc_queue (fst (wake_unseeded r a k p now x)) \<le> tc_queue (fst x)"
    unfolding wake_unseeded_def Let_def using q0 by simp
qed

lemma wakeup_inputs: "same_inputs (fst x) (fst (mlfq_wakeup_classify r a k p now x))"
  unfolding wakeup_classify_eq by (rule same_inputs_trans [OF wake_unseeded_inputs wake_steps_inputs(7)])

lemma wakeup_ema: "tc_ema (fst (mlfq_wakeup_classify r a k p now x)) = tc_ema (snd (wake_decay r now (fst x)))"
  by (simp add: wakeup_classify_eq wake_unseeded_def Let_def wake_steps_ema)

text \<open>Once boosted, nothing before the seed takes the task out of Q1.\<close>

lemma queue_one_stays:
  assumes "tc_queue (fst x) = 1"
  shows "tc_queue (fst (wake_remap r a slept pred (wake_promote r a slept x))) = 1"
  using assms by (auto simp: wake_defs Let_def split: prod.splits if_splits)

section \<open>The run-out path\<close>

definition runout_armed :: "task_struct \<Rightarrow> task_ctx \<Rightarrow> task_ctx" where
  "runout_armed p t = (if ts_policy p = MLFQ_SCHED_IDLE then t\<lparr>tc_pending_valid := 0\<rparr> else arm_sample 0 False t)"

definition runout_pred :: "kernel \<Rightarrow> task_struct \<Rightarrow> task_ctx \<Rightarrow> u64" where
  "runout_pred k p t = (if ts_policy p = MLFQ_SCHED_IDLE then 0
     else mlfq_tree_predict k (capture_feats 0 False t))"

definition runout_seeds :: "adapt_state \<Rightarrow> task_ctx \<Rightarrow> bool" where
  "runout_seeds a t \<longleftrightarrow> tc_gpu_submit t = 0 \<and> as_t_h_eff_ns a < tc_prev_burst_ns t"

definition cpu_bound :: "adapt_state \<Rightarrow> u64 \<Rightarrow> task_ctx \<Rightarrow> bool" where
  "cpu_bound a pred t = (if pred \<noteq> 0 then as_t_bnd_eff_ns a \<le> pred else as_t_h_eff_ns a < tc_ema t)"

lemma armed_fields:
  "tc_queue (runout_armed p t) = tc_queue t" "tc_ema (runout_armed p t) = tc_ema t"
  "tc_reenq_cnt (runout_armed p t) = tc_reenq_cnt t" "tc_gpu_submit (runout_armed p t) = tc_gpu_submit t"
  "tc_prev_burst_ns (runout_armed p t) = tc_prev_burst_ns t"
  by (simp_all add: runout_armed_def arm_sample_def)

lemma runout_classify_eq:
  "fst (mlfq_runout_classify a k p (t, st)) =
    snd (mlfq_demote_on_reenq (as_t_h_eff_ns a) (as_t_bnd_eff_ns a) (runout_pred k p t)
           (runout_seed a ((runout_armed p t)\<lparr>tc_wake_cnt := 0\<rparr>)))"
  by (simp add: mlfq_runout_classify_def runout_pred_def runout_armed_def Let_def mlfq_demotion_blocked_def
      case_prod_beta arm_sample_def)

lemma runout_fields:
  assumes "queue_ok t"
  shows "tc_queue (fst (mlfq_runout_classify a k p (t, st))) =
      (if runout_seeds a t then 3
       else if tc_queue t \<noteq> 3 \<and> cpu_bound a (runout_pred k p t) t \<and> 8 \<le> tc_reenq_cnt t + 1
       then tc_queue t + 1 else tc_queue t)"
    and "tc_reenq_cnt (fst (mlfq_runout_classify a k p (t, st))) =
      (if \<not> runout_seeds a t \<and> tc_queue t \<noteq> 3 \<and> cpu_bound a (runout_pred k p t) t \<and> 8 \<le> tc_reenq_cnt t + 1
       then 0 else tc_reenq_cnt t + 1)"
    and "tc_ema (fst (mlfq_runout_classify a k p (t, st))) = tc_ema t"
    and "tc_prev_burst_ns (fst (mlfq_runout_classify a k p (t, st))) = tc_prev_burst_ns t"
    and "tc_gpu_submit (fst (mlfq_runout_classify a k p (t, st))) = tc_gpu_submit t"
  using assms unfolding runout_classify_eq
  by (auto simp: mlfq_demote_on_reenq_def runout_seed_def runout_seeds_def armed_fields Let_def
      cpu_bound_def queue_ok_def)

lemma runout_inputs: "same_inputs t (fst (mlfq_runout_classify a k p (t, st)))"
  unfolding runout_classify_eq
  by (auto simp: same_inputs_def mlfq_demote_on_reenq_def runout_seed_def runout_armed_def arm_sample_def Let_def)

lemma runout_queue_ok:
  assumes "queue_ok t"
  shows "queue_ok (fst (mlfq_runout_classify a k p (t, st)))"
  using assms by (auto simp: queue_ok_def runout_fields [OF assms])

lemma wakeup_queue_ok:
  assumes "queue_ok (fst x)"
  shows "queue_ok (fst (mlfq_wakeup_classify r a k p now x))"
  using wake_unseeded_queue(1) [OF assms, of r a k p now]
  by (auto simp: wakeup_classify_eq wake_seed_def queue_ok_def case_prod_beta)

text \<open>The count of exhausted slices is cleared by a wakeup and grows by at most one at a run-out.\<close>

lemma wakeup_reenq: "tc_reenq_cnt (fst (mlfq_wakeup_classify r a k p now x)) = 0"
proof -
  have "tc_reenq_cnt (snd (wake_decay r now t)) = 0"
    "tc_reenq_cnt (snd (wake_predict r a k p slept t)) = tc_reenq_cnt t"
    "tc_reenq_cnt (fst (wake_map a p pred y)) = tc_reenq_cnt (fst y)"
    "tc_reenq_cnt (fst (wake_boost r p slept now y)) = tc_reenq_cnt (fst y)"
    "tc_reenq_cnt (fst (wake_promote r a slept y)) = tc_reenq_cnt (fst y)"
    "tc_reenq_cnt (fst (wake_remap r a slept pred y)) = tc_reenq_cnt (fst y)"
    "tc_reenq_cnt (fst (wake_seed r a p slept y)) = tc_reenq_cnt (fst y)" for t slept pred y
    by (auto simp: wake_decay_def wake_predict_def arm_sample_def wake_defs Let_def split: prod.splits)
  then show ?thesis by (simp add: mlfq_wakeup_classify_def case_prod_beta Let_def)
qed

section \<open>How a queue changes\<close>

lemma wakeup_queue_cases:
  assumes "queue_ok t"
  shows "let t' = fst (mlfq_wakeup_classify r a k p now (t, st))
    in if wake_seeds r a p (fst (wake_decay r now t)) t then tc_queue t' = 3
       else queue_ok t' \<and> tc_queue t' \<le> tc_queue t"
proof -
  have ok: "queue_ok (fst (t, st))" using assms by simp
  note u = wake_unseeded_queue [OF ok, of r a k p now] wake_unseeded_inputs [of "(t, st)" r a k p now]
  have "wake_seeds r a p s (fst (wake_unseeded r a k p now (t, st))) = wake_seeds r a p s t" for s
    using u(3) by (simp add: wake_seeds_def same_inputs_def)
  with u show ?thesis
    by (simp add: wakeup_classify_eq wake_seed_def Let_def case_prod_beta)
qed

text \<open>
  C11. A wakeup never lowers the priority of a task, except through the Q3 seed: a task without
  recent GPU work whose last burst exceeded the CPU-bound edge and whose sleep exceeded the
  short window leaves every non-I/O wakeup in Q3, from any queue and whatever the tree predicts.
\<close>

theorem wakeup_queue:
  assumes "queue_ok t"
  shows "let t' = fst (mlfq_wakeup_classify r a k p now (t, st))
    in if wake_seeds r a p (fst (wake_decay r now t)) t then tc_queue t' = 3
       else queue_ok t' \<and> tc_queue t' \<le> tc_queue t"
  by (rule wakeup_queue_cases [OF assms])

text \<open>
  The interactive boost is unconditional on the tree: a wakeup of a task that is not
  SCHED_IDLE and that comes out of I/O, or out of a sleep within the short window, ends in Q1
  once the rate limit of the task has elapsed.
\<close>

theorem interactive_boost:
  assumes "ts_policy p \<noteq> MLFQ_SCHED_IDLE"
    and "mlfq_ss_boost_pending t (fst (wake_decay r now t)) (ts_in_iowait p) now
           (mlfq_short_sleep_ns r) (mlfq_short_sleep_rate_limit_ns r)"
  shows "tc_queue (fst (mlfq_wakeup_classify r a k p now (t, st))) = 1"
proof -
  let ?d = "wake_decay r now t"
  let ?pr = "wake_predict r a k p (fst ?d) (snd ?d)"
  let ?m = "wake_map a p (fst ?pr) (snd ?pr, st)"
  have last: "tc_last_ss_boost_at (fst ?m) = tc_last_ss_boost_at t"
    by (simp add: wake_map_def wake_predict_def wake_decay_def arm_sample_def Let_def case_prod_beta)
  then have "mlfq_ss_boost_pending (fst ?m) (fst ?d) (ts_in_iowait p) now
      (mlfq_short_sleep_ns r) (mlfq_short_sleep_rate_limit_ns r)"
    using assms(2) by (simp add: mlfq_ss_boost_pending_def)
  then have "tc_queue (fst (wake_boost r p (fst ?d) now ?m)) = 1"
    using assms(1) by (simp add: wake_boost_def case_prod_beta)
  then have q1: "tc_queue (fst (wake_unseeded r a k p now (t, st))) = 1"
    unfolding wake_unseeded_def Let_def fst_conv snd_conv by (rule queue_one_stays)
  have "\<not> wake_seeds r a p (fst ?d) u" for u
    using assms(2) by (auto simp: wake_seeds_def mlfq_ss_boost_pending_def mlfq_boost_eligible_def)
  with q1 show ?thesis by (simp add: wakeup_classify_eq wake_seed_def case_prod_beta)
qed

end
