(* ===== verification/Runnable.thy ===== *)
theory Runnable
  imports Classify
begin

text \<open>
  The runnable gauges of \<open>src/scx/src/bpf/intf.h\<close>: \<open>mlfq_llc_add\<close>, \<open>mlfq_queue_add\<close>, the
  entry and release helpers of a task's ownership, the validated LLC of a CPU
  (\<open>main.bpf.c\<close>) and the steering choice that reads the gauges. A BSS array is a function on
  the index; every access of the code is guarded by the length. The lemmas show that each
  gauge is the number of tasks whose ownership record names its domain or queue.
\<close>

section \<open>Operations\<close>

record run_gauges =
  rg_llc :: "nat \<Rightarrow> u32"
  rg_queue :: "nat \<Rightarrow> u32"

definition mlfq_llc_add :: "u32 \<Rightarrow> u64 \<Rightarrow> run_gauges \<Rightarrow> run_gauges" where
  "mlfq_llc_add llc delta g =
     (if MLFQ_MAX_LLCS \<le> unat llc then g
      else if 0 <s delta then g\<lparr>rg_llc := (rg_llc g)(unat llc := rg_llc g (unat llc) + ucast delta)\<rparr>
      else g\<lparr>rg_llc := (rg_llc g)(unat llc := rg_llc g (unat llc) - ucast (- delta))\<rparr>)"

definition mlfq_queue_add :: "u32 \<Rightarrow> u64 \<Rightarrow> run_gauges \<Rightarrow> run_gauges" where
  "mlfq_queue_add qid delta g =
     (if qid < 1 \<or> MLFQ_NR_QUEUES < ucast qid then g
      else if 0 <s delta then g\<lparr>rg_queue := (rg_queue g)(unat qid := rg_queue g (unat qid) + ucast delta)\<rparr>
      else g\<lparr>rg_queue := (rg_queue g)(unat qid := rg_queue g (unat qid) - ucast (- delta))\<rparr>)"

definition mlfq_runnable_enter :: "u8 \<Rightarrow> u32 \<Rightarrow> task_ctx \<times> run_gauges \<Rightarrow> task_ctx \<times> run_gauges" where
  "mlfq_runnable_enter qid llc = (\<lambda>(t, g).
     if MLFQ_MAX_LLCS \<le> unat llc then (t, g)
     else if tc_last_llc t = MLFQ_LLC_UNOWNED
     then (t\<lparr>tc_last_llc := ucast llc, tc_last_qid := qid\<rparr>,
           mlfq_queue_add (ucast qid) 1 (mlfq_llc_add llc 1 g))
     else let (t, g) = (if tc_last_llc t \<noteq> ucast llc
                then (t\<lparr>tc_last_llc := ucast llc\<rparr>,
                      mlfq_llc_add llc 1 (mlfq_llc_add (ucast (tc_last_llc t)) (- 1) g))
                else (t, g))
          in if tc_last_qid t \<noteq> qid
             then (t\<lparr>tc_last_qid := qid\<rparr>,
                   mlfq_queue_add (ucast qid) 1 (mlfq_queue_add (ucast (tc_last_qid t)) (- 1) g))
             else (t, g))"

definition mlfq_runnable_exit :: "task_ctx \<times> run_gauges \<Rightarrow> task_ctx \<times> run_gauges" where
  "mlfq_runnable_exit = (\<lambda>(t, g).
     if tc_last_llc t = MLFQ_LLC_UNOWNED then (t, g)
     else (t\<lparr>tc_last_llc := MLFQ_LLC_UNOWNED, tc_last_qid := 0\<rparr>,
           mlfq_queue_add (ucast (tc_last_qid t)) (- 1) (mlfq_llc_add (ucast (tc_last_llc t)) (- 1) g)))"

text \<open>The sentinel \<open>MLFQ_MAX_LLCS\<close> stands for no populated domain.\<close>

definition mlfq_llc_of_cpu :: "rodata \<Rightarrow> u32 \<Rightarrow> u32" where
  "mlfq_llc_of_cpu r cpu =
     (if MLFQ_MAX_CPUS \<le> unat cpu then of_nat MLFQ_MAX_LLCS
      else let llc = mlfq_cpu_llc r ! unat cpu
           in if unat llc < MLFQ_MAX_LLCS \<and> llc < mlfq_nr_llcs r then llc else of_nat MLFQ_MAX_LLCS)"

text \<open>One selection pass of the wakeup steering.\<close>

definition steer_step ::
  "(nat \<Rightarrow> u32) \<Rightarrow> (nat \<Rightarrow> u32) \<Rightarrow> u32 \<Rightarrow> u32 \<Rightarrow> u64 \<Rightarrow> nat \<Rightarrow> u32 \<Rightarrow> u32" where
  "steer_step runnable idle nr_llcs waker_llc visited llc best =
     (if unat nr_llcs \<le> llc then best
      else if llc = unat waker_llc then best
      else if bit visited llc then best
      else if idle llc = 0 then best
      else if MLFQ_MAX_LLCS \<le> unat best \<or> runnable llc < runnable (unat best)
              \<or> runnable llc = runnable (unat best) \<and> llc < unat best
      then of_nat llc else best)"

definition mlfq_steer_pick_llc :: "(nat \<Rightarrow> u32) \<Rightarrow> (nat \<Rightarrow> u32) \<Rightarrow> u32 \<Rightarrow> u32 \<Rightarrow> u64 \<Rightarrow> u32" where
  "mlfq_steer_pick_llc runnable idle nr_llcs waker_llc visited =
     fold (steer_step runnable idle nr_llcs waker_llc visited) [0..<MLFQ_MAX_LLCS] (of_nat MLFQ_MAX_LLCS)"

section \<open>Counting\<close>

text \<open>A gauge array that counts, on the given indices, the tasks whose key is the index.\<close>

definition tally :: "(nat \<Rightarrow> u32) \<Rightarrow> (u32 \<Rightarrow> nat option) \<Rightarrow> nat set \<Rightarrow> bool" where
  "tally c key L \<longleftrightarrow> (\<forall>l \<in> L. c l = of_nat (card {p. key p = Some l}))"

lemma card_key_upd:
  fixes key :: "u32 \<Rightarrow> nat option"
  shows "of_nat (card {p. (key(a := v)) p = Some l}) + (if key a = Some l then 1 else 0)
     = (of_nat (card {p. key p = Some l}) :: u32) + (if v = Some l then 1 else 0)"
proof -
  define S where "S = {p. p \<noteq> a \<and> key p = Some l}"
  have fin: "finite S" and a: "a \<notin> S" by (simp_all add: S_def)
  have "{p. (key(a := v)) p = Some l} = (if v = Some l then insert a S else S)"
    by (auto simp: S_def)
  moreover have "{p. key p = Some l} = (if key a = Some l then insert a S else S)"
    by (auto simp: S_def)
  ultimately show ?thesis using fin a by simp
qed

lemma tally_upd:
  assumes "tally c key L"
    and "\<And>m. m \<in> L \<Longrightarrow> c' m + (if key p = Some m then 1 else 0) = c m + (if v = Some m then 1 else 0)"
  shows "tally c' (key(p := v)) L"
  unfolding tally_def
proof
  fix m assume m: "m \<in> L"
  define n where "n = (of_nat (card {q. (key(p := v)) q = Some m}) :: u32)"
  have "n + (if key p = Some m then 1 else 0) = c m + (if v = Some m then 1 else 0)"
    using card_key_upd [of key p v m] assms(1) m by (simp only: n_def tally_def)
  with assms(2) [OF m] have "c' m = n" by (metis add_right_cancel)
  then show "c' m = of_nat (card {q. (key(p := v)) q = Some m})" by (simp only: n_def)
qed

lemma tally_enter:
  assumes "tally c key L" and "key p = None"
  shows "tally (c(l := c l + 1)) (key(p := Some l)) L"
  using assms by (intro tally_upd [OF assms(1)]) auto

lemma tally_exit:
  assumes "tally c key L" and "key p = Some l"
  shows "tally (c(l := c l - 1)) (key(p := None)) L"
  using assms by (intro tally_upd [OF assms(1)]) auto

lemma tally_move:
  assumes "tally c key L" and "key p = Some l"
  shows "tally ((c(l := c l - 1))(m := (c(l := c l - 1)) m + 1)) (key(p := Some m)) L"
  using tally_enter [OF tally_exit [OF assms], of p m] by simp

section \<open>Ownership\<close>

text \<open>A task storage and what its records own.\<close>

type_synonym tasks = "u32 \<Rightarrow> task_ctx option"

definition owned :: "task_ctx \<Rightarrow> bool" where
  "owned t \<longleftrightarrow> tc_last_llc t \<noteq> MLFQ_LLC_UNOWNED"

definition llc_key :: "tasks \<Rightarrow> u32 \<Rightarrow> nat option" where
  "llc_key ts p = (case ts p of None \<Rightarrow> None | Some t \<Rightarrow> if owned t then Some (unat (tc_last_llc t)) else None)"

definition queue_key :: "tasks \<Rightarrow> u32 \<Rightarrow> nat option" where
  "queue_key ts p = (case ts p of None \<Rightarrow> None | Some t \<Rightarrow> if owned t then Some (unat (tc_last_qid t)) else None)"

definition record_ok :: "task_ctx \<Rightarrow> bool" where
  "record_ok t \<longleftrightarrow>
     (owned t \<longrightarrow> unat (tc_last_llc t) < 32 \<and> 1 \<le> unat (tc_last_qid t) \<and> unat (tc_last_qid t) \<le> 3)
   \<and> (\<not> owned t \<longrightarrow> tc_last_qid t = 0)"

definition gauges_inv :: "tasks \<Rightarrow> run_gauges \<Rightarrow> bool" where
  "gauges_inv ts g \<longleftrightarrow> (\<forall>p t. ts p = Some t \<longrightarrow> record_ok t)
     \<and> tally (rg_llc g) (llc_key ts) {..<32} \<and> tally (rg_queue g) (queue_key ts) {1..3}"

lemma gauges_inv_record: "gauges_inv ts g \<Longrightarrow> ts p = Some t \<Longrightarrow> record_ok t"
  by (simp add: gauges_inv_def)

lemma key_upd:
  "llc_key (ts(p \<mapsto> t)) = (llc_key ts)(p := if owned t then Some (unat (tc_last_llc t)) else None)"
  "queue_key (ts(p \<mapsto> t)) = (queue_key ts)(p := if owned t then Some (unat (tc_last_qid t)) else None)"
  by (auto simp: llc_key_def queue_key_def)

lemma llc_add_simps:
  "unat llc < 32 \<Longrightarrow> mlfq_llc_add llc 1 g = g\<lparr>rg_llc := (rg_llc g)(unat llc := rg_llc g (unat llc) + 1)\<rparr>"
  "unat llc < 32 \<Longrightarrow> mlfq_llc_add llc (- 1) g = g\<lparr>rg_llc := (rg_llc g)(unat llc := rg_llc g (unat llc) - 1)\<rparr>"
  by (simp_all add: mlfq_llc_add_def MLFQ_MAX_LLCS_def word_sless_alt)

lemma queue_add_simps:
  assumes "1 \<le> unat qid" and "unat qid \<le> 3"
  shows "mlfq_queue_add qid 1 g = g\<lparr>rg_queue := (rg_queue g)(unat qid := rg_queue g (unat qid) + 1)\<rparr>"
    and "mlfq_queue_add qid (- 1) g = g\<lparr>rg_queue := (rg_queue g)(unat qid := rg_queue g (unat qid) - 1)\<rparr>"
proof -
  have "\<not> (qid < 1 \<or> MLFQ_NR_QUEUES < ucast qid)"
    using assms by (auto simp: MLFQ_NR_QUEUES_def word_less_nat_alt)
  then show "mlfq_queue_add qid 1 g = g\<lparr>rg_queue := (rg_queue g)(unat qid := rg_queue g (unat qid) + 1)\<rparr>"
    and "mlfq_queue_add qid (- 1) g = g\<lparr>rg_queue := (rg_queue g)(unat qid := rg_queue g (unat qid) - 1)\<rparr>"
    by (simp_all add: mlfq_queue_add_def word_sless_alt)
qed

lemma unat_ucast_u8_u32 [simp]: "unat (ucast (a :: u8) :: u32) = unat a"
  using unsigned_less [of a, where ?'a = nat] by (simp add: unsigned_ucast_eq take_bit_nat_eq_self)

lemma unat_ucast_small: "unat (a :: u32) < 256 \<Longrightarrow> unat (ucast a :: u8) = unat a"
  by (simp add: unsigned_ucast_eq take_bit_nat_eq_self)

lemma unowned_eq: "MLFQ_LLC_UNOWNED = 255"
  by (simp add: const_defs)

lemma llc_owned: "unat (llc :: u32) < 32 \<Longrightarrow> (ucast llc :: u8) \<noteq> MLFQ_LLC_UNOWNED"
proof
  assume "unat llc < 32" and "(ucast llc :: u8) = MLFQ_LLC_UNOWNED"
  then have "unat llc = unat MLFQ_LLC_UNOWNED" using unat_ucast_small [of llc] by simp
  with \<open>unat llc < 32\<close> show False by (simp add: unowned_eq)
qed

lemma gauges_inv_upd:
  assumes "gauges_inv ts g" and "record_ok t'"
    and "\<And>l. l < 32 \<Longrightarrow> rg_llc g' l + (if llc_key ts p = Some l then 1 else 0)
           = rg_llc g l + (if owned t' \<and> unat (tc_last_llc t') = l then 1 else 0)"
    and "\<And>q. 1 \<le> q \<Longrightarrow> q \<le> 3 \<Longrightarrow> rg_queue g' q + (if queue_key ts p = Some q then 1 else 0)
           = rg_queue g q + (if owned t' \<and> unat (tc_last_qid t') = q then 1 else 0)"
  shows "gauges_inv (ts(p \<mapsto> t')) g'"
proof -
  have "tally (rg_llc g') ((llc_key ts)(p := if owned t' then Some (unat (tc_last_llc t')) else None)) {..<32}"
    using assms(1) by (intro tally_upd) (auto simp: gauges_inv_def assms(3))
  moreover have "tally (rg_queue g') ((queue_key ts)(p := if owned t' then Some (unat (tc_last_qid t')) else None)) {1..3}"
    using assms(1) by (intro tally_upd) (auto simp: gauges_inv_def assms(4))
  ultimately show ?thesis
    using assms(1, 2) by (auto simp: gauges_inv_def key_upd)
qed

text \<open>Only the ownership record of a task matters.\<close>

lemma gauges_inv_same:
  assumes "gauges_inv ts g" and "ts p = Some t"
    and "tc_last_llc t' = tc_last_llc t" and "tc_last_qid t' = tc_last_qid t"
  shows "gauges_inv (ts(p \<mapsto> t')) g"
proof (rule gauges_inv_upd [OF assms(1)])
  show "record_ok t'"
    using gauges_inv_record [OF assms(1, 2)] assms(3, 4) by (simp add: record_ok_def owned_def)
qed (use assms in \<open>auto simp: llc_key_def queue_key_def owned_def\<close>)

lemma gauges_inv_fresh:
  assumes "gauges_inv ts g" and "ts p = None" and "\<not> owned t'" and "tc_last_qid t' = 0"
  shows "gauges_inv (ts(p \<mapsto> t')) g"
proof (rule gauges_inv_upd [OF assms(1)])
  show "record_ok t'" using assms by (simp add: record_ok_def)
qed (use assms in \<open>auto simp: llc_key_def queue_key_def\<close>)

lemma exit_inv:
  assumes "gauges_inv ts g" and "ts p = Some t"
  shows "gauges_inv (ts(p \<mapsto> fst (mlfq_runnable_exit (t, g)))) (snd (mlfq_runnable_exit (t, g)))"
proof (cases "owned t")
  case False
  with assms show ?thesis
    by (simp add: mlfq_runnable_exit_def owned_def fun_upd_triv map_upd_triv)
next
  case True
  then have rec: "unat (tc_last_llc t) < 32" "1 \<le> unat (tc_last_qid t)" "unat (tc_last_qid t) \<le> 3"
    using gauges_inv_record [OF assms(1, 2)] by (simp_all add: record_ok_def)
  have keys: "llc_key ts p = Some (unat (tc_last_llc t))" "queue_key ts p = Some (unat (tc_last_qid t))"
    using True assms(2) by (simp_all add: llc_key_def queue_key_def)
  have "tc_last_llc t \<noteq> MLFQ_LLC_UNOWNED" using True by (simp add: owned_def)
  then have e: "mlfq_runnable_exit (t, g) = (t\<lparr>tc_last_llc := MLFQ_LLC_UNOWNED, tc_last_qid := 0\<rparr>,
      g\<lparr>rg_llc := (rg_llc g)(unat (tc_last_llc t) := rg_llc g (unat (tc_last_llc t)) - 1),
        rg_queue := (rg_queue g)(unat (tc_last_qid t) := rg_queue g (unat (tc_last_qid t)) - 1)\<rparr>)"
    using rec by (simp add: mlfq_runnable_exit_def llc_add_simps queue_add_simps)
  show ?thesis
    unfolding e using keys
    by (intro gauges_inv_upd [OF assms(1)]) (auto simp: record_ok_def owned_def)
qed

lemma enter_inv:
  assumes "gauges_inv ts g" and "ts p = Some t" and "1 \<le> unat qid" and "unat qid \<le> 3"
  shows "gauges_inv (ts(p \<mapsto> fst (mlfq_runnable_enter qid llc (t, g)))) (snd (mlfq_runnable_enter qid llc (t, g)))"
proof (cases "MLFQ_MAX_LLCS \<le> unat llc")
  case True
  with assms show ?thesis by (simp add: mlfq_runnable_enter_def map_upd_triv)
next
  case False
  then have llc: "unat llc < 32" by (simp add: MLFQ_MAX_LLCS_def)
  then have ul: "unat (ucast llc :: u8) = unat llc" by (simp add: unat_ucast_small)
  have nu: "(ucast llc :: u8) \<noteq> MLFQ_LLC_UNOWNED" using llc by (rule llc_owned)
  show ?thesis
  proof (cases "owned t")
    case False
    then have "tc_last_llc t = MLFQ_LLC_UNOWNED" by (simp add: owned_def)
    then have e: "mlfq_runnable_enter qid llc (t, g) = (t\<lparr>tc_last_llc := ucast llc, tc_last_qid := qid\<rparr>,
        g\<lparr>rg_llc := (rg_llc g)(unat llc := rg_llc g (unat llc) + 1),
          rg_queue := (rg_queue g)(unat qid := rg_queue g (unat qid) + 1)\<rparr>)"
      using llc assms(3, 4) \<open>\<not> MLFQ_MAX_LLCS \<le> unat llc\<close>
      by (simp add: mlfq_runnable_enter_def llc_add_simps queue_add_simps)
    have "llc_key ts p = None" "queue_key ts p = None"
      using False assms(2) by (simp_all add: llc_key_def queue_key_def)
    then show ?thesis
      unfolding e using llc ul nu assms(3, 4)
      by (intro gauges_inv_upd [OF assms(1)]) (auto simp: record_ok_def owned_def)
  next
    case True
    then have rec: "unat (tc_last_llc t) < 32" "1 \<le> unat (tc_last_qid t)" "unat (tc_last_qid t) \<le> 3"
      using gauges_inv_record [OF assms(1, 2)] by (simp_all add: record_ok_def)
    have keys: "llc_key ts p = Some (unat (tc_last_llc t))" "queue_key ts p = Some (unat (tc_last_qid t))"
      using True assms(2) by (simp_all add: llc_key_def queue_key_def)
    have nu': "tc_last_llc t \<noteq> MLFQ_LLC_UNOWNED" using True by (simp add: owned_def)
    define g1 where "g1 = (if tc_last_llc t \<noteq> ucast llc
        then mlfq_llc_add llc 1 (mlfq_llc_add (ucast (tc_last_llc t)) (- 1) g) else g)"
    define g2 where "g2 = (if tc_last_qid t \<noteq> qid
        then mlfq_queue_add (ucast qid) 1 (mlfq_queue_add (ucast (tc_last_qid t)) (- 1) g1) else g1)"
    have e: "mlfq_runnable_enter qid llc (t, g) = (t\<lparr>tc_last_llc := ucast llc, tc_last_qid := qid\<rparr>, g2)"
      using nu' \<open>\<not> MLFQ_MAX_LLCS \<le> unat llc\<close>
      by (auto simp: mlfq_runnable_enter_def g2_def g1_def)
    have l: "rg_llc g2 = (if tc_last_llc t \<noteq> ucast llc
        then ((rg_llc g)(unat (tc_last_llc t) := rg_llc g (unat (tc_last_llc t)) - 1))
          (unat llc := ((rg_llc g)(unat (tc_last_llc t) := rg_llc g (unat (tc_last_llc t)) - 1)) (unat llc) + 1)
        else rg_llc g)"
      using rec llc assms(3, 4) by (simp add: g2_def g1_def llc_add_simps queue_add_simps)
    have q: "rg_queue g2 = (if tc_last_qid t \<noteq> qid
        then ((rg_queue g)(unat (tc_last_qid t) := rg_queue g (unat (tc_last_qid t)) - 1))
          (unat qid := ((rg_queue g)(unat (tc_last_qid t) := rg_queue g (unat (tc_last_qid t)) - 1)) (unat qid) + 1)
        else rg_queue g)"
      using rec llc assms(3, 4) by (simp add: g2_def g1_def llc_add_simps queue_add_simps)
    have dl: "tc_last_llc t = ucast llc \<longleftrightarrow> unat (tc_last_llc t) = unat llc"
      using ul by (auto simp: word_unat_eq_iff)
    have dq: "tc_last_qid t = qid \<longleftrightarrow> unat (tc_last_qid t) = unat qid"
      by (simp add: word_unat_eq_iff)
    show ?thesis
      unfolding e fst_conv snd_conv
    proof (rule gauges_inv_upd [OF assms(1)])
      show "record_ok (t\<lparr>tc_last_llc := ucast llc, tc_last_qid := qid\<rparr>)"
        using llc ul nu assms(3, 4) by (simp add: record_ok_def owned_def)
    qed (use keys ul nu in \<open>auto simp: l q dl dq owned_def\<close>)
  qed
qed

section \<open>Steering\<close>

definition steer_eligible :: "(nat \<Rightarrow> u32) \<Rightarrow> u32 \<Rightarrow> u32 \<Rightarrow> u64 \<Rightarrow> nat \<Rightarrow> bool" where
  "steer_eligible idle nr_llcs waker_llc visited llc \<longleftrightarrow>
     llc < unat nr_llcs \<and> llc \<noteq> unat waker_llc \<and> \<not> bit visited llc \<and> idle llc \<noteq> 0"

definition steer_best :: "(nat \<Rightarrow> u32) \<Rightarrow> (nat \<Rightarrow> bool) \<Rightarrow> nat \<Rightarrow> nat \<Rightarrow> bool" where
  "steer_best runnable el n b \<longleftrightarrow> b < n \<and> el b
     \<and> (\<forall>l < n. el l \<longrightarrow> runnable b < runnable l \<or> runnable b = runnable l \<and> b \<le> l)"

lemma steer_best_extend:
  assumes "steer_best runnable el n b" and "el n \<longrightarrow> \<not> runnable n < runnable b"
  shows "steer_best runnable el (Suc n) b"
  using assms by (auto simp: steer_best_def less_Suc_eq not_less order_le_less)

lemma steer_best_replace:
  assumes "steer_best runnable el n b" and "el n" and "runnable n < runnable b"
  shows "steer_best runnable el (Suc n) n"
  using assms by (fastforce simp: steer_best_def less_Suc_eq)

lemma steer_fold:
  assumes "n \<le> 32"
  shows "let b = fold (steer_step runnable idle nr w v) [0..<n] (of_nat MLFQ_MAX_LLCS);
             el = steer_eligible idle nr w v
    in if \<exists>l<n. el l then steer_best runnable el n (unat b) else b = of_nat MLFQ_MAX_LLCS"
  using assms
proof (induction n)
  case 0
  then show ?case by simp
next
  case (Suc n)
  define b where "b = fold (steer_step runnable idle nr w v) [0..<n] (of_nat MLFQ_MAX_LLCS)"
  define el where "el = steer_eligible idle nr w v"
  have IH: "if \<exists>l<n. el l then steer_best runnable el n (unat b) else b = of_nat MLFQ_MAX_LLCS"
    using Suc by (simp only: Let_def b_def el_def) simp
  have n: "unat (of_nat n :: u32) = n" using Suc.prems by (simp add: unat_of_nat_u32)
  have max: "unat (of_nat MLFQ_MAX_LLCS :: u32) = 32" by (simp add: MLFQ_MAX_LLCS_def)
  have step: "fold (steer_step runnable idle nr w v) [0..<Suc n] (of_nat MLFQ_MAX_LLCS)
      = steer_step runnable idle nr w v n b" by (simp add: b_def)
  have ss: "steer_step runnable idle nr w v n b =
      (if el n \<and> (32 \<le> unat b \<or> runnable n < runnable (unat b)
          \<or> runnable n = runnable (unat b) \<and> n < unat b) then of_nat n else b)"
    by (simp add: steer_step_def el_def steer_eligible_def MLFQ_MAX_LLCS_def)
  have "if \<exists>l<Suc n. el l then steer_best runnable el (Suc n) (unat (steer_step runnable idle nr w v n b))
      else steer_step runnable idle nr w v n b = of_nat MLFQ_MAX_LLCS"
  proof (cases "\<exists>l<n. el l")
    case True
    then have best: "steer_best runnable el n (unat b)" using IH by simp
    then have "unat b < n" by (simp add: steer_best_def)
    then have "\<not> 32 \<le> unat b" "\<not> n < unat b" using Suc.prems by simp_all
    then show ?thesis
      using True ss n steer_best_extend [OF best] steer_best_replace [OF best]
      by (auto simp: less_Suc_eq)
  next
    case False
    then have "b = of_nat MLFQ_MAX_LLCS" using IH by simp
    then show ?thesis
      using False ss n max by (auto simp: less_Suc_eq steer_best_def)
  qed
  then show ?case by (simp only: Let_def step el_def)
qed

text \<open>
  C34. A steering pass picks the eligible domain with the fewest runnable tasks, the lowest id among
  equals, and the sentinel exactly when no populated domain other than the waker's own has an
  idle CPU and is unvisited.
\<close>

theorem steer_pick_least:
  "let b = mlfq_steer_pick_llc runnable idle nr w v; el = steer_eligible idle nr w v
   in if \<exists>l<32. el l
      then unat b < 32 \<and> el (unat b)
         \<and> list_all (\<lambda>l. if el l then runnable (unat b) < runnable l
              \<or> runnable (unat b) = runnable l \<and> unat b \<le> l else True) [0..<32]
      else b = of_nat MLFQ_MAX_LLCS"
proof -
  define b where "b = mlfq_steer_pick_llc runnable idle nr w v"
  define el where "el = steer_eligible idle nr w v"
  have F: "if \<exists>l<32. el l then steer_best runnable el 32 (unat b) else b = of_nat MLFQ_MAX_LLCS"
    using steer_fold [OF order_refl, of runnable idle nr w v]
    by (simp only: b_def el_def mlfq_steer_pick_llc_def Let_def MLFQ_MAX_LLCS_def)
  show ?thesis
  proof (cases "\<exists>l<32. el l")
    case True
    with F have "steer_best runnable el 32 (unat b)" by simp
    with True show ?thesis
      by (auto simp: steer_best_def list_all_iff simp flip: b_def el_def)
  next
    case False
    with F show ?thesis by (auto simp: Let_def simp flip: b_def el_def)
  qed
qed

end
