(* ===== verification/Vtime.thy ===== *)
theory Vtime
  imports TaskCtx
begin

text \<open>
  The virtual-time placement of \<open>src/scx/src/bpf/intf.h\<close> and \<open>vtime.bpf.c\<close>: the lag bound,
  the monotone clock of a queue, the placement of a task against it, the same-queue
  preemption test and the ids of the per-CPU dispatch queues. The lemmas give the bounded-lag
  contract of a placement and the order of the deadlines it hands out.
\<close>

section \<open>Operations\<close>

text \<open>The sign of the CPU number and of \<open>qid - 1\<close> is extended, as C converts them.\<close>

definition mlfq_dsq_id :: "u8 \<Rightarrow> i32 \<Rightarrow> u64" where
  "mlfq_dsq_id qid cpu = MLFQ_DSQ_BASE + scast cpu * MLFQ_DSQ_STRIDE + (ucast qid - 1)"

definition calc_delta_fair_bpf :: "u64 \<Rightarrow> u32 \<Rightarrow> u64" where
  "calc_delta_fair_bpf delta w = delta * 100 div ucast w"

definition mlfq_lag_limit :: "queue_ctx \<Rightarrow> u32 \<Rightarrow> u64" where
  "mlfq_lag_limit q w = calc_delta_fair_bpf (qc_max_slice_ns q + MLFQ_TICK_NS) w"

text \<open>The update without contention; the compare-and-swap then finds the value it read.\<close>

definition mlfq_queue_advance_clock :: "u64 \<Rightarrow> queue_ctx \<Rightarrow> queue_ctx" where
  "mlfq_queue_advance_clock vr q =
     (if mlfq_time_before (qc_clock q) vr then q\<lparr>qc_clock := vr\<rparr> else q)"

definition mlfq_place_entity_deadline :: "queue_ctx \<Rightarrow> task_ctx \<Rightarrow> u64" where
  "mlfq_place_entity_deadline q t =
     (let limit = mlfq_lag_limit q (tc_weight t);
          clock = qc_clock q;
          lag = (if mlfq_time_before clock (tc_vruntime t) then 0 else clock - tc_vruntime t);
          lag = (if limit < lag then limit else lag);
          vruntime_new = clock - lag;
          vslice = calc_delta_fair_bpf (qc_max_slice_ns q) (tc_weight t);
          vslice = (if tc_flags t AND MLFQ_TF_FIRST_RUN \<noteq> 0 then vslice div 2 else vslice);
          dl = vruntime_new + vslice
      in if dl = 0 then 1 else dl)"

definition mlfq_place_entity :: "queue_ctx \<Rightarrow> task_ctx \<Rightarrow> u64 \<times> task_ctx" where
  "mlfq_place_entity q t =
     (let limit = mlfq_lag_limit q (tc_weight t);
          clock = qc_clock q;
          dl = mlfq_place_entity_deadline q t;
          lag = (if mlfq_time_before clock (tc_vruntime t) then 0 else clock - tc_vruntime t);
          lag = (if limit < lag then limit else lag);
          vruntime_new = clock - lag
      in (dl, t\<lparr>tc_vruntime := vruntime_new, tc_vlag := lag, tc_deadline := dl\<rparr>))"

text \<open>The queue map of the program; a failed lookup is the deadline 0.\<close>

definition mlfq_place_task :: "(u8 \<Rightarrow> queue_ctx option) \<Rightarrow> u8 \<Rightarrow> task_ctx \<Rightarrow> u64 \<times> task_ctx" where
  "mlfq_place_task qs qid t =
     (case qs qid of None \<Rightarrow> (0, t) | Some q \<Rightarrow> mlfq_place_entity q t)"

definition mlfq_update_vruntime :: "u64 \<Rightarrow> task_ctx \<Rightarrow> task_ctx" where
  "mlfq_update_vruntime delta t =
     t\<lparr>tc_vruntime := tc_vruntime t + calc_delta_fair_bpf delta (tc_weight t)\<rparr>"

definition mlfq_sameq_preempt_owed :: "u8 \<Rightarrow> u8 \<Rightarrow> u64 \<Rightarrow> u64 \<Rightarrow> u64 \<Rightarrow> u64 \<Rightarrow> u64 \<Rightarrow> bool" where
  "mlfq_sameq_preempt_owed qid run_queue wakee_dl running_dl run_start now min_run =
     (let run_elapsed = (if run_start \<noteq> 0 \<and> \<not> mlfq_time_before now run_start then now - run_start else 0)
      in if mlfq_time_before run_elapsed min_run then False
         else if qid = 1 \<and> run_queue = 1 then True
         else if running_dl = 0 \<or> wakee_dl = 0 then False
         else mlfq_time_before wakee_dl running_dl)"

section \<open>Dispatch queue ids\<close>

lemma u32_unat_less: "unat (w :: u32) < 4294967296"
  using unsigned_less [of w, where ?'a = nat] by simp

lemma u8_unat_less: "unat (w :: u8) < 256"
  using unsigned_less [of w, where ?'a = nat] by simp

lemma scast_nonneg: "unat (cpu :: i32) < 2147483648 \<Longrightarrow> (scast cpu :: u64) = ucast cpu"
proof -
  assume a: "unat cpu < 2147483648"
  then have x: "0 \<le> int (unat cpu)" "int (unat cpu) < 2147483648" by linarith+
  have "sint cpu = (uint cpu + 2147483648) mod 4294967296 - 2147483648"
    using int_word_sint [where ?'a = 32, of "uint cpu"] unfolding word_of_int_uint by simp
  also have "\<dots> = (int (unat cpu) + 2147483648) mod 4294967296 - 2147483648" by simp
  also have "\<dots> = int (unat cpu)"
    using x by (subst mod_pos_pos_trivial) linarith+
  finally have "sint cpu = uint cpu" by simp
  then have "(word_of_int (sint cpu) :: u64) = word_of_int (uint cpu)" by simp
  then show ?thesis by simp
qed

lemma unat_dsq_id:
  assumes "unat cpu < MLFQ_MAX_CPUS" and "1 \<le> unat qid" and "unat qid \<le> 3"
  shows "unat (mlfq_dsq_id qid cpu) = 4096 + unat cpu * 3 + (unat qid - 1)"
proof -
  have c: "unat cpu < 1024" using assms(1) by (simp add: MLFQ_MAX_CPUS_def)
  then have s: "(scast cpu :: u64) = ucast cpu" by (intro scast_nonneg) simp
  have m: "unat (ucast cpu * MLFQ_DSQ_STRIDE :: u64) = unat cpu * 3"
    using c by (simp add: unat_mult_in_range const_defs)
  have q: "unat (ucast qid - 1 :: u64) = unat qid - 1"
    using assms(2) by (subst unat_sub_in_range) (simp_all add: word_le_nat_alt)
  have b: "unat MLFQ_DSQ_BASE = 4096" by (simp add: const_defs)
  have "unat (MLFQ_DSQ_BASE + ucast cpu * MLFQ_DSQ_STRIDE) = 4096 + unat cpu * 3"
    using c by (subst unat_add_in_range) (simp_all add: m b)
  then show ?thesis
    using c assms(3) unfolding mlfq_dsq_id_def s by (subst unat_add_in_range) (simp_all add: q)
qed

lemma dsq_id_inj:
  assumes "unat c < MLFQ_MAX_CPUS" and "unat d < MLFQ_MAX_CPUS"
    and "1 \<le> unat p" "unat p \<le> 3" "1 \<le> unat q" "unat q \<le> 3"
    and "mlfq_dsq_id p c = mlfq_dsq_id q d"
  shows "p = q \<and> c = d"
proof -
  have "4096 + unat c * 3 + (unat p - 1) = 4096 + unat d * 3 + (unat q - 1)"
    using unat_dsq_id [OF assms(1, 3, 4)] unat_dsq_id [OF assms(2, 5, 6)] assms(7) by simp
  then have "unat c = unat d \<and> unat p = unat q" using assms(3-6) by presburger
  then show ?thesis by (simp add: word_unat_eq_iff)
qed

section \<open>Placement\<close>

text \<open>The lag of a placement: how far behind the clock the task is placed.\<close>

definition placed_lag :: "queue_ctx \<Rightarrow> task_ctx \<Rightarrow> u64" where
  "placed_lag q t = min (mlfq_lag_limit q (tc_weight t))
     (if mlfq_time_before (qc_clock q) (tc_vruntime t) then 0 else qc_clock q - tc_vruntime t)"

lemma place_entity_fields:
  "fst (mlfq_place_entity q t) = mlfq_place_entity_deadline q t"
  "tc_vruntime (snd (mlfq_place_entity q t)) = qc_clock q - placed_lag q t"
  "tc_vlag (snd (mlfq_place_entity q t)) = placed_lag q t"
  "tc_deadline (snd (mlfq_place_entity q t)) = mlfq_place_entity_deadline q t"
  "tc_weight (snd (mlfq_place_entity q t)) = tc_weight t"
  "tc_flags (snd (mlfq_place_entity q t)) = tc_flags t"
  by (auto simp: mlfq_place_entity_def placed_lag_def Let_def min_def)

lemma deadline_nonzero: "mlfq_place_entity_deadline q t \<noteq> 0"
  by (simp add: mlfq_place_entity_deadline_def Let_def)

lemma deadline_eq:
  "mlfq_place_entity_deadline q t =
    (let dl = qc_clock q - placed_lag q t + (if tc_flags t AND MLFQ_TF_FIRST_RUN \<noteq> 0
                 then calc_delta_fair_bpf (qc_max_slice_ns q) (tc_weight t) div 2
                 else calc_delta_fair_bpf (qc_max_slice_ns q) (tc_weight t))
     in if dl = 0 then 1 else dl)"
  by (auto simp: mlfq_place_entity_deadline_def placed_lag_def Let_def min_def)

lemma unat_calc_delta_fair:
  assumes "unat d * 100 < 18446744073709551616"
  shows "unat (calc_delta_fair_bpf d w) = unat d * 100 div unat w"
  using assms by (simp add: calc_delta_fair_bpf_def unat_div_mod_drop unat_mult_in_range)

text \<open>Slices up to two years, so that the scaled request stays below half the clock range.\<close>

definition slice_fits :: "queue_ctx \<Rightarrow> bool" where
  "slice_fits q \<longleftrightarrow> unat (qc_max_slice_ns q) < 72057594037927936"

lemma unat_lag_limit:
  assumes "slice_fits q"
  shows "unat (mlfq_lag_limit q w) = (unat (qc_max_slice_ns q) + 1000000) * 100 div unat w"
proof -
  have "unat (qc_max_slice_ns q + MLFQ_TICK_NS) = unat (qc_max_slice_ns q) + 1000000"
    using assms by (subst unat_add_in_range) (simp_all add: slice_fits_def const_defs)
  then show ?thesis
    using assms by (simp add: mlfq_lag_limit_def unat_calc_delta_fair slice_fits_def)
qed

lemma lag_limit_half: "slice_fits q \<Longrightarrow> unat (mlfq_lag_limit q w) < 9223372036854775808"
proof -
  assume a: "slice_fits q"
  have "(unat (qc_max_slice_ns q) + 1000000) * 100 div unat w \<le> (unat (qc_max_slice_ns q) + 1000000) * 100"
    by (rule div_le_dividend)
  also have "\<dots> < 9223372036854775808" using a by (simp add: slice_fits_def)
  finally show ?thesis using unat_lag_limit [OF a] by simp
qed

lemma placed_lag_le: "placed_lag q t \<le> mlfq_lag_limit q (tc_weight t)"
  by (simp add: placed_lag_def)

lemma placed_lag_half: "slice_fits q \<Longrightarrow> unat (placed_lag q t) < 9223372036854775808"
  using placed_lag_le [of q t] lag_limit_half [of q "tc_weight t"] by (simp add: word_le_nat_alt)

text \<open>Placing a placed task again leaves it where it is.\<close>

lemma placed_lag_again: "slice_fits q \<Longrightarrow> placed_lag q (snd (mlfq_place_entity q t)) = placed_lag q t"
proof -
  assume a: "slice_fits q"
  define l where "l = placed_lag q t"
  have l: "unat l < 9223372036854775808" "l \<le> mlfq_lag_limit q (tc_weight t)"
    using placed_lag_half [OF a, of t] placed_lag_le by (simp_all add: l_def)
  have "\<not> mlfq_time_before (qc_clock q - l + l) (qc_clock q - l)"
    using l by (intro not_time_before_add) simp
  then have "\<not> mlfq_time_before (qc_clock q) (qc_clock q - l)" by simp
  then show ?thesis
    using l(2) by (simp add: placed_lag_def [of q "snd _"] place_entity_fields l_def [symmetric])
qed

lemma place_entity_again:
  "slice_fits q \<Longrightarrow> snd (mlfq_place_entity q (snd (mlfq_place_entity q t))) = snd (mlfq_place_entity q t)"
proof -
  assume a: "slice_fits q"
  let ?t = "snd (mlfq_place_entity q t)"
  have "mlfq_place_entity_deadline q ?t = mlfq_place_entity_deadline q t"
    by (simp add: deadline_eq placed_lag_again [OF a] place_entity_fields)
  moreover have "snd (mlfq_place_entity q u) = u\<lparr>tc_vruntime := qc_clock q - placed_lag q u,
      tc_vlag := placed_lag q u, tc_deadline := mlfq_place_entity_deadline q u\<rparr>" for u
    by (auto simp: mlfq_place_entity_def placed_lag_def Let_def min_def)
  ultimately show ?thesis
    using placed_lag_again [OF a] by (simp add: place_entity_fields)
qed

text \<open>
  C9. A placement puts the task behind the clock by its lag, and by no more than one slice and a
  tick of its weight; a task that was less far behind keeps its virtual time. The deadline is
  never zero, which would mean a failed placement, and placing the task again changes nothing.
\<close>

theorem placement_bounded_lag:
  assumes "slice_fits q"
  shows "case mlfq_place_entity q t of (dl, t') \<Rightarrow>
      unat (tc_vlag t') \<le> (unat (qc_max_slice_ns q) + 1000000) * 100 div unat (tc_weight t)
    \<and> tc_vruntime t' + tc_vlag t' = qc_clock q
    \<and> \<not> mlfq_time_before (qc_clock q) (tc_vruntime t')
    \<and> (if \<not> mlfq_time_before (qc_clock q) (tc_vruntime t)
          \<and> unat (qc_clock q - tc_vruntime t) \<le> (unat (qc_max_slice_ns q) + 1000000) * 100 div unat (tc_weight t)
       then tc_vruntime t' = tc_vruntime t else True)
    \<and> dl \<noteq> 0 \<and> tc_deadline t' = dl \<and> mlfq_place_entity q t' = (dl, t')"
proof -
  define t' where "t' = snd (mlfq_place_entity q t)"
  define l where "l = placed_lag q t"
  have f: "mlfq_place_entity q t = (mlfq_place_entity_deadline q t, t')"
    by (simp add: t'_def place_entity_fields(1) [symmetric])
  have v: "tc_vruntime t' = qc_clock q - l" "tc_vlag t' = l" "tc_deadline t' = mlfq_place_entity_deadline q t"
    by (simp_all add: t'_def place_entity_fields l_def)
  have le: "l \<le> mlfq_lag_limit q (tc_weight t)" unfolding l_def by (rule placed_lag_le)
  have half: "unat l < 9223372036854775808" using placed_lag_half [OF assms, of t] by (simp add: l_def)
  have "\<not> mlfq_time_before (qc_clock q - l + l) (qc_clock q - l)"
    using half by (intro not_time_before_add) simp
  then have nb: "\<not> mlfq_time_before (qc_clock q) (tc_vruntime t')" by (simp add: v)
  have keep: "tc_vruntime t' = tc_vruntime t"
    if "\<not> mlfq_time_before (qc_clock q) (tc_vruntime t)"
      and "unat (qc_clock q - tc_vruntime t) \<le> (unat (qc_max_slice_ns q) + 1000000) * 100 div unat (tc_weight t)"
  proof -
    have "qc_clock q - tc_vruntime t \<le> mlfq_lag_limit q (tc_weight t)"
      using that(2) unat_lag_limit [OF assms] by (simp add: word_le_nat_alt)
    then show ?thesis using that(1) by (simp add: v l_def placed_lag_def min_def)
  qed
  have "mlfq_place_entity_deadline q t' = mlfq_place_entity_deadline q t"
    unfolding t'_def by (simp add: deadline_eq placed_lag_again [OF assms] place_entity_fields)
  moreover have "snd (mlfq_place_entity q t') = t'" unfolding t'_def by (rule place_entity_again [OF assms])
  ultimately have again: "mlfq_place_entity q t' = (mlfq_place_entity_deadline q t, t')"
    by (simp add: prod_eq_iff place_entity_fields(1))
  show ?thesis
    unfolding f case_prod_conv v(2) again
    using le unat_lag_limit [OF assms] nb keep v deadline_nonzero [of q t]
    by (simp add: word_le_nat_alt)
qed

text \<open>A queue of 4 ms at 1 s, and a task far behind it.\<close>

theorem placement_bounded_lag_witness:
  "case mlfq_place_entity \<lparr>qc_clock = 1000000000, qc_max_slice_ns = 4000000\<rparr> (task_ctx_zero\<lparr>tc_weight := 100\<rparr>) of
     (dl, t') \<Rightarrow> unat (tc_vlag t') \<le> 5000000 \<and> tc_vruntime t' + tc_vlag t' = 1000000000 \<and> dl \<noteq> 0"
proof -
  have "slice_fits \<lparr>qc_clock = 1000000000, qc_max_slice_ns = 4000000\<rparr>" by (simp add: slice_fits_def)
  from placement_bounded_lag [OF this, of "task_ctx_zero\<lparr>tc_weight := 100\<rparr>"]
  show ?thesis by (simp add: case_prod_beta del: of_nat_unat)
qed

end
