(* ===== verification/SchedState.thy ===== *)
theory SchedState
  imports Runnable Vtime TopoPlan
begin

text \<open>
  The state of the BPF program (the maps and the BSS section of \<open>src/scx/src/bpf/main.bpf.c\<close>),
  what a callback gets from the kernel, the calls it makes into it, and the helpers the
  callbacks share: occupancy, realtime avoidance (\<open>rtdl.bpf.c\<close>), op latency, sleep cadence
  (\<open>lifecycle.bpf.c\<close>), GPU submissions, stamps and slices. A callback is a function on the
  state; an atomic read-modify-write is one update, and a compare-and-swap gets its outcome
  from the callback's input. Calls into the kernel are recorded in \<open>sd_calls\<close>.
\<close>

section \<open>Kernel interface\<close>

text \<open>
  Enqueue flags are a list of flag bits: no bits is \<open>enq_flags == 0\<close>. The values of the flags
  and of the built-in dispatch queues belong to the kernel.
\<close>

datatype enq_flag = SCX_ENQ_WAKEUP | SCX_ENQ_REENQ | SCX_ENQ_PREEMPT | SCX_ENQ_IMMED | SCX_ENQ_OTHER nat

datatype dsq = SCX_DSQ_GLOBAL | SCX_DSQ_LOCAL | SCX_DSQ_LOCAL_ON i32 | Queue_dsq u64

datatype sched_error =
    No_task_ctx u32 | Bad_weight u32 u32 | Pinned_without_cpu u32
  | Queue_lookup_failed u32 u8 | Placement_failed u32
  | Too_many_cpus u32 | No_possible_cpus | Dsq_create_failed u64 i32 | No_Q3_share u32 u32 u32
  | T_INT_above_T_BOUND u64 u64 | Dsq_space_overflow | Queue_map_failed u8

datatype call =
    Dsq_insert u32 dsq u64 "enq_flag list"
  | Dsq_insert_vtime u32 u64 u64 u64 "enq_flag list"
  | Kick_idle i32
  | Cpuperf_set i32 u32
  | Scx_error sched_error
  | Set_slice u32 u64
  | Reenqueue_local i32
  | Dsq_reenq u64

text \<open>
  What a callback is given: the CPU it runs on, the readings of the clock at its entry, for a
  reset, for its work and at its end, whether the allocation of a task storage and the
  reservation in the ring buffer succeed, whether it claims the idle mark of the previous CPU,
  whether the CPU was selected by \<open>select_cpu\<close>, and whether it wins the two races on stamps.
\<close>

record callback =
  cb_cpu :: i32
  cb_start :: u64
  cb_reset :: u64
  cb_now :: u64
  cb_end :: u64
  cb_alloc :: bool
  cb_reserve :: bool
  cb_claims_idle :: bool
  cb_cpu_selected :: bool
  cb_wins_step :: bool
  cb_wins_sample :: bool

section \<open>State\<close>

record sched =
  sd_nr_cpu_ids :: nat
  sd_steal_scan :: u32
  sd_idle_count :: u32
  sd_run :: run_gauges
  sd_llc_idle :: "nat \<Rightarrow> u32"
  sd_stats :: mlfq_stats
  sd_adapt :: adapt_sys
  sd_kernel :: kernel
  sd_sample_last_at :: u64
  sd_samples :: "tree_sample list"
  sd_tasks :: tasks
  sd_queues :: "u8 \<Rightarrow> queue_ctx option"
  sd_cpus :: "nat \<Rightarrow> cpu_state"
  sd_q1_occ :: "nat \<Rightarrow> bool"
  sd_rtdl :: "nat \<Rightarrow> rtdl_state"
  sd_op_lat :: "nat \<Rightarrow> nat \<Rightarrow> nat \<Rightarrow> u64"
  sd_primary_bitmap :: "u64 list option"
  sd_llc_bitmaps :: "u32 \<Rightarrow> u64 list option"
  sd_llc_cpus :: "u32 \<Rightarrow> llc_cpu_list option"
  sd_gpu_submit_total :: u64
  sd_gpu_trace_mask :: u32
  sd_calls :: "call list"

definition add_call :: "call \<Rightarrow> sched \<Rightarrow> sched" where
  "add_call c s = s\<lparr>sd_calls := sd_calls s @ [c]\<rparr>"

definition upd_stats :: "(mlfq_stats \<Rightarrow> mlfq_stats) \<Rightarrow> sched \<Rightarrow> sched" where
  "upd_stats f s = s\<lparr>sd_stats := f (sd_stats s)\<rparr>"

definition set_task :: "task_struct \<Rightarrow> task_ctx \<Rightarrow> sched \<Rightarrow> sched" where
  "set_task p t s = s\<lparr>sd_tasks := (sd_tasks s)(ts_pid p \<mapsto> t)\<rparr>"

text \<open>The index of a CPU in a per-CPU array map, when the lookup of its key succeeds.\<close>

definition cpu_key :: "i32 \<Rightarrow> nat option" where
  "cpu_key cpu = (if cpu <s 0 then None else if unat cpu < MLFQ_MAX_CPUS then Some (unat cpu) else None)"

text \<open>The two accounting helpers on the working copy of a task.\<close>

definition runnable_enter :: "u8 \<Rightarrow> u32 \<Rightarrow> task_ctx \<times> sched \<Rightarrow> task_ctx \<times> sched" where
  "runnable_enter qid llc = (\<lambda>(t, s). case mlfq_runnable_enter qid llc (t, sd_run s) of
     (t, g) \<Rightarrow> (t, s\<lparr>sd_run := g\<rparr>))"

definition runnable_exit :: "task_ctx \<times> sched \<Rightarrow> task_ctx \<times> sched" where
  "runnable_exit = (\<lambda>(t, s). case mlfq_runnable_exit (t, sd_run s) of (t, g) \<Rightarrow> (t, s\<lparr>sd_run := g\<rparr>))"

section \<open>Shared helpers\<close>

definition mlfq_op_lat_bucket :: "u64 \<Rightarrow> u32" where
  "mlfq_op_lat_bucket delta_us =
     (if delta_us < MLFQ_OP_LAT_EDGE_2 then 0
      else if delta_us < MLFQ_OP_LAT_EDGE_5 then 1
      else if delta_us < MLFQ_OP_LAT_EDGE_10 then 2
      else if delta_us < MLFQ_OP_LAT_EDGE_20 then 3
      else if delta_us < MLFQ_OP_LAT_EDGE_50 then 4
      else if delta_us < MLFQ_OP_LAT_EDGE_100 then 5
      else if delta_us < MLFQ_OP_LAT_EDGE_250 then 6
      else 7)"

text \<open>The histogram slot is one of the four operations, in the per-CPU copy of the CPU.\<close>

definition mlfq_op_lat_charge :: "callback \<Rightarrow> nat \<Rightarrow> sched \<Rightarrow> sched" where
  "mlfq_op_lat_charge cb op s =
     (if mlfq_time_before (cb_end cb) (cb_start cb) \<or> MLFQ_OP_LAT_OPS \<le> op then s
      else let b = unat (mlfq_op_lat_bucket ((cb_end cb - cb_start cb) div NSEC_PER_USEC));
               c = unat (cb_cpu cb); h = sd_op_lat s
           in s\<lparr>sd_op_lat := h(c := (h c)(op := (h c op)(b := h c op b + 1)))\<rparr>)"

definition mlfq_q1_is_occupied :: "sched \<Rightarrow> u32 \<Rightarrow> bool" where
  "mlfq_q1_is_occupied s cpu \<longleftrightarrow> (if MLFQ_MAX_CPUS \<le> unat cpu then False else sd_q1_occ s (unat cpu))"

definition mlfq_q1_set :: "u32 \<Rightarrow> bool \<Rightarrow> sched \<Rightarrow> sched" where
  "mlfq_q1_set cpu occupied s =
     (if MLFQ_MAX_CPUS \<le> unat cpu then s else s\<lparr>sd_q1_occ := (sd_q1_occ s)(unat cpu := occupied)\<rparr>)"

definition mlfq_cpu_occupied :: "sched \<Rightarrow> i32 \<Rightarrow> bool" where
  "mlfq_cpu_occupied s cpu = (case cpu_key cpu of None \<Rightarrow> False
     | Some c \<Rightarrow> rt_flags (sd_rtdl s c) AND MLFQ_RTDL_OCCUPIED \<noteq> 0)"

definition ENOENT :: i32 where
  "ENOENT = 2"

definition usable_cpu :: "sched \<Rightarrow> task_struct \<Rightarrow> u32 \<Rightarrow> bool" where
  "usable_cpu s p cand \<longleftrightarrow> ts_cpus p cand \<and> \<not> mlfq_cpu_occupied s cand"

text \<open>The word-major walk of a bitmap.\<close>

definition bitmap_order :: "nat list" where
  "bitmap_order = concat (map (\<lambda>w. map (\<lambda>b. w * 64 + b) [0..<64]) [0..<MLFQ_BITMAP_WORDS])"

definition mlfq_pick_unoccupied_in_bitmap :: "sched \<Rightarrow> u64 list \<Rightarrow> task_struct \<Rightarrow> i32" where
  "mlfq_pick_unoccupied_in_bitmap s bm p =
     (case find (\<lambda>cand. cand < MLFQ_MAX_CPUS \<and> mlfq_bitmap_test_cpu bm (of_nat cand)
                   \<and> usable_cpu s p (of_nat cand)) bitmap_order of
        None \<Rightarrow> - ENOENT | Some cand \<Rightarrow> of_nat cand)"

definition mlfq_pick_unoccupied_cpu :: "rodata \<Rightarrow> sched \<Rightarrow> task_struct \<Rightarrow> i32 \<Rightarrow> i32" where
  "mlfq_pick_unoccupied_cpu r s p origin =
     (let near = (if 0 \<le>s origin \<and> unat origin < MLFQ_MAX_CPUS \<and> 0 < mlfq_nr_llcs r
          then let llc = mlfq_cpu_llc r ! unat origin
               in if unat llc < MLFQ_MAX_LLCS \<and> llc < mlfq_nr_llcs r
                  then case sd_llc_bitmaps s llc of None \<Rightarrow> - ENOENT
                       | Some bm \<Rightarrow> mlfq_pick_unoccupied_in_bitmap s bm p
                  else - ENOENT
          else - ENOENT)
      in if 0 \<le>s near then near
         else case find (\<lambda>cand. usable_cpu s p (of_nat cand)) [0..<min MLFQ_MAX_CPUS (sd_nr_cpu_ids s)] of
                None \<Rightarrow> - ENOENT | Some cand \<Rightarrow> of_nat cand)"

definition mlfq_task_is_migration_disabled :: "task_struct \<Rightarrow> bool" where
  "mlfq_task_is_migration_disabled p \<longleftrightarrow> ts_nr_cpus_allowed p = 1 \<or> ts_migration_disabled p"

definition mlfq_queue_slice :: "rodata \<Rightarrow> u8 \<Rightarrow> u64" where
  "mlfq_queue_slice r qid =
     (if qid = 1 then mlfq_q1_slice_ns r else if qid = 2 then mlfq_q2_slice_ns r else mlfq_q3_slice_ns r)"

definition mlfq_stat_placement :: "u8 \<Rightarrow> mlfq_stats \<Rightarrow> mlfq_stats" where
  "mlfq_stat_placement qid st =
     (if qid = 1 then st\<lparr>st_q1_placements := st_q1_placements st + 1\<rparr>
      else if qid = 2 then st\<lparr>st_q2_placements := st_q2_placements st + 1\<rparr>
      else st\<lparr>st_q3_placements := st_q3_placements st + 1\<rparr>)"

definition mlfq_stamp_enq_at :: "u64 \<Rightarrow> bool \<Rightarrow> task_ctx \<Rightarrow> task_ctx" where
  "mlfq_stamp_enq_at now wakeup t = t\<lparr>tc_enq_at := now,
     tc_flags := (if wakeup then tc_flags t OR MLFQ_TF_ENQ_WAKEUP else tc_flags t AND NOT MLFQ_TF_ENQ_WAKEUP)\<rparr>"

definition mlfq_idle_kick :: "callback \<Rightarrow> i32 \<Rightarrow> sched \<Rightarrow> sched" where
  "mlfq_idle_kick cb cpu s = (if cpu \<noteq> cb_cpu cb then add_call (Kick_idle cpu) s else s)"

text \<open>The adaptation entry of \<open>stopping\<close> and \<open>dispatch\<close>.\<close>

definition maybe_adapt :: "rodata \<Rightarrow> callback \<Rightarrow> sched \<Rightarrow> sched" where
  "maybe_adapt r cb s =
     s\<lparr>sd_adapt := mlfq_maybe_adapt_step r (sd_nr_cpu_ids s) (cb_wins_step cb) (cb_start cb) (sd_adapt s)\<rparr>"

section \<open>Sleep cadence\<close>

definition mlfq_sleep_ema_update :: "u64 \<Rightarrow> task_ctx \<Rightarrow> task_ctx" where
  "mlfq_sleep_ema_update slept0 t =
     (let slept = (if 64 * NSEC_PER_MSEC < slept0 then 64 * NSEC_PER_MSEC else slept0);
          t = (if MLFQ_LONG_SLEEP_NS < slept
               then let mean = mlfq_ema_decay (tc_sleep_mean_ema t) slept MLFQ_EMA_HALF_LIFE_NS;
                        var = mlfq_ema_decay (tc_sleep_var_ema t) slept MLFQ_EMA_HALF_LIFE_NS
                    in t\<lparr>tc_sleep_mean_ema := mean, tc_sleep_var_ema := (if mean = 0 then 0 else var),
                         tc_gpu_submit := (if tc_gpu_submit t \<noteq> 0 then tc_gpu_submit t - 1 else tc_gpu_submit t)\<rparr>
               else let old_mean = tc_sleep_mean_ema t;
                        new_mean = (old_mean * 248 + slept * 8) div 256;
                        sdiff = slept - old_mean;
                        diff = (if sdiff <s 0 then - sdiff else sdiff);
                        diff2 = diff * diff;
                        var = tc_sleep_var_ema t
                    in t\<lparr>tc_sleep_mean_ema := new_mean, tc_sleep_var_ema := (var * 248 + diff2 * 8) div 256\<rparr>);
          mean2 = tc_sleep_mean_ema t * tc_sleep_mean_ema t;
          ratio = tc_sleep_var_ema t * FP_ONE div mean2;
          ratio = (if 1024 < ratio then 1024 else ratio)
      in t\<lparr>tc_sleep_var_ratio := (if 0 < tc_sleep_mean_ema t \<and> mean2 \<noteq> 0 then ucast ratio else 0)\<rparr>)"

section \<open>GPU submissions\<close>

definition mlfq_gpu_submit_inc :: "callback \<Rightarrow> task_struct \<Rightarrow> u32 \<Rightarrow> sched \<Rightarrow> sched" where
  "mlfq_gpu_submit_inc cb p trace_bit s =
     (case sd_tasks s (ts_pid p) of None \<Rightarrow> s
      | Some t \<Rightarrow>
        let s = s\<lparr>sd_gpu_trace_mask := sd_gpu_trace_mask s OR trace_bit\<rparr>; now = cb_now cb
        in if tc_last_gpu_submit_at t \<noteq> 0
              \<and> \<not> mlfq_time_before (tc_last_gpu_submit_at t + MLFQ_TREE_PER_TASK_LIMIT_NS) now
           then s
           else set_task p (t\<lparr>tc_last_gpu_submit_at := now,
                  tc_gpu_submit := (if tc_gpu_submit t < 4 then tc_gpu_submit t + 1 else 4),
                  tc_flags := tc_flags t OR MLFQ_TF_DRM_WAKE\<rparr>)
                (s\<lparr>sd_gpu_submit_total := sd_gpu_submit_total s + 1\<rparr>))"

text \<open>The tracepoints of the GPU drivers; the current task is an argument, and there may be none.\<close>

definition mlfq_amdgpu_cs :: "callback \<Rightarrow> task_struct option \<Rightarrow> sched \<Rightarrow> sched" where
  "mlfq_amdgpu_cs cb cur s =
     (case cur of None \<Rightarrow> s | Some p \<Rightarrow> mlfq_gpu_submit_inc cb p MLFQ_GPU_TRACE_AMDGPU_CS s)"

definition mlfq_amdgpu_cs_ioctl :: "callback \<Rightarrow> task_struct option \<Rightarrow> sched \<Rightarrow> sched" where
  "mlfq_amdgpu_cs_ioctl cb cur s =
     (case cur of None \<Rightarrow> s | Some p \<Rightarrow> mlfq_gpu_submit_inc cb p MLFQ_GPU_TRACE_AMDGPU_CS_IOCTL s)"

definition mlfq_gpu_sched_queue :: "callback \<Rightarrow> task_struct option \<Rightarrow> sched \<Rightarrow> sched" where
  "mlfq_gpu_sched_queue cb cur s =
     (case cur of None \<Rightarrow> s | Some p \<Rightarrow> mlfq_gpu_submit_inc cb p MLFQ_GPU_TRACE_GPU_SCHED s)"

lemmas tracepoint_defs = mlfq_amdgpu_cs_def mlfq_amdgpu_cs_ioctl_def mlfq_gpu_sched_queue_def

end
