(* ===== verification/Enqueue.thy ===== *)
theory Enqueue
  imports SchedState
begin

text \<open>
  The enqueue callback of \<open>src/scx/src/bpf/enqueue.bpf.c\<close>: classification by flag, the
  bookkeeping of a stay and aging, the three pinned paths, the idle-CPU fast path, the target
  CPU with the realtime redirect, wakeup preemption and the regular placement. The working
  copy of the task is the storage it points to, so it is written back on every way out.
\<close>

section \<open>Classification and stay\<close>

text \<open>The storage of the task, allocated and reset on demand.\<close>

definition enq_task :: "callback \<Rightarrow> task_struct \<Rightarrow> sched \<Rightarrow> task_ctx option" where
  "enq_task cb p s = (case sd_tasks s (ts_pid p) of
     Some t \<Rightarrow> Some t
   | None \<Rightarrow> if cb_alloc cb then Some (mlfq_reset_task_ctx p (cb_reset cb) task_ctx_zero) else None)"

definition wakeup_count :: "callback \<Rightarrow> sched \<Rightarrow> sched" where
  "wakeup_count cb s =
     (let c = unat (cb_cpu cb); a = sd_adapt s; wc = ad_wakeups a
      in s\<lparr>sd_adapt := a\<lparr>ad_wakeups := wc(c := (wc c)\<lparr>
           wk_total := wk_total (wc c) + 1, wk_window := wk_window (wc c) + 1\<rparr>)\<rparr>\<rparr>)"

definition enq_classify ::
  "rodata \<Rightarrow> callback \<Rightarrow> task_struct \<Rightarrow> enq_flag list \<Rightarrow> task_ctx \<times> sched \<Rightarrow> task_ctx \<times> sched" where
  "enq_classify r cb p flags = (\<lambda>(t, s).
     if SCX_ENQ_WAKEUP \<in> set flags
     then case mlfq_wakeup_classify r (ad_state (sd_adapt s)) (sd_kernel s) p (cb_now cb) (t, sd_stats s) of
            (t, st) \<Rightarrow> (t, wakeup_count cb (s\<lparr>sd_stats := st\<rparr>))
     else if flags = []
     then case mlfq_runout_classify (ad_state (sd_adapt s)) (sd_kernel s) p (t, sd_stats s) of
            (t, st) \<Rightarrow> (t, s\<lparr>sd_stats := st\<rparr>)
     else (t\<lparr>tc_wake_cnt := 0, tc_reenq_cnt := 0\<rparr>,
           if SCX_ENQ_REENQ \<in> set flags
           then upd_stats (\<lambda>st. st\<lparr>st_rt_reenqs := st_rt_reenqs st + 1\<rparr>) s else s))"

text \<open>SCHED_IDLE, the start of a stay, and aging. The old queue is the one before classification.\<close>

definition stay_start :: "u64 \<Rightarrow> u8 \<Rightarrow> bool \<Rightarrow> task_ctx \<Rightarrow> task_ctx" where
  "stay_start now old_queue fresh t =
     (if tc_queue t \<noteq> old_queue
      then t\<lparr>tc_queued_at := (if 2 \<le> tc_queue t then now else 0), tc_reenq_cnt := 0\<rparr>
      else if fresh then t\<lparr>tc_queued_at := (if 2 \<le> tc_queue t then now else 0)\<rparr>
      else t)"

definition ages :: "rodata \<Rightarrow> u64 \<Rightarrow> bool \<Rightarrow> task_ctx \<Rightarrow> bool" where
  "ages r now sched_idle t \<longleftrightarrow> 2 \<le> tc_queue t \<and> \<not> sched_idle \<and> tc_queued_at t \<noteq> 0
     \<and> \<not> mlfq_time_before now (tc_queued_at t + mlfq_aging_period_ns r)"

definition enq_stay ::
  "rodata \<Rightarrow> callback \<Rightarrow> task_struct \<Rightarrow> enq_flag list \<Rightarrow> u8 \<Rightarrow> task_ctx \<times> sched \<Rightarrow> task_ctx \<times> sched" where
  "enq_stay r cb p flags old_queue = (\<lambda>(t, s).
     let (sched_idle, t) = mlfq_apply_sched_idle p t;
         t = stay_start (cb_now cb) old_queue (SCX_ENQ_WAKEUP \<in> set flags \<or> flags = []) t
     in if ages r (cb_now cb) sched_idle t
        then (t\<lparr>tc_queue := 1, tc_reenq_cnt := 0\<rparr>,
              upd_stats (\<lambda>st. st\<lparr>st_aging_boosts := st_aging_boosts st + 1\<rparr>) s)
        else (t, s))"

section \<open>Placement\<close>

text \<open>A placement in the queue of a CPU, with its accounting, stamp, insert and kick.\<close>

definition enq_place ::
  "rodata \<Rightarrow> callback \<Rightarrow> task_struct \<Rightarrow> enq_flag list \<Rightarrow> i32 \<Rightarrow> (mlfq_stats \<Rightarrow> mlfq_stats)
     \<Rightarrow> task_ctx \<times> sched \<Rightarrow> task_ctx \<times> sched" where
  "enq_place r cb p flags cpu counted = (\<lambda>(t, s).
     let qid = tc_queue t; wakeup = (SCX_ENQ_WAKEUP \<in> set flags); slice = mlfq_queue_slice r qid;
         s = (if sd_queues s qid = None then add_call (Scx_error (Queue_lookup_failed (ts_pid p) qid)) s else s);
         (dl, t) = mlfq_place_task (sd_queues s) qid t
     in if dl = 0
        then (t, add_call (Scx_error (Placement_failed (ts_pid p)))
                   (upd_stats (\<lambda>st. st\<lparr>st_enq_no_deadline := st_enq_no_deadline st + 1\<rparr>) s))
        else let (t, s) = runnable_enter qid (mlfq_llc_of_cpu r cpu) (t, upd_stats counted s);
                 t = mlfq_stamp_enq_at (cb_now cb) wakeup t;
                 s = add_call (Dsq_insert_vtime (ts_pid p) (mlfq_dsq_id qid cpu) slice dl flags) s;
                 s = upd_stats (mlfq_stat_placement qid) s
             in (t\<lparr>tc_wake_cpu_state := 0\<rparr>, mlfq_idle_kick cb cpu s))"

text \<open>An insert into a local queue, which defers the placement.\<close>

definition enq_local ::
  "rodata \<Rightarrow> callback \<Rightarrow> task_struct \<Rightarrow> enq_flag list \<Rightarrow> i32 \<Rightarrow> dsq \<Rightarrow> (mlfq_stats \<Rightarrow> mlfq_stats)
     \<Rightarrow> task_ctx \<times> sched \<Rightarrow> task_ctx \<times> sched" where
  "enq_local r cb p flags cpu target counted = (\<lambda>(t, s).
     let qid = tc_queue t;
         (t, s) = runnable_enter qid (mlfq_llc_of_cpu r cpu) (t, upd_stats counted s);
         t = mlfq_stamp_enq_at (cb_now cb) (SCX_ENQ_WAKEUP \<in> set flags) t;
         s = add_call (Dsq_insert (ts_pid p) target (mlfq_queue_slice r qid) flags) s
     in (t\<lparr>tc_wake_cpu_state := 0\<rparr>, upd_stats (mlfq_stat_placement qid) s))"

definition enq_pinned ::
  "rodata \<Rightarrow> callback \<Rightarrow> task_struct \<Rightarrow> enq_flag list \<Rightarrow> task_ctx \<times> sched \<Rightarrow> task_ctx \<times> sched" where
  "enq_pinned r cb p flags = (\<lambda>(t, s).
     let prev_cpu = ts_cpu p
     in if prev_cpu <s 0 then (t, add_call (Scx_error (Pinned_without_cpu (ts_pid p))) s)
        else if \<not> ts_cpus p prev_cpu
        then let s = upd_stats (\<lambda>st. st\<lparr>st_enq_pinned_global := st_enq_pinned_global st + 1\<rparr>) s;
                 (t, s) = runnable_exit (t, s)
             in (t\<lparr>tc_enq_at := 0, tc_flags := tc_flags t AND NOT MLFQ_TF_ENQ_WAKEUP, tc_wake_cpu_state := 0\<rparr>,
                 add_call (Dsq_insert (ts_pid p) SCX_DSQ_GLOBAL (mlfq_queue_slice r (tc_queue t)) flags) s)
        else if cb_claims_idle cb
        then enq_local r cb p flags prev_cpu (SCX_DSQ_LOCAL_ON prev_cpu)
               (\<lambda>st. st\<lparr>st_enq_pinned_idle := st_enq_pinned_idle st + 1\<rparr>) (t, s)
        else enq_place r cb p flags prev_cpu
               (\<lambda>st. st\<lparr>st_enq_pinned_busy := st_enq_pinned_busy st + 1\<rparr>) (t, s))"

section \<open>Target and preemption\<close>

definition enq_fast_path :: "callback \<Rightarrow> task_ctx \<Rightarrow> sched \<Rightarrow> bool" where
  "enq_fast_path cb t s \<longleftrightarrow> cb_cpu_selected cb
     \<and> tc_wake_cpu_state t AND MLFQ_WAKE_CPU_VALID \<noteq> 0 \<and> tc_wake_cpu_state t AND MLFQ_WAKE_CPU_IDLE \<noteq> 0
     \<and> \<not> mlfq_cpu_occupied s (cb_cpu cb)"

text \<open>The target CPU, whether the preemption is skipped, and whether a redirect is counted.\<close>

definition enq_target :: "rodata \<Rightarrow> callback \<Rightarrow> task_struct \<Rightarrow> enq_flag list \<Rightarrow> sched \<Rightarrow> i32 \<times> bool \<times> bool" where
  "enq_target r cb p flags s =
     (let target = (if SCX_ENQ_WAKEUP \<in> set flags then ts_cpu p else cb_cpu cb);
          target = (if ts_cpus p target then target else cb_cpu cb)
      in if (SCX_ENQ_WAKEUP \<in> set flags \<or> SCX_ENQ_REENQ \<in> set flags) \<and> mlfq_cpu_occupied s target
         then let fb = mlfq_pick_unoccupied_cpu r s p (cb_cpu cb)
              in (if 0 \<le>s fb then fb else target, True, 0 \<le>s fb)
         else (target, False, False))"

definition preempt_owed :: "callback \<Rightarrow> task_struct \<Rightarrow> task_ctx \<Rightarrow> sched \<Rightarrow> bool" where
  "preempt_owed cb p t s =
     (case cpu_key (ts_cpu p) of None \<Rightarrow> False
      | Some c \<Rightarrow>
        let prev = sd_cpus s c; qid = tc_queue t
        in if running_pid prev \<noteq> 0 \<and> running_pid prev \<noteq> ts_pid p \<and> 0 <s running_queue prev
              \<and> ts_cpus p (ts_cpu p)
           then if (ucast qid :: i32) <s running_queue prev then True
                else if (ucast qid :: i32) = running_queue prev
                then let wakee = (if 1 < qid then case sd_queues s qid of None \<Rightarrow> 0
                                    | Some q \<Rightarrow> mlfq_place_entity_deadline q t else 0)
                     in mlfq_sameq_preempt_owed qid (ucast (running_queue prev)) wakee
                          (running_deadline prev) (run_start_at prev) (cb_now cb)
                          (as_guard_eff_ns (ad_state (sd_adapt s)))
                else False
           else False)"

definition enq_preempt ::
  "rodata \<Rightarrow> callback \<Rightarrow> task_struct \<Rightarrow> enq_flag list \<Rightarrow> task_ctx \<times> sched \<Rightarrow> task_ctx \<times> sched" where
  "enq_preempt r cb p flags = (\<lambda>(t, s).
     let qid = tc_queue t; slice = mlfq_queue_slice r qid;
         slice = (if mlfq_preempt_slice_ns r < slice then mlfq_preempt_slice_ns r else slice);
         (t, s) = runnable_enter qid (mlfq_llc_of_cpu r (ts_cpu p)) (t, s);
         t = mlfq_stamp_enq_at (cb_now cb) True t;
         s = add_call (Dsq_insert (ts_pid p) (SCX_DSQ_LOCAL_ON (ts_cpu p)) slice (SCX_ENQ_PREEMPT # flags)) s
     in (t\<lparr>tc_wake_cpu_state := 0\<rparr>,
         upd_stats (\<lambda>st. st\<lparr>st_preemption_kicks := st_preemption_kicks st + 1\<rparr>) s))"

definition enq_movable ::
  "rodata \<Rightarrow> callback \<Rightarrow> task_struct \<Rightarrow> enq_flag list \<Rightarrow> task_ctx \<times> sched \<Rightarrow> task_ctx \<times> sched" where
  "enq_movable r cb p flags = (\<lambda>(t, s).
     if enq_fast_path cb t s
     then enq_local r cb p flags (cb_cpu cb) SCX_DSQ_LOCAL
            (\<lambda>st. st\<lparr>st_enq_fastpath := st_enq_fastpath st + 1\<rparr>) (t, s)
     else let (target, skip_preempt, redirected) = enq_target r cb p flags s;
              s = (if redirected then upd_stats (\<lambda>st. st\<lparr>st_rt_redirects := st_rt_redirects st + 1\<rparr>) s else s)
          in if SCX_ENQ_WAKEUP \<in> set flags \<and> \<not> skip_preempt \<and> preempt_owed cb p t s
             then enq_preempt r cb p flags (t, s)
             else enq_place r cb p flags target
                    (\<lambda>st. st\<lparr>st_enq_regular := st_enq_regular st + 1\<rparr>) (t, s))"

section \<open>The callback\<close>

definition enq_decide ::
  "rodata \<Rightarrow> callback \<Rightarrow> task_struct \<Rightarrow> enq_flag list \<Rightarrow> task_ctx \<times> sched \<Rightarrow> task_ctx \<times> sched" where
  "enq_decide r cb p flags = (\<lambda>(t, s).
     enq_stay r cb p flags (tc_queue t) (enq_classify r cb p flags (t\<lparr>tc_weight := ts_weight p\<rparr>, s)))"

definition mlfq_enqueue :: "rodata \<Rightarrow> callback \<Rightarrow> task_struct \<Rightarrow> enq_flag list \<Rightarrow> sched \<Rightarrow> sched" where
  "mlfq_enqueue r cb p flags s = mlfq_op_lat_charge cb MLFQ_OP_LAT_ENQUEUE
     (case enq_task cb p s of
        None \<Rightarrow> add_call (Scx_error (No_task_ctx (ts_pid p)))
                 (upd_stats (\<lambda>st. st\<lparr>st_enq_no_tctx := st_enq_no_tctx st + 1\<rparr>) s)
      | Some t \<Rightarrow>
        if ts_weight p = 0
        then set_task p t (add_call (Scx_error (Bad_weight (ts_pid p) (ts_weight p)))
               (upd_stats (\<lambda>st. st\<lparr>st_enq_bad_weight := st_enq_bad_weight st + 1\<rparr>) s))
        else let x = enq_decide r cb p flags (t, s);
                 (t, s) = (if mlfq_task_is_migration_disabled p then enq_pinned r cb p flags x
                           else enq_movable r cb p flags x)
             in set_task p t s)"

end
