(* ===== verification/TaskLife.thy ===== *)
theory TaskLife
  imports Enqueue
begin

text \<open>
  The other callbacks of \<open>src/scx/src/bpf/lifecycle.bpf.c\<close> (\<open>init_task\<close>, \<open>enable\<close>,
  \<open>running\<close>, \<open>stopping\<close>, \<open>quiescent\<close>, \<open>update_idle\<close>, \<open>exit_task\<close>, \<open>cpu_release\<close>),
  and the \<open>sched_switch\<close> hook with the takeover drain of \<open>rtdl.bpf.c\<close>.
\<close>

section \<open>Creation and removal of a task\<close>

definition ENOMEM :: i32 where
  "ENOMEM = 12"

definition mlfq_init_task :: "callback \<Rightarrow> task_struct \<Rightarrow> sched \<Rightarrow> i32 \<times> sched" where
  "mlfq_init_task cb p s =
     (case sd_tasks s (ts_pid p) of
        Some t \<Rightarrow> (0, set_task p (mlfq_reset_task_ctx p (cb_now cb) t) s)
      | None \<Rightarrow> if cb_alloc cb then (0, set_task p (mlfq_reset_task_ctx p (cb_now cb) task_ctx_zero) s)
                else (- ENOMEM, s))"

definition mlfq_enable :: "callback \<Rightarrow> task_struct \<Rightarrow> sched \<Rightarrow> sched" where
  "mlfq_enable cb p s =
     (case sd_tasks s (ts_pid p) of None \<Rightarrow> s
      | Some t \<Rightarrow> set_task p (mlfq_reset_task_ctx p (cb_now cb) t) s)"

definition mlfq_quiescent :: "task_struct \<Rightarrow> sched \<Rightarrow> sched" where
  "mlfq_quiescent p s =
     (case sd_tasks s (ts_pid p) of None \<Rightarrow> s
      | Some t \<Rightarrow> case runnable_exit (t, s) of (t, s) \<Rightarrow> set_task p t s)"

definition mlfq_exit_task :: "task_struct \<Rightarrow> sched \<Rightarrow> sched" where
  "mlfq_exit_task p s =
     (case sd_tasks s (ts_pid p) of None \<Rightarrow> s
      | Some t \<Rightarrow>
        let s = (if tc_queue t = 1 \<and> 0 \<le>s ts_cpu p \<and> ts_cpu p <s of_nat MLFQ_MAX_CPUS
                    \<and> mlfq_q1_is_occupied s (ts_cpu p)
                 then mlfq_q1_set (ts_cpu p) False s else s)
        in s\<lparr>sd_tasks := (sd_tasks s)(ts_pid p := None)\<rparr>)"

section \<open>Running\<close>

text \<open>The wait of the episode, measured against the stamp of the enqueue.\<close>

definition measure_wait :: "rodata \<Rightarrow> u64 \<Rightarrow> task_ctx \<times> sched \<Rightarrow> task_ctx \<times> sched" where
  "measure_wait r now = (\<lambda>(t, s).
     if tc_enq_at t \<noteq> 0 \<and> \<not> mlfq_time_before now (tc_enq_at t)
     then let w = now - tc_enq_at t;
              w = (if 0xFFFFFFFF < w then 0xFFFFFFFF else w);
              t = t\<lparr>tc_last_q_wait_ns := ucast w\<rparr>
          in if tc_flags t AND MLFQ_TF_ENQ_WAKEUP \<noteq> 0
             then let a = sd_adapt s; g = ad_gauge a
                  in (t\<lparr>tc_last_wake_lat_ns := ucast w,
                        tc_sq_ema := mlfq_ema_climb (tc_sq_ema t) w MLFQ_SQ_EMA_MAX_NS (mlfq_alpha r)\<rparr>,
                      s\<lparr>sd_adapt := a\<lparr>ad_gauge := g\<lparr>sg_wait_total := sg_wait_total g + w,
                          sg_wait_count := sg_wait_count g + 1\<rparr>\<rparr>\<rparr>)
             else (t, s)
     else (t, s))"

definition mlfq_running :: "rodata \<Rightarrow> callback \<Rightarrow> task_struct \<Rightarrow> sched \<Rightarrow> sched" where
  "mlfq_running r cb p s =
     (case sd_tasks s (ts_pid p) of None \<Rightarrow> s
      | Some t \<Rightarrow>
        let cpu_id = cb_cpu cb; now = cb_now cb;
            s = (case cpu_key cpu_id of None \<Rightarrow> s
                 | Some c \<Rightarrow> s\<lparr>sd_cpus := (sd_cpus s)(c := (sd_cpus s c)\<lparr>
                     running_queue := ucast (tc_queue t), running_pid := ts_pid p,
                     running_deadline := tc_deadline t, run_start_at := now,
                     running_gpu_submit := tc_gpu_submit t\<rparr>)\<rparr>);
            (t, s) = (if tc_last_llc t = MLFQ_LLC_UNOWNED
                      then runnable_enter (tc_queue t) (mlfq_llc_of_cpu r cpu_id) (t, s) else (t, s));
            t = t\<lparr>tc_last_run_at := now, tc_flags := tc_flags t AND NOT MLFQ_TF_FIRST_RUN\<rparr>;
            s = mlfq_q1_set cpu_id (tc_queue t = 1) s;
            (t, s) = measure_wait r now (t, s);
            t = t\<lparr>tc_enq_at := 0, tc_flags := tc_flags t AND NOT MLFQ_TF_ENQ_WAKEUP\<rparr>;
            s = upd_stats (\<lambda>st. st\<lparr>st_on_cpu := st_on_cpu st + 1\<rparr>) s;
            s = (if tc_queue t = 1
                 then upd_stats (\<lambda>st. st\<lparr>st_cpuperf_boosts := st_cpuperf_boosts st + 1\<rparr>)
                        (add_call (Cpuperf_set (ts_cpu p) (ucast MLFQ_CPUPERF_Q1)) s)
                 else case cpu_key cpu_id of None \<Rightarrow> s
                   | Some c \<Rightarrow> add_call (Cpuperf_set (ts_cpu p) (mlfq_cpuperf_from_ema (cpu_ema (sd_cpus s c)))) s)
        in set_task p t s)"

section \<open>Stopping\<close>

text \<open>The busy gauge of the CPU over the wall time since its last segment.\<close>

definition charge_cpu :: "rodata \<Rightarrow> u64 \<Rightarrow> u64 \<Rightarrow> cpu_state \<Rightarrow> cpu_state" where
  "charge_cpu r now delta c =
     (let elapsed = (if cpu_ema_at c \<noteq> 0 \<and> mlfq_time_before (cpu_ema_at c) now then now - cpu_ema_at c else 0);
          e = mlfq_ema_decay (cpu_ema c) elapsed (mlfq_ema_half_life_ns r)
      in c\<lparr>cpu_ema := mlfq_ema_climb e delta (mlfq_budget_max_ns r) (mlfq_alpha r), cpu_ema_at := now\<rparr>)"

text \<open>
  The training sample of the segment. The winner of the swap on the global stamp tries to
  reserve a slot; only an emitted sample consumes the budget of the task.
\<close>

definition emit_sample :: "callback \<Rightarrow> task_struct \<Rightarrow> u64 \<Rightarrow> task_ctx \<times> sched \<Rightarrow> task_ctx \<times> sched" where
  "emit_sample cb p delta = (\<lambda>(t, s).
     let now = cb_now cb; last = sd_sample_last_at s
     in if (last = 0 \<or> mlfq_time_before (last + MLFQ_TREE_SAMPLE_RATE_LIMIT_NS) now)
           \<and> (tc_last_sample_at t = 0 \<or> mlfq_time_before (tc_last_sample_at t + MLFQ_TREE_PER_TASK_LIMIT_NS) now)
           \<and> cb_wins_sample cb
        then let s = s\<lparr>sd_sample_last_at := now\<rparr>
             in if \<not> cb_reserve cb
                then (t, upd_stats (\<lambda>st. st\<lparr>st_tree_samples_dropped := st_tree_samples_dropped st + 1\<rparr>) s)
                else (t\<lparr>tc_last_sample_at := now\<rparr>,
                      upd_stats (\<lambda>st. st\<lparr>st_tree_samples_emitted := st_tree_samples_emitted st + 1\<rparr>)
                        (s\<lparr>sd_samples := sd_samples s @ [\<lparr>pid = ts_pid p, sample_queue = tc_pending_queue t,
                            feats = tc_pending_feats t,
                            label_ns = (if delta < MLFQ_TREE_LABEL_MAX_NS then delta else MLFQ_TREE_LABEL_MAX_NS),
                            version = MLFQ_TREE_SAMPLE_VERSION\<rparr>]\<rparr>))
        else (t, s))"

definition charge_run :: "rodata \<Rightarrow> callback \<Rightarrow> task_struct \<Rightarrow> bool \<Rightarrow> u64 \<Rightarrow> task_ctx \<times> sched \<Rightarrow> task_ctx \<times> sched" where
  "charge_run r cb p runnable delta = (\<lambda>(t, s).
     let t = mlfq_ema_climb_task r delta (mlfq_update_vruntime delta t);
         s = (case cpu_key (cb_cpu cb) of None \<Rightarrow> s
              | Some c \<Rightarrow> s\<lparr>sd_cpus := (sd_cpus s)(c := charge_cpu r (cb_now cb) delta (sd_cpus s c))\<rparr>);
         s = (case sd_queues s (tc_queue t) of None \<Rightarrow> s
              | Some q \<Rightarrow> s\<lparr>sd_queues := (sd_queues s)(tc_queue t \<mapsto> mlfq_queue_advance_clock (tc_vruntime t) q)\<rparr>);
         s = upd_stats (\<lambda>st. st\<lparr>st_total_runtime := st_total_runtime st + delta\<rparr>) s;
         t = t\<lparr>tc_prev_burst_ns := delta\<rparr>
     in if \<not> runnable \<and> tc_pending_valid t \<noteq> 0 then emit_sample cb p delta (t, s) else (t, s))"

text \<open>The sleep cadence of a blocking task.\<close>

definition cadence :: "u64 \<Rightarrow> task_ctx \<Rightarrow> task_ctx" where
  "cadence now t =
     (let slept = (if sleep_ns (tc_pending_feats t) \<noteq> 0 then sleep_ns (tc_pending_feats t)
                   else if tc_last_sleep_at t \<noteq> 0 \<and> mlfq_time_before (tc_last_sleep_at t) now
                   then now - tc_last_sleep_at t else 0)
      in if slept \<noteq> 0 then mlfq_sleep_ema_update slept t
         else if tc_sleep_mean_ema t \<noteq> 0 then mlfq_sleep_ema_update (MLFQ_LONG_SLEEP_NS + 1) t
         else t)"

definition mlfq_stopping :: "rodata \<Rightarrow> callback \<Rightarrow> task_struct \<Rightarrow> bool \<Rightarrow> sched \<Rightarrow> sched" where
  "mlfq_stopping r cb p runnable s0 = mlfq_op_lat_charge cb MLFQ_OP_LAT_STOPPING
     (let s = maybe_adapt r cb s0
      in case sd_tasks s (ts_pid p) of None \<Rightarrow> s
      | Some t \<Rightarrow>
        let now = cb_now cb;
            delta = (if tc_last_run_at t \<noteq> 0 \<and> mlfq_time_before (tc_last_run_at t) now
                     then now - tc_last_run_at t else 0);
            t = t\<lparr>tc_last_run_at := 0\<rparr>;
            (t, s) = (if delta \<noteq> 0 then charge_run r cb p runnable delta (t, s) else (t, s));
            t = (if \<not> runnable then cadence now t else t);
            t = t\<lparr>tc_pending_valid := 0, tc_last_sleep_at := (if \<not> runnable then now else tc_last_sleep_at t)\<rparr>;
            s = mlfq_q1_set (cb_cpu cb) False s;
            s = (case cpu_key (cb_cpu cb) of None \<Rightarrow> s
                 | Some c \<Rightarrow> if runnable then s else s\<lparr>sd_cpus := (sd_cpus s)(c := (sd_cpus s c)\<lparr>
                     running_queue := 0, running_pid := 0, running_deadline := 0, run_start_at := 0,
                     running_gpu_submit := 0\<rparr>)\<rparr>);
            s = upd_stats (\<lambda>st. if st_on_cpu st = 0 then st else st\<lparr>st_on_cpu := st_on_cpu st - 1\<rparr>) s
        in set_task p t s)"

section \<open>CPUs\<close>

definition mlfq_update_idle :: "rodata \<Rightarrow> i32 \<Rightarrow> bool \<Rightarrow> sched \<Rightarrow> sched" where
  "mlfq_update_idle r cpu idle s =
     (case cpu_key cpu of None \<Rightarrow> s
      | Some c \<Rightarrow>
        let s = s\<lparr>sd_idle_count := (if idle then sd_idle_count s + 1 else sd_idle_count s - 1)\<rparr>
        in if 0 \<le>s cpu \<and> cpu <s of_nat MLFQ_MAX_CPUS
           then let llc = mlfq_cpu_llc r ! c
                in if unat llc < MLFQ_MAX_LLCS \<and> llc < mlfq_nr_llcs r
                   then s\<lparr>sd_llc_idle := (sd_llc_idle s)(unat llc :=
                          (if idle then sd_llc_idle s (unat llc) + 1 else sd_llc_idle s (unat llc) - 1))\<rparr>
                   else s
           else s)"

text \<open>\<open>from_anywhere\<close> is the kernel's probe for the reenqueue that is allowed outside this callback.\<close>

definition mlfq_cpu_release :: "callback \<Rightarrow> bool \<Rightarrow> i32 \<Rightarrow> sched \<Rightarrow> sched" where
  "mlfq_cpu_release cb from_anywhere cpu s = mlfq_op_lat_charge cb MLFQ_OP_LAT_CPU_RELEASE
     (let s = (if 0 \<le>s cpu \<and> cpu <s of_nat MLFQ_MAX_CPUS then mlfq_q1_set cpu False s else s)
      in if from_anywhere then s else add_call (Reenqueue_local (cb_cpu cb)) s)"

text \<open>
  The takeover drain. The kernel's two probes and the lengths of the dispatch queues are its
  arguments.
\<close>

definition mlfq_rtdl_drain :: "rodata \<Rightarrow> bool \<Rightarrow> bool \<Rightarrow> (dsq \<Rightarrow> nat) \<Rightarrow> i32 \<Rightarrow> u64 \<Rightarrow> sched \<Rightarrow> sched" where
  "mlfq_rtdl_drain r from_anywhere generic nr_queued cpu now s =
     (case cpu_key cpu of None \<Rightarrow> s
      | Some c \<Rightarrow>
        let rt = sd_rtdl s c;
            qs = filter (\<lambda>id. nr_queued (Queue_dsq id) \<noteq> 0) [mlfq_dsq_id 1 cpu, mlfq_dsq_id 2 cpu, mlfq_dsq_id 3 cpu]
        in if last_drain_at rt \<noteq> 0 \<and> \<not> mlfq_time_before (last_drain_at rt + mlfq_rtdl_drain_interval_ns r) now then s
           else if nr_queued (SCX_DSQ_LOCAL_ON cpu) = 0 \<and> qs = [] then s
           else let s = (if from_anywhere then add_call (Reenqueue_local cpu) s else s);
                    s = (if generic then fold (\<lambda>id. add_call (Dsq_reenq id)) qs s else s)
                in if from_anywhere \<or> generic
                   then upd_stats (\<lambda>st. st\<lparr>st_rt_evacuations := st_rt_evacuations st + 1\<rparr>)
                          (s\<lparr>sd_rtdl := (sd_rtdl s)(c := rt\<lparr>last_drain_at := now\<rparr>)\<rparr>)
                   else s)"

definition MAX_RT_PRIO :: i32 where
  "MAX_RT_PRIO = 100"

definition mlfq_sched_switch :: "rodata \<Rightarrow> callback \<Rightarrow> bool \<Rightarrow> bool \<Rightarrow> (dsq \<Rightarrow> nat) \<Rightarrow> i32 \<Rightarrow> sched \<Rightarrow> sched" where
  "mlfq_sched_switch r cb from_anywhere generic nr_queued next_prio s =
     (case cpu_key (cb_cpu cb) of None \<Rightarrow> s
      | Some c \<Rightarrow>
        let rt = sd_rtdl s c
        in if next_prio <s MAX_RT_PRIO
           then let s = (if rt_flags rt AND MLFQ_RTDL_OCCUPIED = 0
                         then upd_stats (\<lambda>st. st\<lparr>st_rt_takeovers := st_rt_takeovers st + 1\<rparr>)
                                (s\<lparr>sd_rtdl := (sd_rtdl s)(c := rt\<lparr>rt_flags := rt_flags rt OR MLFQ_RTDL_OCCUPIED\<rparr>)\<rparr>)
                         else s)
                in mlfq_rtdl_drain r from_anywhere generic nr_queued (cb_cpu cb) (cb_now cb) s
           else if rt_flags rt AND MLFQ_RTDL_OCCUPIED \<noteq> 0
           then s\<lparr>sd_rtdl := (sd_rtdl s)(c := rt\<lparr>rt_flags := rt_flags rt AND NOT MLFQ_RTDL_OCCUPIED\<rparr>)\<rparr>
           else s)"

end
