(* ===== verification/SchedInv.thy ===== *)
theory SchedInv
  imports TaskLife
begin

text \<open>
  The invariant of the BPF program over any sequence of its callbacks. \<open>task_inv\<close> says what
  holds of a task's storage and \<open>sched_inv\<close> of the whole state; \<open>working r p (t, s)\<close> is the
  invariant while a callback works on the storage \<open>t\<close> of \<open>p\<close>. The enqueue keeps it.
\<close>

section \<open>Invariants\<close>

definition task_inv :: "rodata \<Rightarrow> task_ctx \<Rightarrow> bool" where
  "task_inv r t \<longleftrightarrow> queue_ok t \<and> tc_ema t \<le> mlfq_budget_max_ns r \<and> tc_sq_ema t \<le> MLFQ_SQ_EMA_MAX_NS
     \<and> tc_weight t \<noteq> 0 \<and> 0 \<le> sint (tc_vlag t) \<and> tc_gpu_submit t \<le> 4 \<and> tc_sleep_var_ratio t \<le> 1024"

definition sched_inv :: "rodata \<Rightarrow> sched \<Rightarrow> bool" where
  "sched_inv r s \<longleftrightarrow>
     (\<forall>p t. sd_tasks s p = Some t \<longrightarrow> task_inv r t)
   \<and> gauges_inv (sd_tasks s) (sd_run s)
   \<and> adapt_inv r (sd_adapt s)
   \<and> (\<forall>c. cpu_ema (sd_cpus s c) \<le> mlfq_budget_max_ns r)
   \<and> (\<forall>q qc. sd_queues s q = Some qc \<longrightarrow> slice_fits qc)"

text \<open>The queue map of the program with its three queues.\<close>

definition queues_present :: "sched \<Rightarrow> bool" where
  "queues_present s \<longleftrightarrow> sd_queues s 1 \<noteq> None \<and> sd_queues s 2 \<noteq> None \<and> sd_queues s 3 \<noteq> None"

definition working :: "rodata \<Rightarrow> task_struct \<Rightarrow> task_ctx \<times> sched \<Rightarrow> bool" where
  "working r p x \<longleftrightarrow> sched_inv r (set_task p (fst x) (snd x))"

text \<open>The parts of the state the invariant reads.\<close>

definition same_parts :: "sched \<Rightarrow> sched \<Rightarrow> bool" where
  "same_parts s s' \<longleftrightarrow> sd_tasks s' = sd_tasks s \<and> sd_run s' = sd_run s \<and> sd_adapt s' = sd_adapt s
     \<and> sd_cpus s' = sd_cpus s \<and> sd_queues s' = sd_queues s"

lemma same_parts_refl [simp]: "same_parts s s"
  by (simp add: same_parts_def)

lemma same_parts_trans: "same_parts s s' \<Longrightarrow> same_parts s' s'' \<Longrightarrow> same_parts s s''"
  by (simp add: same_parts_def)

lemma same_parts_upd [simp]:
  "same_parts s (add_call c s)" "same_parts s (upd_stats f s)"
  "same_parts s (mlfq_q1_set cpu b s)" "same_parts s (mlfq_op_lat_charge cb op s)"
  "same_parts s (mlfq_idle_kick cb cpu s)" "same_parts s (s\<lparr>sd_stats := st\<rparr>)"
  by (auto simp: same_parts_def add_call_def upd_stats_def mlfq_q1_set_def mlfq_op_lat_charge_def
      mlfq_idle_kick_def Let_def)

lemma sched_inv_same: "same_parts s s' \<Longrightarrow> sched_inv r s' \<longleftrightarrow> sched_inv r s"
  by (simp add: same_parts_def sched_inv_def)

lemma working_iff:
  "working r p (t, s) \<longleftrightarrow> task_inv r t
     \<and> (\<forall>q u. q \<noteq> ts_pid p \<longrightarrow> sd_tasks s q = Some u \<longrightarrow> task_inv r u)
     \<and> gauges_inv ((sd_tasks s)(ts_pid p \<mapsto> t)) (sd_run s)
     \<and> adapt_inv r (sd_adapt s)
     \<and> (\<forall>c. cpu_ema (sd_cpus s c) \<le> mlfq_budget_max_ns r)
     \<and> (\<forall>q qc. sd_queues s q = Some qc \<longrightarrow> slice_fits qc)"
  unfolding working_def sched_inv_def set_task_def by (fastforce split: if_splits)

lemma working_same: "same_parts s s' \<Longrightarrow> working r p (t, s') \<longleftrightarrow> working r p (t, s)"
  by (simp add: working_iff same_parts_def)

lemma working_stored:
  assumes "sched_inv r s" and "sd_tasks s (ts_pid p) = Some t"
  shows "working r p (t, s)"
proof -
  have "(sd_tasks s)(ts_pid p \<mapsto> t) = sd_tasks s" using assms(2) by (simp add: map_upd_triv)
  then show ?thesis using assms(1) by (simp add: working_def set_task_def)
qed

lemma working_task:
  assumes "working r p (t, s)" and "task_inv r t'"
    and "tc_last_llc t' = tc_last_llc t" and "tc_last_qid t' = tc_last_qid t"
  shows "working r p (t', s)"
proof -
  have "gauges_inv (((sd_tasks s)(ts_pid p \<mapsto> t))(ts_pid p \<mapsto> t')) (sd_run s)"
    using gauges_inv_same [of "(sd_tasks s)(ts_pid p \<mapsto> t)" "sd_run s" "ts_pid p" t t'] assms
    by (simp add: working_iff)
  then show ?thesis using assms(1, 2) unfolding working_iff fun_upd_upd by blast
qed

lemma working_inv: "working r p (t, s) \<Longrightarrow> task_inv r t"
  by (simp add: working_iff)

lemma working_fresh:
  assumes "sched_inv r s" and "sd_tasks s (ts_pid p) = None" and "task_inv r t"
    and "\<not> owned t" and "tc_last_qid t = 0"
  shows "working r p (t, s)"
  using assms gauges_inv_fresh [of "sd_tasks s" "sd_run s" "ts_pid p" t]
  unfolding working_iff sched_inv_def by blast

section \<open>The operations on the working copy\<close>

lemma queue_range: "queue_ok t \<Longrightarrow> 1 \<le> unat (tc_queue t) \<and> unat (tc_queue t) \<le> 3"
  by (auto simp: queue_ok_def)

lemma enter_fields:
  "task_inv r (fst (mlfq_runnable_enter qid llc (t, g))) = task_inv r t"
  "tc_queue (fst (mlfq_runnable_enter qid llc (t, g))) = tc_queue t"
  by (auto simp: mlfq_runnable_enter_def task_inv_def queue_ok_def split: prod.splits if_splits)

lemma exit_fields:
  "task_inv r (fst (mlfq_runnable_exit (t, g))) = task_inv r t"
  "tc_queue (fst (mlfq_runnable_exit (t, g))) = tc_queue t"
  by (auto simp: mlfq_runnable_exit_def task_inv_def queue_ok_def)

lemma runnable_enter_queue [simp]: "tc_queue (fst (runnable_enter qid llc x)) = tc_queue (fst x)"
  by (simp add: runnable_enter_def case_prod_beta enter_fields)

lemma enter_working:
  assumes "working r p x" and "1 \<le> unat qid" and "unat qid \<le> 3"
  shows "working r p (runnable_enter qid llc x)"
proof -
  obtain t s where x: "x = (t, s)" by (cases x)
  let ?e = "mlfq_runnable_enter qid llc (t, sd_run s)"
  have "gauges_inv (((sd_tasks s)(ts_pid p \<mapsto> t))(ts_pid p \<mapsto> fst ?e)) (snd ?e)"
    using assms x by (intro enter_inv) (auto simp: working_iff)
  moreover have "task_inv r (fst ?e)"
    using assms(1) x working_inv by (auto simp: enter_fields)
  ultimately show ?thesis
    using assms(1) by (simp add: x runnable_enter_def working_iff case_prod_beta)
qed

lemma exit_working:
  assumes "working r p x"
  shows "working r p (runnable_exit x)"
proof -
  obtain t s where x: "x = (t, s)" by (cases x)
  let ?e = "mlfq_runnable_exit (t, sd_run s)"
  have "gauges_inv (((sd_tasks s)(ts_pid p \<mapsto> t))(ts_pid p \<mapsto> fst ?e)) (snd ?e)"
    using assms x by (intro exit_inv) (auto simp: working_iff)
  moreover have "task_inv r (fst ?e)"
    using assms(1) x working_inv by (auto simp: exit_fields)
  ultimately show ?thesis
    using assms(1) by (simp add: x runnable_exit_def working_iff case_prod_beta)
qed

text \<open>A step that leaves the ownership record and the fields of \<open>task_inv\<close> alone.\<close>

definition same_task :: "task_ctx \<Rightarrow> task_ctx \<Rightarrow> bool" where
  "same_task t u \<longleftrightarrow> tc_queue u = tc_queue t \<and> tc_ema u = tc_ema t \<and> tc_sq_ema u = tc_sq_ema t
     \<and> tc_weight u = tc_weight t \<and> tc_vlag u = tc_vlag t \<and> tc_gpu_submit u = tc_gpu_submit t
     \<and> tc_sleep_var_ratio u = tc_sleep_var_ratio t \<and> tc_last_llc u = tc_last_llc t
     \<and> tc_last_qid u = tc_last_qid t"

lemma same_task_inv: "same_task t u \<Longrightarrow> task_inv r u \<longleftrightarrow> task_inv r t"
  by (simp add: same_task_def task_inv_def queue_ok_def)

lemma working_same_task:
  assumes "same_task t u" and "working r p (t, s)"
  shows "working r p (u, s)"
  using assms same_task_inv [OF assms(1)]
  by (intro working_task [OF assms(2)]) (auto simp: same_task_def dest: working_inv)

section \<open>The steps of the enqueue\<close>

lemma decay_le_budget:
  assumes "gauge_consts_fit r" and "g \<le> mlfq_budget_max_ns r"
  shows "mlfq_ema_decay g x (mlfq_ema_half_life_ns r) \<le> mlfq_budget_max_ns r"
  using gauge_step_le [OF assms, of "Slept x"] by simp

lemma task_inv_inputs:
  assumes "same_inputs t u" and "queue_ok u" and "tc_ema u \<le> mlfq_budget_max_ns r" and "task_inv r t"
  shows "task_inv r u"
  using assms by (simp add: same_inputs_def task_inv_def)

lemma wakeup_task_inv:
  assumes "gauge_consts_fit r" and "task_inv r t"
  shows "task_inv r (fst (mlfq_wakeup_classify r a k p now (t, st)))"
proof (rule task_inv_inputs [OF _ _ _ assms(2)])
  show "same_inputs t (fst (mlfq_wakeup_classify r a k p now (t, st)))"
    using wakeup_inputs [of "(t, st)"] by simp
  show "queue_ok (fst (mlfq_wakeup_classify r a k p now (t, st)))"
    using assms(2) by (intro wakeup_queue_ok) (simp add: task_inv_def)
  have "tc_ema t \<le> mlfq_budget_max_ns r" using assms(2) by (simp add: task_inv_def)
  then show "tc_ema (fst (mlfq_wakeup_classify r a k p now (t, st))) \<le> mlfq_budget_max_ns r"
    using decay_le_budget [OF assms(1)] by (simp add: wakeup_ema wake_decay_def Let_def)
qed

lemma runout_task_inv:
  assumes "task_inv r t"
  shows "task_inv r (fst (mlfq_runout_classify a k p (t, st)))"
proof (rule task_inv_inputs [OF runout_inputs _ _ assms])
  have ok: "queue_ok t" using assms by (simp add: task_inv_def)
  show "queue_ok (fst (mlfq_runout_classify a k p (t, st)))" by (rule runout_queue_ok [OF ok])
  show "tc_ema (fst (mlfq_runout_classify a k p (t, st))) \<le> mlfq_budget_max_ns r"
    using assms runout_fields(3) [OF ok] by (simp add: task_inv_def)
qed

lemma working_inputs:
  assumes "working r p (t, s)" and "same_inputs t u" and "task_inv r u"
  shows "working r p (u, s)"
  using assms by (intro working_task [OF assms(1)]) (auto simp: same_inputs_def)

lemma wakeup_count_working: "working r p (t, wakeup_count cb s) \<longleftrightarrow> working r p (t, s)"
  by (simp add: working_iff wakeup_count_def Let_def adapt_inv_def)

lemma working_weight:
  assumes "working r p (t, s)" and "w \<noteq> 0"
  shows "working r p (t\<lparr>tc_weight := w\<rparr>, s)"
  using assms working_inv [OF assms(1)]
  by (intro working_task [OF assms(1)]) (simp_all add: task_inv_def queue_ok_def)

lemma enq_classify_working:
  assumes fit: "gauge_consts_fit r" and w: "working r p (t, s)"
  shows "working r p (enq_classify r cb p flags (t, s))"
proof -
  note inv = working_inv [OF w]
  let ?a = "ad_state (sd_adapt s)"
  show ?thesis
  proof (cases "SCX_ENQ_WAKEUP \<in> set flags")
    case True
    let ?c = "mlfq_wakeup_classify r ?a (sd_kernel s) p (cb_now cb) (t, sd_stats s)"
    have si: "same_inputs t (fst ?c)" using wakeup_inputs [of "(t, sd_stats s)"] by simp
    have "working r p (fst ?c, s)"
      by (rule working_inputs [OF w si wakeup_task_inv [OF fit inv]])
    then have "working r p (fst ?c, s\<lparr>sd_stats := snd ?c\<rparr>)"
      by (simp only: working_same [OF same_parts_upd(6)])
    with True show ?thesis
      by (simp add: enq_classify_def case_prod_beta wakeup_count_working)
  next
    case nw: False
    show ?thesis
    proof (cases "flags = []")
      case True
      let ?c = "mlfq_runout_classify ?a (sd_kernel s) p (t, sd_stats s)"
      have "working r p (fst ?c, s)"
        by (rule working_inputs [OF w runout_inputs runout_task_inv [OF inv]])
      then have "working r p (fst ?c, s\<lparr>sd_stats := snd ?c\<rparr>)"
        by (simp only: working_same [OF same_parts_upd(6)])
      with True show ?thesis
        by (simp add: enq_classify_def case_prod_beta)
    next
      case False
      have "working r p (t\<lparr>tc_wake_cnt := 0, tc_reenq_cnt := 0\<rparr>, s)"
        by (rule working_same_task [OF _ w]) (simp add: same_task_def)
      with nw False show ?thesis
        by (simp add: enq_classify_def working_same [OF same_parts_upd(2)])
    qed
  qed
qed

lemma working_queue:
  assumes "working r p (t, s)" and "queue_ok u" and "same_task t (u\<lparr>tc_queue := tc_queue t\<rparr>)"
  shows "working r p (u, s)"
  using assms working_inv [OF assms(1)]
  by (intro working_task [OF assms(1)]) (simp_all add: same_task_def task_inv_def)

lemma sched_idle_queue_ok: "queue_ok t \<Longrightarrow> queue_ok (snd (mlfq_apply_sched_idle p t))"
  by (simp add: mlfq_apply_sched_idle_def queue_ok_def)

lemma stay_start_queue [simp]: "tc_queue (stay_start now old fresh t) = tc_queue t"
  by (simp add: stay_start_def)

lemma sched_idle_same: "same_task t ((snd (mlfq_apply_sched_idle p t))\<lparr>tc_queue := tc_queue t\<rparr>)"
  by (simp add: mlfq_apply_sched_idle_def same_task_def)

lemma stay_start_same: "same_task t (stay_start now old fresh t)"
  by (simp add: stay_start_def same_task_def)

lemma enq_stay_working:
  assumes w: "working r p (t, s)"
  shows "working r p (enq_stay r cb p flags old (t, s))"
proof -
  have ok: "queue_ok t" using working_inv [OF w] by (simp add: task_inv_def)
  define u where "u = snd (mlfq_apply_sched_idle p t)"
  have "working r p (u, s)"
    unfolding u_def by (rule working_queue [OF w sched_idle_queue_ok [OF ok] sched_idle_same])
  define v where "v = stay_start (cb_now cb) old (SCX_ENQ_WAKEUP \<in> set flags \<or> flags = []) u"
  have v: "working r p (v, s)"
    unfolding v_def by (rule working_same_task [OF stay_start_same \<open>working r p (u, s)\<close>])
  have aged: "working r p (v\<lparr>tc_queue := 1, tc_reenq_cnt := 0\<rparr>, s)"
    by (rule working_queue [OF v]) (simp_all add: queue_ok_def same_task_def)
  show ?thesis
    using v aged
    by (simp add: enq_stay_def Let_def case_prod_beta u_def [symmetric] v_def [symmetric]
        working_same [OF same_parts_upd(2)])
qed

section \<open>The inserts of the enqueue\<close>

lemma place_entity_eq:
  "snd (mlfq_place_entity q t) = t\<lparr>tc_vruntime := qc_clock q - placed_lag q t, tc_vlag := placed_lag q t,
     tc_deadline := mlfq_place_entity_deadline q t\<rparr>"
  by (auto simp: mlfq_place_entity_def placed_lag_def Let_def min_def)

lemma placed_vlag: "slice_fits q \<Longrightarrow> 0 \<le> sint (placed_lag q t)"
  using placed_lag_half [of q t] by (simp add: sint_small)

lemma place_task_working:
  assumes w: "working r p (t, s)"
  shows "working r p (snd (mlfq_place_task (sd_queues s) qid t), s)"
proof (cases "sd_queues s qid")
  case None
  with w show ?thesis by (simp add: mlfq_place_task_def)
next
  case (Some q)
  then have "slice_fits q" using w by (auto simp: working_iff)
  then have "task_inv r (snd (mlfq_place_entity q t))"
    using working_inv [OF w] placed_vlag [of q t] by (simp add: place_entity_eq task_inv_def queue_ok_def)
  then have "working r p (snd (mlfq_place_entity q t), s)"
    by (rule working_task [OF w]) (simp_all add: place_entity_eq)
  then show ?thesis using Some by (simp add: mlfq_place_task_def)
qed

lemma place_task_queue [simp]: "tc_queue (snd (mlfq_place_task qs qid t)) = tc_queue t"
  by (simp add: mlfq_place_task_def place_entity_eq split: option.split)

lemma working_parts: "working r p (t, s) \<Longrightarrow> same_parts s s' \<Longrightarrow> working r p (t, s')"
  by (simp add: working_same)

text \<open>After the accounting: the stamp, the insert and the counters.\<close>

lemma enter_same_queue:
  assumes "working r p (t, s)"
  shows "working r p (runnable_enter (tc_queue t) llc (t, s))"
proof -
  have "queue_ok t" using working_inv [OF assms] by (simp add: task_inv_def)
  then show ?thesis using queue_range [of t] by (intro enter_working [OF assms]) auto
qed

lemma stamp_same: "same_task t ((mlfq_stamp_enq_at now wk t)\<lparr>tc_wake_cpu_state := c\<rparr>)"
  by (simp add: mlfq_stamp_enq_at_def same_task_def)

lemma inserted_working:
  assumes "working r p (t, s)" and "same_parts (snd (runnable_enter (tc_queue t) llc (t, s))) s'"
  shows "working r p ((mlfq_stamp_enq_at now wk (fst (runnable_enter (tc_queue t) llc (t, s))))\<lparr>tc_wake_cpu_state := c\<rparr>, s')"
proof -
  let ?e = "runnable_enter (tc_queue t) llc (t, s)"
  have "working r p (fst ?e, snd ?e)" using enter_same_queue [OF assms(1)] by simp
  then have "working r p ((mlfq_stamp_enq_at now wk (fst ?e))\<lparr>tc_wake_cpu_state := c\<rparr>, snd ?e)"
    by (rule working_same_task [OF stamp_same])
  then show ?thesis by (rule working_parts [OF _ assms(2)])
qed

lemma enq_place_working:
  assumes w: "working r p (t, s)"
  shows "working r p (enq_place r cb p flags cpu counted (t, s))"
proof -
  define s1 where "s1 = (if sd_queues s (tc_queue t) = None
     then add_call (Scx_error (Queue_lookup_failed (ts_pid p) (tc_queue t))) s else s)"
  have "sd_queues s1 = sd_queues s" by (simp add: s1_def add_call_def)
  define u where "u = snd (mlfq_place_task (sd_queues s) (tc_queue t) t)"
  have u: "tc_queue u = tc_queue t" by (simp add: u_def)
  have w1: "working r p (u, s1)"
    unfolding u_def by (rule working_parts [OF place_task_working [OF w]]) (simp add: s1_def)
  have w2: "working r p (u, upd_stats counted s1)" by (rule working_parts [OF w1]) simp
  have ins: "working r p ((mlfq_stamp_enq_at (cb_now cb) wk
      (fst (runnable_enter (tc_queue t) llc (u, upd_stats counted s1))))\<lparr>tc_wake_cpu_state := 0\<rparr>, s')"
    if "same_parts (snd (runnable_enter (tc_queue t) llc (u, upd_stats counted s1))) s'" for wk llc s'
    using inserted_working [OF w2, unfolded u, OF that] .
  have err: "working r p (u, add_call e (upd_stats f s1))" for e f
    by (rule working_parts [OF w1]) (rule same_parts_trans [OF same_parts_upd(2) same_parts_upd(1)])
  show ?thesis
    unfolding enq_place_def Let_def case_prod_beta fst_conv snd_conv s1_def [symmetric]
      \<open>sd_queues s1 = sd_queues s\<close> u_def [symmetric]
    using err ins [OF same_parts_trans [OF same_parts_trans [OF same_parts_upd(1) same_parts_upd(2)] same_parts_upd(5)]]
    by simp
qed

lemma enq_local_working:
  assumes w: "working r p (t, s)"
  shows "working r p (enq_local r cb p flags cpu target counted (t, s))"
proof -
  have w2: "working r p (t, upd_stats counted s)" by (rule working_parts [OF w]) simp
  show ?thesis
    unfolding enq_local_def Let_def case_prod_beta fst_conv snd_conv
    by (rule inserted_working [OF w2]) (rule same_parts_trans [OF same_parts_upd(1) same_parts_upd(2)])
qed

lemma enq_preempt_working:
  assumes w: "working r p (t, s)"
  shows "working r p (enq_preempt r cb p flags (t, s))"
  unfolding enq_preempt_def Let_def case_prod_beta fst_conv snd_conv
  by (rule inserted_working [OF w]) (rule same_parts_trans [OF same_parts_upd(1) same_parts_upd(2)])

lemma enq_pinned_working:
  assumes w: "working r p (t, s)"
  shows "working r p (enq_pinned r cb p flags (t, s))"
proof -
  have w1: "working r p (t, add_call e s)" for e by (rule working_parts [OF w]) simp
  have w2: "working r p (t, upd_stats f s)" for f by (rule working_parts [OF w]) simp
  have park: "working r p ((fst x)\<lparr>tc_enq_at := 0, tc_flags := f, tc_wake_cpu_state := 0\<rparr>, add_call e (snd x))"
    if "working r p x" for x f e
  proof -
    have "working r p (fst x, snd x)" using that by simp
    then have "working r p ((fst x)\<lparr>tc_enq_at := 0, tc_flags := f, tc_wake_cpu_state := 0\<rparr>, snd x)"
      by (rule working_same_task [rotated]) (simp add: same_task_def)
    then show ?thesis by (rule working_parts) simp
  qed
  show ?thesis
    unfolding enq_pinned_def Let_def case_prod_beta fst_conv snd_conv
    using w1 park [OF exit_working [OF w2]] enq_local_working [OF w] enq_place_working [OF w] by simp
qed

lemma enq_movable_working:
  assumes w: "working r p (t, s)"
  shows "working r p (enq_movable r cb p flags (t, s))"
proof -
  have w1: "working r p (t, if b then upd_stats f s else s)" for b f
    using working_parts [OF w same_parts_upd(2)] w by simp
  show ?thesis
    unfolding enq_movable_def Let_def case_prod_beta fst_conv snd_conv
    using enq_local_working [OF w] enq_preempt_working [OF w1] enq_place_working [OF w1] by simp
qed

lemma reset_inv: "task_inv r (mlfq_reset_task_ctx p now t) \<longleftrightarrow> tc_gpu_submit (mlfq_reset_task_ctx p now t) \<le> 4"
  by (simp add: task_inv_def mlfq_reset_task_ctx_def mlfq_reset_classification_def queue_ok_def)

lemma reset_fields:
  "task_inv r (mlfq_reset_task_ctx p now t)" "\<not> owned (mlfq_reset_task_ctx p now t)"
  "tc_last_qid (mlfq_reset_task_ctx p now t) = 0"
  unfolding reset_inv by (simp_all add: mlfq_reset_task_ctx_def mlfq_reset_classification_def owned_def)

lemma enq_task_working:
  assumes "sched_inv r s" and "enq_task cb p s = Some t"
  shows "working r p (t, s)"
proof (cases "sd_tasks s (ts_pid p)")
  case None
  then have "t = mlfq_reset_task_ctx p (cb_reset cb) task_ctx_zero"
    using assms(2) by (simp add: enq_task_def split: if_splits)
  then show ?thesis
    using working_fresh [OF assms(1) None] reset_fields by simp
next
  case (Some u)
  then show ?thesis using assms working_stored by (simp add: enq_task_def)
qed

lemma working_set_task: "working r p (t, s) \<Longrightarrow> sched_inv r (set_task p t s)"
  by (simp add: working_def)

lemma enq_decide_working:
  assumes fit: "gauge_consts_fit r" and w: "working r p (t, s)" and "ts_weight p \<noteq> 0"
  shows "working r p (enq_decide r cb p flags (t, s))"
proof -
  have w1: "working r p (t\<lparr>tc_weight := ts_weight p\<rparr>, s)" by (rule working_weight [OF w assms(3)])
  obtain u s' where c: "enq_classify r cb p flags (t\<lparr>tc_weight := ts_weight p\<rparr>, s) = (u, s')" by fastforce
  have "working r p (u, s')" using enq_classify_working [OF fit w1, of cb flags] c by simp
  then show ?thesis using c by (simp add: enq_decide_def enq_stay_working)
qed

lemma enqueue_inv:
  assumes fit: "gauge_consts_fit r" and inv: "sched_inv r s"
  shows "sched_inv r (mlfq_enqueue r cb p flags s)"
proof (cases "enq_task cb p s")
  case None
  then show ?thesis
    using inv sched_inv_same [OF same_parts_trans [OF same_parts_upd(2) same_parts_upd(1)]]
    by (simp add: mlfq_enqueue_def sched_inv_same [OF same_parts_upd(4)])
next
  case (Some t)
  have w: "working r p (t, s)" by (rule enq_task_working [OF inv Some])
  have err: "sched_inv r (set_task p t (add_call e (upd_stats f s)))" for e f
    by (rule working_set_task [OF working_parts [OF w]])
      (rule same_parts_trans [OF same_parts_upd(2) same_parts_upd(1)])
  have "sched_inv r (set_task p (fst x) (snd x))" if "working r p x" for x
    using that by (simp add: working_def)
  moreover have "working r p (if b then enq_pinned r cb p flags x else enq_movable r cb p flags x)"
    if "working r p x" for b x
    using that by (cases x) (simp add: enq_pinned_working enq_movable_working)
  ultimately show ?thesis
    using Some err enq_decide_working [OF fit w]
    by (simp add: mlfq_enqueue_def sched_inv_same [OF same_parts_upd(4)] case_prod_beta Let_def)
qed

end
