(* ===== verification/SchedSafe.thy ===== *)
theory SchedSafe
  imports SchedInv
begin

text \<open>
  The invariant of \<open>SchedInv\<close> is kept by the other callbacks. A task is initialised, enabled
  or removed only while it is outside the runnable set (\<open>unowned\<close>), after its \<open>quiescent\<close>.
\<close>

section \<open>The other callbacks keep the invariant\<close>

lemma working_cpus:
  assumes "working r p (t, s)" and "\<And>c. cpu_ema (f c) \<le> mlfq_budget_max_ns r"
  shows "working r p (t, s\<lparr>sd_cpus := f\<rparr>)"
  using assms by (simp add: working_iff)

lemma measure_wait_working:
  assumes w: "working r p (t, s)"
  shows "working r p (measure_wait r now (t, s))"
proof -
  note inv = working_inv [OF w]
  have q: "working r p (t\<lparr>tc_last_q_wait_ns := x\<rparr>, s)" for x
    by (rule working_same_task [OF _ w]) (simp add: same_task_def)
  have sq: "mlfq_ema_climb (tc_sq_ema t) x MLFQ_SQ_EMA_MAX_NS y \<le> MLFQ_SQ_EMA_MAX_NS" for x y
    using inv by (intro climb_bounds(2)) (simp add: task_inv_def)
  have wk: "working r p (t\<lparr>tc_last_q_wait_ns := x, tc_last_wake_lat_ns := x,
      tc_sq_ema := mlfq_ema_climb (tc_sq_ema t) y MLFQ_SQ_EMA_MAX_NS (mlfq_alpha r)\<rparr>, s)" for x y
    by (rule working_task [OF w]) (use inv sq in \<open>simp_all add: task_inv_def queue_ok_def\<close>)
  have g: "working r p (u, s\<lparr>sd_adapt := (sd_adapt s)\<lparr>ad_gauge := (ad_gauge (sd_adapt s))\<lparr>
        sg_wait_total := x, sg_wait_count := y\<rparr>\<rparr>\<rparr>)" if "working r p (u, s)" for u x y
    using that by (simp add: working_iff adapt_inv_def)
  show ?thesis
    using w q g [OF wk] by (simp add: measure_wait_def Let_def)
qed

lemma measure_wait_queue: "tc_queue (fst (measure_wait r now x)) = tc_queue (fst x)"
  by (simp add: measure_wait_def case_prod_beta Let_def)

lemma running_inv:
  assumes inv: "sched_inv r s"
  shows "sched_inv r (mlfq_running r cb p s)"
proof (cases "sd_tasks s (ts_pid p)")
  case None
  then show ?thesis using inv by (simp add: mlfq_running_def)
next
  case (Some t)
  define s1 where "s1 = (case cpu_key (cb_cpu cb) of None \<Rightarrow> s
     | Some c \<Rightarrow> s\<lparr>sd_cpus := (sd_cpus s)(c := (sd_cpus s c)\<lparr>
         running_queue := ucast (tc_queue t), running_pid := ts_pid p,
         running_deadline := tc_deadline t, run_start_at := cb_now cb,
         running_gpu_submit := tc_gpu_submit t\<rparr>)\<rparr>)"
  have w: "working r p (t, s)" by (rule working_stored [OF inv Some])
  have w1: "working r p (t, s1)"
    using w inv by (auto simp: s1_def sched_inv_def intro!: working_cpus split: option.split)
  define x2 where "x2 = (if tc_last_llc t = MLFQ_LLC_UNOWNED
     then runnable_enter (tc_queue t) (mlfq_llc_of_cpu r (cb_cpu cb)) (t, s1) else (t, s1))"
  have w2: "working r p (fst x2, snd x2)"
    using w1 enter_same_queue [OF w1] by (simp add: x2_def)
  define t3 where "t3 = (fst x2)\<lparr>tc_last_run_at := cb_now cb, tc_flags := tc_flags (fst x2) AND NOT MLFQ_TF_FIRST_RUN\<rparr>"
  have "working r p (t3, snd x2)"
    by (rule working_same_task [OF _ w2]) (simp add: same_task_def t3_def)
  then have w3: "working r p (t3, mlfq_q1_set (cb_cpu cb) (tc_queue t3 = 1) (snd x2))"
    by (rule working_parts) simp
  define x4 where "x4 = measure_wait r (cb_now cb) (t3, mlfq_q1_set (cb_cpu cb) (tc_queue t3 = 1) (snd x2))"
  have w4: "working r p (fst x4, snd x4)" using measure_wait_working [OF w3] by (simp add: x4_def)
  define t5 where "t5 = (fst x4)\<lparr>tc_enq_at := 0, tc_flags := tc_flags (fst x4) AND NOT MLFQ_TF_ENQ_WAKEUP\<rparr>"
  have w5: "working r p (t5, snd x4)"
    by (rule working_same_task [OF _ w4]) (simp add: same_task_def t5_def)
  have st: "working r p (t5, upd_stats f z)" "working r p (t5, add_call c z)"
    if "working r p (t5, z)" for z f c
    using working_parts [OF that] by simp_all
  have "sched_inv r (set_task p t5 (if tc_queue t5 = 1 then upd_stats f (add_call e (upd_stats h (snd x4)))
      else case k of None \<Rightarrow> upd_stats h (snd x4) | Some c \<Rightarrow> add_call (g c) (upd_stats h (snd x4))))"
    for f e h k g
    using st(1) [OF st(2) [OF st(1) [OF w5]]] st(2) [OF st(1) [OF w5]] st(1) [OF w5]
    by (auto intro!: working_set_task split: option.split)
  then show ?thesis
    unfolding mlfq_running_def Some option.simps Let_def s1_def [symmetric] case_prod_beta x2_def [symmetric]
      t3_def [symmetric] x4_def [symmetric] t5_def [symmetric] .
qed

lemma maybe_adapt_inv:
  assumes "sched_inv r s"
  shows "sched_inv r (maybe_adapt r cb s)"
  using assms maybe_adapt_step_inv by (simp add: sched_inv_def maybe_adapt_def)

lemma maybe_adapt_tasks [simp]: "sd_tasks (maybe_adapt r cb s) = sd_tasks s"
  by (simp add: maybe_adapt_def)

lemma charge_cpu_le:
  assumes "gauge_consts_fit r" and "cpu_ema c \<le> mlfq_budget_max_ns r"
  shows "cpu_ema (charge_cpu r now delta c) \<le> mlfq_budget_max_ns r"
  using decay_le_budget [OF assms] climb_bounds(2) by (simp add: charge_cpu_def Let_def)

lemma advance_clock_fits: "slice_fits (mlfq_queue_advance_clock vr q) \<longleftrightarrow> slice_fits q"
  by (simp add: mlfq_queue_advance_clock_def slice_fits_def)

lemma emit_sample_working:
  assumes w: "working r p (t, s)"
  shows "working r p (emit_sample cb p delta (t, s))"
proof -
  have u: "working r p (t\<lparr>tc_last_sample_at := x\<rparr>, s)" for x
    by (rule working_same_task [OF _ w]) (simp add: same_task_def)
  have "working r p (t, upd_stats f (s\<lparr>sd_sample_last_at := x\<rparr>))" for f x
    by (rule working_parts [OF w]) (simp add: same_parts_def upd_stats_def)
  moreover have "working r p (t\<lparr>tc_last_sample_at := z\<rparr>,
      upd_stats f (s\<lparr>sd_sample_last_at := x, sd_samples := y\<rparr>))" for f x y z
    by (rule working_parts [OF u]) (simp add: same_parts_def upd_stats_def)
  ultimately show ?thesis
    using w by (simp add: emit_sample_def Let_def)
qed

lemma charge_run_working:
  assumes fit: "gauge_consts_fit r" and w: "working r p (t, s)"
  shows "working r p (charge_run r cb p b delta (t, s))"
proof -
  define u where "u = mlfq_ema_climb_task r delta (mlfq_update_vruntime delta t)"
  define u' where "u' = u\<lparr>tc_prev_burst_ns := delta\<rparr>"
  have "tc_ema u \<le> mlfq_budget_max_ns r"
    using working_inv [OF w]
    by (simp add: u_def mlfq_ema_climb_task_def mlfq_update_vruntime_def task_inv_def climb_bounds(2))
  then have "task_inv r u'"
    using working_inv [OF w]
    by (simp add: u'_def u_def mlfq_ema_climb_task_def mlfq_update_vruntime_def task_inv_def queue_ok_def)
  then have "working r p (u', s)"
    by (rule working_task [OF w])
      (simp_all add: u'_def u_def mlfq_ema_climb_task_def mlfq_update_vruntime_def)
  then have w1: "working r p (u', case cpu_key (cb_cpu cb) of None \<Rightarrow> s
      | Some c \<Rightarrow> s\<lparr>sd_cpus := (sd_cpus s)(c := charge_cpu r (cb_now cb) delta (sd_cpus s c))\<rparr>)"
    using charge_cpu_le [OF fit] by (auto simp: working_iff split: option.split)
  define s1 where "s1 = (case cpu_key (cb_cpu cb) of None \<Rightarrow> s
      | Some c \<Rightarrow> s\<lparr>sd_cpus := (sd_cpus s)(c := charge_cpu r (cb_now cb) delta (sd_cpus s c))\<rparr>)"
  have w2: "working r p (u', case sd_queues s1 (tc_queue u) of None \<Rightarrow> s1
      | Some q \<Rightarrow> s1\<lparr>sd_queues := (sd_queues s1)(tc_queue u \<mapsto> mlfq_queue_advance_clock (tc_vruntime u) q)\<rparr>)"
    using w1 advance_clock_fits unfolding s1_def [symmetric] by (auto simp: working_iff split: option.split)
  define s2 where "s2 = (case sd_queues s1 (tc_queue u) of None \<Rightarrow> s1
      | Some q \<Rightarrow> s1\<lparr>sd_queues := (sd_queues s1)(tc_queue u \<mapsto> mlfq_queue_advance_clock (tc_vruntime u) q)\<rparr>)"
  have w3: "working r p (u', upd_stats f s2)" for f
    using w2 unfolding s2_def [symmetric] by (rule working_parts) simp
  show ?thesis
    unfolding charge_run_def Let_def case_prod_conv u_def [symmetric] u'_def [symmetric]
      s1_def [symmetric] s2_def [symmetric]
    using w3 emit_sample_working [OF w3] by simp
qed

lemma sleep_ema_fields:
  "tc_queue (mlfq_sleep_ema_update slept t) = tc_queue t"
  "tc_ema (mlfq_sleep_ema_update slept t) = tc_ema t"
  "tc_sq_ema (mlfq_sleep_ema_update slept t) = tc_sq_ema t"
  "tc_weight (mlfq_sleep_ema_update slept t) = tc_weight t"
  "tc_vlag (mlfq_sleep_ema_update slept t) = tc_vlag t"
  "tc_last_llc (mlfq_sleep_ema_update slept t) = tc_last_llc t"
  "tc_last_qid (mlfq_sleep_ema_update slept t) = tc_last_qid t"
  by (simp_all add: mlfq_sleep_ema_update_def Let_def)

text \<open>The clamp to 64 ms comes first, so the long-sleep branch is never taken.\<close>

lemma clamp_below_long:
  "\<not> MLFQ_LONG_SLEEP_NS < (if 64 * NSEC_PER_MSEC < x then 64 * NSEC_PER_MSEC else x)"
proof (cases "64 * NSEC_PER_MSEC < x")
  case True
  then show ?thesis by (simp add: const_defs)
next
  case False
  moreover have "(64 * NSEC_PER_MSEC :: u64) < MLFQ_LONG_SLEEP_NS" by (simp add: const_defs)
  ultimately show ?thesis by simp
qed

lemma sleep_ema_gpu: "tc_gpu_submit (mlfq_sleep_ema_update slept t) = tc_gpu_submit t"
  using clamp_below_long [of slept] by (simp add: mlfq_sleep_ema_update_def Let_def)

lemma ratio_bound: "(ucast (if (1024 :: u64) < x then 1024 else x) :: u32) \<le> 1024"
proof -
  have "unat (if (1024 :: u64) < x then 1024 else x) \<le> 1024"
    by (auto simp: word_less_nat_alt)
  then show ?thesis
    by (simp add: word_le_nat_alt unsigned_ucast_eq take_bit_nat_eq_self)
qed

lemma sleep_ema_ratio: "tc_sleep_var_ratio (mlfq_sleep_ema_update slept t) \<le> 1024"
  unfolding mlfq_sleep_ema_update_def Let_def using ratio_bound by simp

lemma sleep_ema_working:
  assumes w: "working r p (t, s)"
  shows "working r p (mlfq_sleep_ema_update slept t, s)"
proof (rule working_task [OF w])
  show "task_inv r (mlfq_sleep_ema_update slept t)"
    using working_inv [OF w] sleep_ema_ratio
    by (simp add: task_inv_def queue_ok_def sleep_ema_fields sleep_ema_gpu)
qed (simp_all add: sleep_ema_fields)

lemma stopping_inv:
  assumes fit: "gauge_consts_fit r" and inv0: "sched_inv r s0"
  shows "sched_inv r (mlfq_stopping r cb p b s0)"
proof -
  define s where "s = maybe_adapt r cb s0"
  have inv: "sched_inv r s" unfolding s_def by (rule maybe_adapt_inv [OF inv0])
  show ?thesis
  proof (cases "sd_tasks s (ts_pid p)")
    case None
    then show ?thesis
      using inv by (simp add: mlfq_stopping_def s_def [symmetric] sched_inv_same [OF same_parts_upd(4)])
  next
    case (Some t)
    define d where "d = (if tc_last_run_at t \<noteq> 0 \<and> mlfq_time_before (tc_last_run_at t) (cb_now cb)
       then cb_now cb - tc_last_run_at t else 0)"
    have "working r p (t\<lparr>tc_last_run_at := 0\<rparr>, s)"
      by (rule working_same_task [OF _ working_stored [OF inv Some]]) (simp add: same_task_def)
    then have w1: "working r p (if d \<noteq> 0 then charge_run r cb p b d (t\<lparr>tc_last_run_at := 0\<rparr>, s)
        else (t\<lparr>tc_last_run_at := 0\<rparr>, s))"
      using charge_run_working [OF fit] by simp
    define x where "x = (if d \<noteq> 0 then charge_run r cb p b d (t\<lparr>tc_last_run_at := 0\<rparr>, s)
        else (t\<lparr>tc_last_run_at := 0\<rparr>, s))"
    have wx: "working r p (fst x, snd x)" using w1 by (simp add: x_def)
    have "working r p (cadence (cb_now cb) (fst x), snd x)"
      using wx sleep_ema_working [OF wx] by (simp add: cadence_def Let_def)
    then have "working r p (if \<not> b then cadence (cb_now cb) (fst x) else fst x, snd x)"
      using wx by simp
    then have w3: "working r p ((if \<not> b then cadence (cb_now cb) (fst x) else fst x)
        \<lparr>tc_pending_valid := 0, tc_last_sleep_at := y\<rparr>, snd x)" for y
      by (rule working_same_task [rotated]) (simp add: same_task_def)
    have cpus: "working r p (u, case k of None \<Rightarrow> z | Some c \<Rightarrow> if b then z else z\<lparr>sd_cpus := (sd_cpus z)(c := (sd_cpus z c)\<lparr>
             running_queue := 0, running_pid := 0, running_deadline := 0, run_start_at := 0,
             running_gpu_submit := 0\<rparr>)\<rparr>)" if "working r p (u, z)" for u z k
      using that by (auto simp: working_iff split: option.split)
    have st: "working r p (u, upd_stats f z)" "working r p (u, mlfq_q1_set c v z)"
      if "working r p (u, z)" for u z f c v
      using working_parts [OF that] by simp_all
    show ?thesis
      unfolding mlfq_stopping_def s_def [symmetric] sched_inv_same [OF same_parts_upd(4)] Let_def Some
        option.simps d_def [symmetric] case_prod_beta x_def [symmetric]
      by (rule working_set_task [OF st(1) [OF cpus [OF st(2) [OF w3]]]])
  qed
qed

definition unowned :: "sched \<Rightarrow> task_struct \<Rightarrow> bool" where
  "unowned s p \<longleftrightarrow> (case sd_tasks s (ts_pid p) of None \<Rightarrow> True | Some t \<Rightarrow> \<not> owned t)"

lemma reset_working:
  assumes inv: "sched_inv r s" and "sd_tasks s (ts_pid p) = Some t" and "\<not> owned t"
  shows "working r p (mlfq_reset_task_ctx p now t, s)"
proof (rule working_task [OF working_stored [OF inv assms(2)] reset_fields(1)])
  have "record_ok t" using inv assms(2) by (auto simp: sched_inv_def intro: gauges_inv_record)
  then have "tc_last_qid t = 0" using assms(3) by (simp add: record_ok_def)
  then show "tc_last_qid (mlfq_reset_task_ctx p now t) = tc_last_qid t" by (simp add: reset_fields)
  show "tc_last_llc (mlfq_reset_task_ctx p now t) = tc_last_llc t"
    using assms(3) reset_fields(2) [of p now t] by (simp add: owned_def)
qed

lemma init_task_inv:
  assumes inv: "sched_inv r s" and "unowned s p"
  shows "sched_inv r (snd (mlfq_init_task cb p s))"
proof (cases "sd_tasks s (ts_pid p)")
  case None
  have "working r p (mlfq_reset_task_ctx p (cb_now cb) task_ctx_zero, s)"
    by (rule working_fresh [OF inv None]) (simp_all add: reset_fields)
  then show ?thesis using None inv by (simp add: mlfq_init_task_def working_set_task)
next
  case (Some t)
  then have "working r p (mlfq_reset_task_ctx p (cb_now cb) t, s)"
    using assms by (intro reset_working) (auto simp: unowned_def)
  then show ?thesis using Some by (simp add: mlfq_init_task_def working_set_task)
qed

lemma enable_inv:
  assumes inv: "sched_inv r s" and "unowned s p"
  shows "sched_inv r (mlfq_enable cb p s)"
proof (cases "sd_tasks s (ts_pid p)")
  case None
  then show ?thesis using inv by (simp add: mlfq_enable_def)
next
  case (Some t)
  then have "working r p (mlfq_reset_task_ctx p (cb_now cb) t, s)"
    using assms by (intro reset_working) (auto simp: unowned_def)
  then show ?thesis using Some by (simp add: mlfq_enable_def working_set_task)
qed

lemma quiescent_inv:
  assumes inv: "sched_inv r s"
  shows "sched_inv r (mlfq_quiescent p s)"
proof (cases "sd_tasks s (ts_pid p)")
  case None
  then show ?thesis using inv by (simp add: mlfq_quiescent_def)
next
  case (Some t)
  have "working r p (runnable_exit (t, s))" by (rule exit_working [OF working_stored [OF inv Some]])
  then show ?thesis using Some by (simp add: mlfq_quiescent_def case_prod_beta working_def)
qed

lemma gauges_inv_remove:
  assumes "gauges_inv ts g" and "case ts p of None \<Rightarrow> True | Some t \<Rightarrow> \<not> owned t"
  shows "gauges_inv (ts(p := None)) g"
proof -
  have "llc_key (ts(p := None)) = llc_key ts" "queue_key (ts(p := None)) = queue_key ts"
    using assms(2) by (auto simp: llc_key_def queue_key_def split: option.splits)
  then show ?thesis using assms(1) by (auto simp: gauges_inv_def)
qed

lemma exit_task_inv:
  assumes inv: "sched_inv r s" and "unowned s p"
  shows "sched_inv r (mlfq_exit_task p s)"
proof (cases "sd_tasks s (ts_pid p)")
  case None
  then show ?thesis using inv by (simp add: mlfq_exit_task_def)
next
  case (Some t)
  have removed: "sched_inv r (s'\<lparr>sd_tasks := (sd_tasks s')(ts_pid p := None)\<rparr>)" if "same_parts s s'" for s'
  proof -
    have "gauges_inv ((sd_tasks s)(ts_pid p := None)) (sd_run s)"
      using assms gauges_inv_remove [of "sd_tasks s" "sd_run s" "ts_pid p"]
      by (simp add: sched_inv_def unowned_def)
    then show ?thesis using inv that by (simp add: sched_inv_def same_parts_def)
  qed
  show ?thesis
    using Some removed [OF same_parts_refl] removed [OF same_parts_upd(3)]
    by (simp add: mlfq_exit_task_def Let_def)
qed

lemma update_idle_parts: "same_parts s (mlfq_update_idle r cpu idle s)"
  by (simp add: same_parts_def mlfq_update_idle_def Let_def split: option.split)

lemma parts_through [simp]:
  "same_parts s (add_call c s') \<longleftrightarrow> same_parts s s'"
  "same_parts s (upd_stats f s') \<longleftrightarrow> same_parts s s'"
  "same_parts s (mlfq_q1_set cpu b s') \<longleftrightarrow> same_parts s s'"
  "same_parts s (mlfq_op_lat_charge cb op s') \<longleftrightarrow> same_parts s s'"
  "same_parts s (s'\<lparr>sd_rtdl := x\<rparr>) \<longleftrightarrow> same_parts s s'"
  by (simp_all add: same_parts_def add_call_def upd_stats_def mlfq_q1_set_def mlfq_op_lat_charge_def Let_def)

lemma cpu_release_parts: "same_parts s (mlfq_cpu_release cb b cpu s)"
  by (simp add: mlfq_cpu_release_def Let_def)

lemma rtdl_drain_parts: "same_parts s (mlfq_rtdl_drain r a b nr cpu now s') \<longleftrightarrow> same_parts s s'"
  by (simp add: mlfq_rtdl_drain_def Let_def split: option.split)

lemma sched_switch_parts: "same_parts s (mlfq_sched_switch r cb a b nr prio s)"
  by (simp add: mlfq_sched_switch_def Let_def rtdl_drain_parts split: option.split)

lemma gpu_inc_le: "x \<le> 4 \<Longrightarrow> (if x < 4 then x + 1 else 4) \<le> (4 :: u32)"
proof -
  assume "x \<le> 4"
  have "x + 1 \<le> 4" if "x < 4" using that by (rule inc_le)
  then show ?thesis by simp
qed

lemma gpu_submit_inv:
  assumes inv: "sched_inv r s"
  shows "sched_inv r (mlfq_gpu_submit_inc cb p bits s)"
proof (cases "sd_tasks s (ts_pid p)")
  case None
  then show ?thesis using inv by (simp add: mlfq_gpu_submit_inc_def)
next
  case (Some t)
  have w: "working r p (t, s)" by (rule working_stored [OF inv Some])
  have m: "same_parts s (s\<lparr>sd_gpu_trace_mask := x\<rparr>)"
    "same_parts s (s\<lparr>sd_gpu_trace_mask := x, sd_gpu_submit_total := y\<rparr>)" for x y
    by (simp_all add: same_parts_def)
  have "working r p (t\<lparr>tc_last_gpu_submit_at := x,
      tc_gpu_submit := (if tc_gpu_submit t < 4 then tc_gpu_submit t + 1 else 4), tc_flags := y\<rparr>, s)" for x y
    by (rule working_task [OF w])
      (use working_inv [OF w] gpu_inc_le [of "tc_gpu_submit t"] in \<open>auto simp: task_inv_def queue_ok_def\<close>)
  from working_set_task [OF working_parts [OF this m(2)]] show ?thesis
    using Some inv sched_inv_same [OF m(1), of r] by (simp add: mlfq_gpu_submit_inc_def Let_def)
qed

lemma tracepoint_inv:
  assumes "sched_inv r s"
  shows "sched_inv r (mlfq_amdgpu_cs cb cur s)" "sched_inv r (mlfq_amdgpu_cs_ioctl cb cur s)"
    "sched_inv r (mlfq_gpu_sched_queue cb cur s)"
  using gpu_submit_inv [OF assms] assms by (simp_all add: tracepoint_defs split: option.split)

end
