(* ===== verification/SchedInit.thy ===== *)
theory SchedInit
  imports SchedSafe
begin

text \<open>
  The program at its start: the zeroed sections and maps, and \<open>mlfq_init\<close> of
  \<open>src/scx/src/bpf/main.bpf.c\<close>. The lemmas say exactly when the start succeeds, and that a
  successful one establishes the invariant.
\<close>

section \<open>The zeroed program\<close>

definition mlfq_stats_zero :: mlfq_stats where
  "mlfq_stats_zero = \<lparr>st_total_runtime = 0, st_on_cpu = 0, st_q1_placements = 0, st_q2_placements = 0,
     st_q3_placements = 0, st_promotions = 0, st_demotions = 0, st_aging_boosts = 0,
     st_short_sleep_boosts = 0, st_preemption_kicks = 0, st_cpuperf_boosts = 0, st_steals = 0,
     st_steals_same_llc = 0, st_steals_cross_llc = 0, st_keep_running = 0, st_enq_no_tctx = 0,
     st_enq_bad_weight = 0, st_enq_no_deadline = 0, st_enq_fastpath = 0, st_enq_regular = 0,
     st_enq_pinned_idle = 0, st_enq_pinned_busy = 0, st_enq_pinned_global = 0, st_tree_inference = 0,
     st_tree_fallback = 0, st_tree_disagree = 0, st_tree_samples_emitted = 0,
     st_tree_samples_dropped = 0, st_rt_takeovers = 0, st_rt_evacuations = 0, st_rt_redirects = 0,
     st_rt_reenqs = 0\<rparr>"

definition adapt_zero :: adapt_sys where
  "adapt_zero = \<lparr>ad_gauge = \<lparr>sg_lat_ema = 0, sg_rate_ema = 0, sg_step_at = 0, sg_wait_total = 0,
       sg_wait_count = 0, sg_adapt_steps = 0\<rparr>,
     ad_state = \<lparr>as_shift_fp = 0, as_t_l_eff_ns = 0, as_t_h_eff_ns = 0, as_t_int_eff_ns = 0,
       as_t_bnd_eff_ns = 0, as_guard_eff_ns = 0\<rparr>,
     ad_wakeups = (\<lambda>_. \<lparr>wk_total = 0, wk_window = 0\<rparr>)\<rparr>"

text \<open>An array map has all its entries from the start; the task storage has none.\<close>

definition sched_zero :: "tree_map \<Rightarrow> sched" where
  "sched_zero m = \<lparr>sd_nr_cpu_ids = 0, sd_steal_scan = 0, sd_idle_count = 0,
     sd_run = \<lparr>rg_llc = (\<lambda>_. 0), rg_queue = (\<lambda>_. 0)\<rparr>, sd_llc_idle = (\<lambda>_. 0),
     sd_stats = mlfq_stats_zero, sd_adapt = adapt_zero, sd_kernel = \<lparr>ctrl_meta = 0, tree_map = m\<rparr>,
     sd_sample_last_at = 0, sd_samples = [], sd_tasks = Map.empty,
     sd_queues = (\<lambda>q. if q \<le> 3 then Some \<lparr>qc_clock = 0, qc_max_slice_ns = 0\<rparr> else None),
     sd_cpus = (\<lambda>_. cpu_state_zero), sd_q1_occ = (\<lambda>_. False), sd_rtdl = (\<lambda>_. rtdl_state_zero),
     sd_op_lat = (\<lambda>_ _ _. 0), sd_primary_bitmap = Some (replicate MLFQ_BITMAP_WORDS 0),
     sd_llc_bitmaps = (\<lambda>l. if unat l < MLFQ_MAX_LLCS then Some (replicate MLFQ_BITMAP_WORDS 0) else None),
     sd_llc_cpus = (\<lambda>l. if unat l < MLFQ_MAX_LLCS then Some empty_cpu_list else None),
     sd_gpu_submit_total = 0, sd_gpu_trace_mask = 0, sd_calls = []\<rparr>"

text \<open>The read-only data as the program declares it, before the front-end writes it.\<close>

definition rodata_declared :: rodata where
  "rodata_declared = \<lparr>
     mlfq_q1_slice_ns = MLFQ_Q1_SLICE_NS, mlfq_q2_slice_ns = MLFQ_Q2_SLICE_NS,
     mlfq_q3_slice_ns = MLFQ_Q3_SLICE_NS, mlfq_budget_max_ns = MLFQ_BUDGET_MAX_NS,
     mlfq_alpha = MLFQ_ALPHA, mlfq_t_l_ns = MLFQ_T_L_NS, mlfq_t_h_ns = MLFQ_T_H_NS,
     mlfq_ema_half_life_ns = MLFQ_EMA_HALF_LIFE_NS, mlfq_aging_period_ns = MLFQ_AGING_PERIOD_NS,
     mlfq_short_sleep_ns = MLFQ_SHORT_SLEEP_NS,
     mlfq_short_sleep_rate_limit_ns = MLFQ_SHORT_SLEEP_RATE_LIMIT_NS,
     mlfq_hysteresis_sleep_ns = MLFQ_HYSTERESIS_SLEEP_NS, mlfq_long_sleep_ns = MLFQ_LONG_SLEEP_NS,
     mlfq_sameq_preempt_min_run_ns = MLFQ_SAMEQ_PREEMPT_MIN_RUN_NS,
     mlfq_preempt_slice_ns = MLFQ_PREEMPT_SLICE_NS,
     mlfq_q1_quota = MLFQ_Q1_QUOTA, mlfq_q2_quota = MLFQ_Q2_QUOTA,
     mlfq_dispatch_max_batch = MLFQ_DISPATCH_MAX_BATCH,
     mlfq_rtdl_drain_interval_ns = MLFQ_RTDL_DRAIN_INTERVAL_NS,
     mlfq_tree_t_int_ns = MLFQ_TREE_T_INT_NS, mlfq_tree_t_bound_ns = MLFQ_TREE_T_BOUND_NS,
     mlfq_adapt_enabled = True, mlfq_primary_all = True, mlfq_nr_llcs = 0,
     mlfq_llc_has_primary = replicate MLFQ_MAX_LLCS 0, mlfq_cpu_llc = replicate MLFQ_MAX_CPUS 0,
     mlfq_idle_tracking = 0, mlfq_smt_on = False, mlfq_cpu_sibling = replicate MLFQ_MAX_CPUS 0,
     mlfq_cpu_core = replicate MLFQ_MAX_CPUS 0, mlfq_llc_largest = of_nat MLFQ_MAX_LLCS\<rparr>"

section \<open>The start\<close>

definition E2BIG :: i32 where
  "E2BIG = 7"

definition EEXIST :: i32 where
  "EEXIST = 17"

definition EINVAL :: i32 where
  "EINVAL = 22"

text \<open>
  The creation of the queues, CPU by CPU; a queue that exists already is kept. The first
  failure ends the loop, as the id and the error.
\<close>

definition queue_dsqs :: "nat \<Rightarrow> u64 list" where
  "queue_dsqs nr = concat (map (\<lambda>cpu. map (\<lambda>qid. mlfq_dsq_id qid (of_nat cpu)) [1, 2, 3]) [0..<nr])"

definition dsq_fails :: "(u64 \<Rightarrow> i32) \<Rightarrow> u64 \<Rightarrow> bool" where
  "dsq_fails create_dsq d \<longleftrightarrow> create_dsq d <s 0 \<and> create_dsq d \<noteq> - EEXIST"

definition create_dsqs :: "(u64 \<Rightarrow> i32) \<Rightarrow> nat \<Rightarrow> (u64 \<times> i32) option" where
  "create_dsqs create_dsq nr = (case find (dsq_fails create_dsq) (queue_dsqs nr) of
     None \<Rightarrow> None | Some d \<Rightarrow> Some (d, create_dsq d))"

text \<open>The request slice of every queue, up to the first failed lookup.\<close>

fun init_slices :: "rodata \<Rightarrow> u8 list \<Rightarrow> sched \<Rightarrow> u8 option \<times> sched" where
  "init_slices r [] s = (None, s)"
| "init_slices r (key # keys) s =
     (case sd_queues s key of None \<Rightarrow> (Some key, s)
      | Some q \<Rightarrow> init_slices r keys
          (s\<lparr>sd_queues := (sd_queues s)(key \<mapsto> q\<lparr>qc_max_slice_ns := mlfq_queue_slice r key\<rparr>)\<rparr>))"

definition clamp_scan :: "u32 \<Rightarrow> u32" where
  "clamp_scan nr = (if (ucast nr :: u64) < MLFQ_STEAL_SCAN_MAX then nr else ucast MLFQ_STEAL_SCAN_MAX)"

definition init_fail :: "i32 \<Rightarrow> sched_error \<Rightarrow> sched \<Rightarrow> i32 \<times> sched" where
  "init_fail ret e s = (ret, add_call (Scx_error e) s)"

definition mlfq_init :: "rodata \<Rightarrow> u32 \<Rightarrow> (u64 \<Rightarrow> i32) \<Rightarrow> u64 \<Rightarrow> sched \<Rightarrow> i32 \<times> sched" where
  "mlfq_init r nr create_dsq local_on s =
     (let s = s\<lparr>sd_nr_cpu_ids := unat nr\<rparr>
      in if MLFQ_MAX_CPUS < unat nr then init_fail (- E2BIG) (Too_many_cpus nr) s
         else if nr = 0 then init_fail (- EINVAL) No_possible_cpus s
         else let s = s\<lparr>sd_steal_scan := clamp_scan nr\<rparr>
              in case create_dsqs create_dsq (unat nr) of
                Some (d, ret) \<Rightarrow> init_fail ret (Dsq_create_failed d ret) s
              | None \<Rightarrow>
                if mlfq_dispatch_max_batch r \<le> mlfq_q1_quota r + mlfq_q2_quota r
                then init_fail (- EINVAL) (No_Q3_share (mlfq_q1_quota r) (mlfq_q2_quota r) (mlfq_dispatch_max_batch r)) s
                else if mlfq_tree_t_bound_ns r \<le> mlfq_tree_t_int_ns r
                then init_fail (- EINVAL) (T_INT_above_T_BOUND (mlfq_tree_t_int_ns r) (mlfq_tree_t_bound_ns r)) s
                else if local_on \<le> mlfq_dsq_id (ucast MLFQ_NR_QUEUES) (nr - 1)
                then init_fail (- EINVAL) Dsq_space_overflow s
                else case init_slices r [1, 2, 3] s of
                  (Some key, s) \<Rightarrow> init_fail (- EINVAL) (Queue_map_failed key) s
                | (None, s) \<Rightarrow> (0, s\<lparr>sd_adapt := (sd_adapt s)\<lparr>ad_state := adapt_seed r\<rparr>\<rparr>))"

section \<open>When the start succeeds\<close>

lemma init_slices_present:
  assumes "queues_present s"
  shows "\<exists>s'. init_slices r [1, 2, 3] s = (None, s') \<and> queues_present s'
    \<and> sd_tasks s' = sd_tasks s \<and> sd_run s' = sd_run s \<and> sd_adapt s' = sd_adapt s \<and> sd_cpus s' = sd_cpus s
    \<and> sd_nr_cpu_ids s' = sd_nr_cpu_ids s \<and> sd_steal_scan s' = sd_steal_scan s
    \<and> (\<forall>q qc. sd_queues s' q = Some qc \<longrightarrow> qc_max_slice_ns qc = mlfq_queue_slice r q
         \<or> q \<notin> {1, 2, 3} \<and> sd_queues s q = Some qc)"
  using assms by (auto simp: queues_present_def)

lemma create_dsqs_fails: "create_dsqs f nr = Some (d, ret) \<Longrightarrow> ret \<noteq> 0"
  by (auto simp: create_dsqs_def dsq_fails_def find_Some_iff split: option.splits)

lemma init_result:
  assumes "queues_present s"
  shows "fst (mlfq_init r nr create_dsq local_on s) = 0 \<longleftrightarrow>
      1 \<le> unat nr \<and> unat nr \<le> MLFQ_MAX_CPUS
    \<and> create_dsqs create_dsq (unat nr) = None
    \<and> mlfq_q1_quota r + mlfq_q2_quota r < mlfq_dispatch_max_batch r
    \<and> mlfq_tree_t_int_ns r < mlfq_tree_t_bound_ns r
    \<and> mlfq_dsq_id 3 (nr - 1) < local_on"
proof -
  have errs: "- E2BIG \<noteq> 0" "- EINVAL \<noteq> 0" by (simp_all add: E2BIG_def EINVAL_def)
  have q3: "(ucast MLFQ_NR_QUEUES :: u8) = 3" by (simp add: const_defs)
  have qs: "queues_present (s\<lparr>sd_nr_cpu_ids := a, sd_steal_scan := b\<rparr>)" for a b
    using assms by (simp add: queues_present_def)
  define s1 where "s1 = s\<lparr>sd_nr_cpu_ids := unat nr, sd_steal_scan := clamp_scan nr\<rparr>"
  obtain s' where s': "init_slices r [1, 2, 3] s1 = (None, s')"
    using init_slices_present [OF qs] unfolding s1_def by blast
  have nz: "nr \<noteq> 0 \<longleftrightarrow> 1 \<le> unat nr" by (metis less_one not_le unat_eq_zero)
  show ?thesis
    unfolding mlfq_init_def Let_def q3 init_fail_def
    using errs nz create_dsqs_fails [of create_dsq "unat nr"] s'
    by (auto simp: s1_def not_le del: init_slices.simps split: option.split)
qed

lemma dsqs_created: "create_dsqs create_dsq nr = None \<longleftrightarrow> list_all (\<lambda>d. \<not> dsq_fails create_dsq d) (queue_dsqs nr)"
  by (auto simp: create_dsqs_def find_None_iff list_all_iff find_Some_iff split: option.split dest: nth_mem)

text \<open>
  The program starts exactly when the number of CPUs is in range, no queue fails to be created,
  the 32-bit sum of the quotas leaves a share of the batch to Q3, the tree band is ordered and
  the highest queue id stays below the kernel's range; every other start returns an error and
  leaves the adaptation unseeded.
\<close>

theorem init_ok_iff:
  assumes "queues_present s"
  shows "fst (mlfq_init r nr create_dsq local_on s) = 0 \<longleftrightarrow>
      1 \<le> unat nr \<and> unat nr \<le> MLFQ_MAX_CPUS
    \<and> list_all (\<lambda>d. \<not> dsq_fails create_dsq d) (queue_dsqs (unat nr))
    \<and> mlfq_q1_quota r + mlfq_q2_quota r < mlfq_dispatch_max_batch r
    \<and> mlfq_tree_t_int_ns r < mlfq_tree_t_bound_ns r
    \<and> mlfq_dsq_id 3 (nr - 1) < local_on"
  unfolding dsqs_created [symmetric] by (rule init_result [OF assms])

end
