(* ===== verification/SelectCpu.thy ===== *)
theory SelectCpu
  imports SchedState
begin

text \<open>
  The CPU selection of \<open>src/scx/src/bpf/select_cpu.bpf.c\<close>: the synchronous handoff, the Q3
  isolation path and the preference order of the idle scans. The kernel's idle marks are a
  parameter, a state \<open>'k\<close> with the test-and-clear of one CPU and the kernel's own scan
  (\<open>idle_ops\<close>). The theorems say that a call claims at most one idle mark and never drops one,
  and that the CPU it returns is in the affinity of the task.
\<close>

section \<open>The kernel's idle marks\<close>

text \<open>
  \<open>pick_idle\<close> is \<open>scx_bpf_pick_idle_cpu\<close> on the affinity of the task, with the flag
  \<open>SCX_PICK_IDLE_CORE\<close> or none; its result is negative when it finds no idle CPU.
\<close>

record 'k idle_ops =
  claim_idle :: "i32 \<Rightarrow> 'k \<Rightarrow> bool \<times> 'k"
  pick_idle :: "task_struct \<Rightarrow> bool \<Rightarrow> 'k \<Rightarrow> i32 \<times> 'k"

definition try_cpu :: "'k idle_ops \<Rightarrow> bool \<Rightarrow> i32 \<Rightarrow> 'k \<Rightarrow> i32 option \<times> 'k" where
  "try_cpu ops ok cpu k =
     (if ok then case claim_idle ops cpu k of (won, k) \<Rightarrow> (if won then Some cpu else None, k)
      else (None, k))"

fun first_idle :: "'k idle_ops \<Rightarrow> (i32 \<Rightarrow> bool) \<Rightarrow> nat list \<Rightarrow> 'k \<Rightarrow> i32 option \<times> 'k" where
  "first_idle ops ok [] k = (None, k)"
| "first_idle ops ok (c # cs) k =
     (case try_cpu ops (ok (of_nat c)) (of_nat c) k of
        (Some cpu, k) \<Rightarrow> (Some cpu, k)
      | (None, k) \<Rightarrow> first_idle ops ok cs k)"

definition kernel_pick :: "'k idle_ops \<Rightarrow> task_struct \<Rightarrow> bool \<Rightarrow> 'k \<Rightarrow> i32 option \<times> 'k" where
  "kernel_pick ops p core k = (case pick_idle ops p core k of (cpu, k) \<Rightarrow> (if 0 \<le>s cpu then Some cpu else None, k))"

text \<open>Steps tried in order until one selects a CPU.\<close>

fun run_steps :: "('k \<Rightarrow> i32 option \<times> 'k) list \<Rightarrow> 'k \<Rightarrow> i32 option \<times> 'k" where
  "run_steps [] k = (None, k)"
| "run_steps (f # fs) k = (case f k of (Some cpu, k) \<Rightarrow> (Some cpu, k) | (None, k) \<Rightarrow> run_steps fs k)"

section \<open>Helpers\<close>

definition mlfq_get_primary_bitmap :: "rodata \<Rightarrow> sched \<Rightarrow> u64 list option" where
  "mlfq_get_primary_bitmap r s = (if mlfq_primary_all r then None else sd_primary_bitmap s)"

definition mlfq_is_primary :: "u64 list option \<Rightarrow> i32 \<Rightarrow> bool" where
  "mlfq_is_primary bm cpu = (case bm of None \<Rightarrow> True | Some b \<Rightarrow> mlfq_bitmap_test_cpu b cpu)"

definition mlfq_pick_idle_in_bitmap ::
  "'k idle_ops \<Rightarrow> u64 list option \<Rightarrow> task_struct \<Rightarrow> bool \<Rightarrow> u64 list option \<Rightarrow> 'k \<Rightarrow> i32 option \<times> 'k" where
  "mlfq_pick_idle_in_bitmap ops bm p require_primary primary_bm k =
     (case bm of None \<Rightarrow> (None, k)
      | Some b \<Rightarrow> first_idle ops (\<lambda>cand. unat cand < MLFQ_MAX_CPUS \<and> mlfq_bitmap_test_cpu b cand
            \<and> ts_cpus p cand \<and> (require_primary \<longrightarrow> mlfq_is_primary primary_bm cand)) bitmap_order k)"

definition mlfq_pick_idle_primary ::
  "'k idle_ops \<Rightarrow> sched \<Rightarrow> task_struct \<Rightarrow> u64 list option \<Rightarrow> 'k \<Rightarrow> i32 option \<times> 'k" where
  "mlfq_pick_idle_primary ops s p primary_bm =
     mlfq_pick_idle_in_bitmap ops (sd_primary_bitmap s) p False primary_bm"

definition is_smt_sibling_q1_busy :: "rodata \<Rightarrow> sched \<Rightarrow> i32 \<Rightarrow> bool" where
  "is_smt_sibling_q1_busy r s cpu =
     (if \<not> mlfq_smt_on r \<or> cpu <s 0 \<or> of_nat MLFQ_MAX_CPUS \<le>s cpu then False
      else let sib = mlfq_cpu_sibling r ! unat cpu
           in if MLFQ_MAX_CPUS \<le> unat sib \<or> sib = cpu then False else mlfq_q1_is_occupied s sib)"

definition mlfq_interactive_on_wakeup :: "rodata \<Rightarrow> task_struct \<Rightarrow> task_ctx \<Rightarrow> u64 \<Rightarrow> bool" where
  "mlfq_interactive_on_wakeup r p t now =
     (let slept = (if tc_last_sleep_at t \<noteq> 0 \<and> mlfq_time_before (tc_last_sleep_at t) now
                   then now - tc_last_sleep_at t else 0)
      in tc_queue t = 1 \<or> ts_policy p \<noteq> MLFQ_SCHED_IDLE
           \<and> mlfq_ss_boost_pending t slept (ts_in_iowait p) now (mlfq_short_sleep_ns r)
               (mlfq_short_sleep_rate_limit_ns r))"

definition is_cpu_available_for_q3 :: "rodata \<Rightarrow> sched \<Rightarrow> task_struct \<Rightarrow> bool \<Rightarrow> i32 \<Rightarrow> bool" where
  "is_cpu_available_for_q3 r s p strict_smt cpu =
     (if cpu <s 0 \<or> of_nat (sd_nr_cpu_ids s) \<le>s cpu then False
      else if \<not> ts_cpus p cpu then False
      else if mlfq_cpu_occupied s cpu then False
      else \<not> (strict_smt \<and> is_smt_sibling_q1_busy r s cpu))"

section \<open>The steps\<close>

text \<open>The two scans of the isolation path look at the first 64 and the first 32 CPUs.\<close>

definition step_q3 :: "'k idle_ops \<Rightarrow> rodata \<Rightarrow> sched \<Rightarrow> task_struct \<Rightarrow> bool \<Rightarrow> nat \<Rightarrow> 'k \<Rightarrow> i32 option \<times> 'k" where
  "step_q3 ops r s p strict cap =
     first_idle ops (is_cpu_available_for_q3 r s p strict) [0..<min cap (min MLFQ_MAX_CPUS (sd_nr_cpu_ids s))]"

definition step_prev ::
  "'k idle_ops \<Rightarrow> rodata \<Rightarrow> sched \<Rightarrow> u64 list option \<Rightarrow> bool \<Rightarrow> i32 \<Rightarrow> 'k \<Rightarrow> i32 option \<times> 'k" where
  "step_prev ops r s bm interactive prev =
     try_cpu ops ((\<not> interactive \<or> mlfq_is_primary bm prev) \<and> \<not> is_smt_sibling_q1_busy r s prev) prev"

definition step_sibling ::
  "'k idle_ops \<Rightarrow> rodata \<Rightarrow> sched \<Rightarrow> task_struct \<Rightarrow> bool \<Rightarrow> i32 \<Rightarrow> 'k \<Rightarrow> i32 option \<times> 'k" where
  "step_sibling ops r s p interactive prev k =
     (if \<not> interactive \<and> mlfq_smt_on r \<and> 0 \<le>s prev \<and> unat prev < MLFQ_MAX_CPUS
      then let sib = mlfq_cpu_sibling r ! unat prev
           in try_cpu ops (sib \<noteq> prev \<and> unat sib < MLFQ_MAX_CPUS \<and> ts_cpus p sib
                           \<and> \<not> is_smt_sibling_q1_busy r s sib) sib k
      else (None, k))"

definition saturated :: "rodata \<Rightarrow> sched \<Rightarrow> i32 \<Rightarrow> bool" where
  "saturated r s prev \<longleftrightarrow> mlfq_idle_tracking r \<noteq> 0 \<and> sd_idle_count s = 0 \<and> \<not> mlfq_cpu_occupied s prev"

definition waker_llc_of :: "rodata \<Rightarrow> i32 \<Rightarrow> u32" where
  "waker_llc_of r waker_cpu =
     (if 0 < mlfq_nr_llcs r \<and> unat waker_cpu < MLFQ_MAX_CPUS
         \<and> unat (mlfq_cpu_llc r ! unat waker_cpu) < MLFQ_MAX_LLCS
         \<and> mlfq_cpu_llc r ! unat waker_cpu < mlfq_nr_llcs r
      then mlfq_cpu_llc r ! unat waker_cpu else of_nat MLFQ_MAX_LLCS)"

definition step_largest ::
  "'k idle_ops \<Rightarrow> rodata \<Rightarrow> sched \<Rightarrow> task_struct \<Rightarrow> u64 list option \<Rightarrow> bool \<Rightarrow> u32 \<Rightarrow> 'k \<Rightarrow> i32 option \<times> 'k" where
  "step_largest ops r s p bm interactive waker_llc k =
     (let l = mlfq_llc_largest r
      in if interactive \<and> unat l < MLFQ_MAX_LLCS \<and> l < mlfq_nr_llcs r \<and> l \<noteq> waker_llc
            \<and> mlfq_llc_has_primary r ! unat l \<noteq> 0
         then mlfq_pick_idle_in_bitmap ops (sd_llc_bitmaps s l) p True bm k
         else (None, k))"

definition step_waker_llc ::
  "'k idle_ops \<Rightarrow> rodata \<Rightarrow> sched \<Rightarrow> task_struct \<Rightarrow> u64 list option \<Rightarrow> bool \<Rightarrow> u32 \<Rightarrow> 'k \<Rightarrow> i32 option \<times> 'k" where
  "step_waker_llc ops r s p bm interactive waker_llc k =
     (if unat waker_llc < MLFQ_MAX_LLCS \<and> (\<not> interactive \<or> mlfq_llc_has_primary r ! unat waker_llc \<noteq> 0)
      then if mlfq_nr_llcs r = 1
           then run_steps [kernel_pick ops p interactive, kernel_pick ops p False] k
           else mlfq_pick_idle_in_bitmap ops (sd_llc_bitmaps s waker_llc) p interactive bm k
      else (None, k))"

fun steer_walk ::
  "'k idle_ops \<Rightarrow> rodata \<Rightarrow> sched \<Rightarrow> task_struct \<Rightarrow> u64 list option \<Rightarrow> bool \<Rightarrow> u32 \<Rightarrow> nat \<Rightarrow> u64 \<Rightarrow> 'k
     \<Rightarrow> i32 option \<times> 'k" where
  "steer_walk ops r s p bm interactive waker_llc 0 visited k = (None, k)"
| "steer_walk ops r s p bm interactive waker_llc (Suc n) visited k =
     (let llc = mlfq_steer_pick_llc (rg_llc (sd_run s)) (sd_llc_idle s) (mlfq_nr_llcs r) waker_llc visited
      in if MLFQ_MAX_LLCS \<le> unat llc then (None, k)
         else case mlfq_pick_idle_in_bitmap ops (sd_llc_bitmaps s llc) p interactive bm k of
                (Some cpu, k) \<Rightarrow> (Some cpu, k)
              | (None, k) \<Rightarrow> steer_walk ops r s p bm interactive waker_llc n (visited OR push_bit (unat llc) 1) k)"

definition step_steer ::
  "'k idle_ops \<Rightarrow> rodata \<Rightarrow> sched \<Rightarrow> task_struct \<Rightarrow> u64 list option \<Rightarrow> bool \<Rightarrow> u32 \<Rightarrow> 'k \<Rightarrow> i32 option \<times> 'k" where
  "step_steer ops r s p bm interactive waker_llc k =
     (if mlfq_idle_tracking r \<noteq> 0 \<and> 1 < mlfq_nr_llcs r \<and> 0 < sd_idle_count s
      then steer_walk ops r s p bm interactive waker_llc MLFQ_STEER_LLC_MAX 0 k
      else (None, k))"

definition step_global ::
  "'k idle_ops \<Rightarrow> rodata \<Rightarrow> sched \<Rightarrow> task_struct \<Rightarrow> u64 list option \<Rightarrow> bool \<Rightarrow> 'k \<Rightarrow> i32 option \<times> 'k" where
  "step_global ops r s p bm interactive =
     (if interactive
      then if mlfq_primary_all r then run_steps [kernel_pick ops p True, kernel_pick ops p False]
           else run_steps [mlfq_pick_idle_primary ops s p bm, kernel_pick ops p False]
      else kernel_pick ops p False)"

section \<open>The callback\<close>

text \<open>The idle CPU a wakeup claims, if any, once its previous CPU is in its affinity.\<close>

definition choose_cpu ::
  "'k idle_ops \<Rightarrow> rodata \<Rightarrow> callback \<Rightarrow> sched \<Rightarrow> task_struct \<Rightarrow> task_ctx \<Rightarrow> i32 \<Rightarrow> 'k \<Rightarrow> i32 option \<times> 'k" where
  "choose_cpu ops r cb s p t prev k =
     (let bm = mlfq_get_primary_bitmap r s;
          interactive = mlfq_interactive_on_wakeup r p t (cb_now cb)
      in if tc_queue t = 3
         then run_steps [step_q3 ops r s p True 64, step_q3 ops r s p False 32] k
         else case run_steps [step_prev ops r s bm interactive prev, step_sibling ops r s p interactive prev] k of
                (Some cpu, k) \<Rightarrow> (Some cpu, k)
              | (None, k) \<Rightarrow>
                  if saturated r s prev then (None, k)
                  else let waker_llc = waker_llc_of r (cb_cpu cb)
                       in run_steps [step_largest ops r s p bm interactive waker_llc,
                                     step_waker_llc ops r s p bm interactive waker_llc,
                                     step_steer ops r s p bm interactive waker_llc,
                                     step_global ops r s p bm interactive] k)"

definition sync_wake :: "bool \<Rightarrow> task_ctx \<Rightarrow> bool" where
  "sync_wake wake_sync t \<longleftrightarrow> (wake_sync \<or> tc_flags t AND MLFQ_TF_DRM_WAKE \<noteq> 0) \<and> tc_queue t \<le> 2"

text \<open>The CPU of the waker, when the task may run there and no realtime task does.\<close>

definition handoff_cpu :: "sched \<Rightarrow> task_struct \<Rightarrow> i32 option \<Rightarrow> i32 option" where
  "handoff_cpu s p waker = (case waker of None \<Rightarrow> None
     | Some cpu \<Rightarrow> if 0 \<le>s cpu \<and> unat cpu < MLFQ_MAX_CPUS \<and> \<not> mlfq_cpu_occupied s cpu \<and> ts_cpus p cpu
                   then Some cpu else None)"

definition fix_prev :: "sched \<Rightarrow> task_struct \<Rightarrow> i32 \<Rightarrow> i32 option" where
  "fix_prev s p prev =
     (if ts_cpus p prev then Some prev
      else map_option of_nat (find (\<lambda>cpu. ts_cpus p (of_nat cpu)) [0..<sd_nr_cpu_ids s]))"

definition clear_drm :: "task_ctx \<Rightarrow> task_ctx" where
  "clear_drm t = t\<lparr>tc_flags := tc_flags t AND NOT MLFQ_TF_DRM_WAKE\<rparr>"

definition mlfq_select_cpu ::
  "'k idle_ops \<Rightarrow> rodata \<Rightarrow> callback \<Rightarrow> bool \<Rightarrow> i32 option \<Rightarrow> task_struct \<Rightarrow> i32 \<Rightarrow> 'k \<times> sched \<Rightarrow> i32 \<times> 'k \<times> sched" where
  "mlfq_select_cpu ops r cb wake_sync waker p prev = (\<lambda>(k, s).
     case sd_tasks s (ts_pid p) of None \<Rightarrow> (prev, k, s)
     | Some t \<Rightarrow>
       (case if sync_wake wake_sync t then handoff_cpu s p waker else None of
          Some cpu \<Rightarrow>
            (cpu, k, set_task p (clear_drm t)
               (add_call (Dsq_insert (ts_pid p) SCX_DSQ_LOCAL
                  (if tc_queue t = 1 then MLFQ_Q1_SLICE_NS else MLFQ_Q2_SLICE_NS) [SCX_ENQ_IMMED]) s))
        | None \<Rightarrow>
            let t = (if sync_wake wake_sync t then clear_drm t else t); t = t\<lparr>tc_wake_cpu_state := 0\<rparr>
            in case fix_prev s p prev of None \<Rightarrow> (prev, k, set_task p t s)
               | Some prev \<Rightarrow>
                 (case choose_cpu ops r cb s p t prev k of
                    (Some cpu, k) \<Rightarrow>
                      (cpu, k, set_task p (t\<lparr>tc_wake_cpu_state := MLFQ_WAKE_CPU_VALID OR MLFQ_WAKE_CPU_IDLE\<rparr>) s)
                  | (None, k) \<Rightarrow> (prev, k, set_task p t s))))"

section \<open>Claims\<close>

text \<open>The same marks with a counter of the successful claims.\<close>

definition counted_idle :: "'k idle_ops \<Rightarrow> ('k \<times> nat) idle_ops" where
  "counted_idle ops = \<lparr>
     claim_idle = (\<lambda>cpu (k, n). case claim_idle ops cpu k of (won, k) \<Rightarrow> (won, (k, if won then Suc n else n))),
     pick_idle = (\<lambda>p core (k, n). case pick_idle ops p core k of
        (cpu, k) \<Rightarrow> (cpu, (k, if 0 \<le>s cpu then Suc n else n)))\<rparr>"

text \<open>A step that claims one idle mark, of a CPU with a property, or none at all.\<close>

definition claims :: "(i32 \<Rightarrow> bool) \<Rightarrow> ('k \<times> nat \<Rightarrow> i32 option \<times> ('k \<times> nat)) \<Rightarrow> bool" where
  "claims ok f \<longleftrightarrow> (\<forall>x. case f x of (None, y) \<Rightarrow> snd y = snd x
     | (Some cpu, y) \<Rightarrow> snd y = Suc (snd x) \<and> ok cpu)"

lemma claimsD:
  "claims ok f \<Longrightarrow> f x = (None, y) \<Longrightarrow> snd y = snd x"
  "claims ok f \<Longrightarrow> f x = (Some cpu, y) \<Longrightarrow> snd y = Suc (snd x) \<and> ok cpu"
  unfolding claims_def by (metis (mono_tags, lifting) case_prod_conv option.simps(4),
    metis (mono_tags, lifting) case_prod_conv option.simps(5))

lemma claimsI:
  assumes "\<And>x y. f x = (None, y) \<Longrightarrow> snd y = snd x"
    and "\<And>x y cpu. f x = (Some cpu, y) \<Longrightarrow> snd y = Suc (snd x) \<and> ok cpu"
  shows "claims ok f"
  using assms by (auto simp: claims_def split: option.split)

lemma claims_none: "claims ok (\<lambda>k. (None, k))"
  by (simp add: claims_def)

lemma claims_try: "(c \<Longrightarrow> ok cpu) \<Longrightarrow> claims ok (try_cpu (counted_idle ops) c cpu)"
  by (auto simp: claims_def try_cpu_def counted_idle_def split: prod.split)

text \<open>A step tried after another, and a step behind a condition.\<close>

lemma claims_seq:
  assumes "claims ok f" and "claims ok g"
  shows "claims ok (\<lambda>k. case f k of (Some cpu, k) \<Rightarrow> (Some cpu, k) | (None, k) \<Rightarrow> g k)"
proof (rule claimsI)
  fix x y
  assume *: "(case f x of (Some cpu, k) \<Rightarrow> (Some cpu, k) | (None, k) \<Rightarrow> g k) = (None, y)"
  then obtain z where "f x = (None, z)" "g z = (None, y)"
    by (cases "f x"; cases "fst (f x)") auto
  then show "snd y = snd x" using claimsD(1) [OF assms(1)] claimsD(1) [OF assms(2)] by metis
next
  fix x y cpu
  assume *: "(case f x of (Some cpu, k) \<Rightarrow> (Some cpu, k) | (None, k) \<Rightarrow> g k) = (Some cpu, y)"
  show "snd y = Suc (snd x) \<and> ok cpu"
  proof (cases "fst (f x)")
    case None
    then obtain z where "f x = (None, z)" by (cases "f x") auto
    moreover from this * have "g z = (Some cpu, y)" by simp
    ultimately show ?thesis using claimsD(1) [OF assms(1)] claimsD(2) [OF assms(2)] by metis
  next
    case (Some c)
    then obtain z where "f x = (Some c, z)" by (cases "f x") auto
    then show ?thesis using * claimsD(2) [OF assms(1)] by auto
  qed
qed

lemma claims_if: "(c \<Longrightarrow> claims ok f) \<Longrightarrow> (\<not> c \<Longrightarrow> claims ok g) \<Longrightarrow> claims ok (\<lambda>k. if c then f k else g k)"
  by (cases c) simp_all

lemma claims_guard: "(c \<Longrightarrow> claims ok f) \<Longrightarrow> claims ok (\<lambda>k. if c then f k else (None, k))"
  by (rule claims_if) (simp_all add: claims_none)

lemma claims_first:
  "(\<And>c. c \<in> set cs \<Longrightarrow> test (of_nat c) \<Longrightarrow> ok (of_nat c)) \<Longrightarrow> claims ok (first_idle (counted_idle ops) test cs)"
proof (induction cs)
  case Nil
  then show ?case by (simp add: claims_def)
next
  case (Cons c cs)
  have "first_idle (counted_idle ops) test (c # cs) = (\<lambda>k.
      case try_cpu (counted_idle ops) (test (of_nat c)) (of_nat c) k of (Some cpu, k) \<Rightarrow> (Some cpu, k)
      | (None, k) \<Rightarrow> first_idle (counted_idle ops) test cs k)"
    by (rule ext) simp
  then show ?case using Cons by (simp only:) (rule claims_seq; simp add: claims_try)
qed

lemma claims_run: "(\<And>f. f \<in> set fs \<Longrightarrow> claims ok f) \<Longrightarrow> claims ok (run_steps fs)"
proof (induction fs)
  case Nil
  then show ?case by (simp add: claims_def)
next
  case (Cons f fs)
  have "run_steps (f # fs) = (\<lambda>k. case f k of (Some cpu, k) \<Rightarrow> (Some cpu, k) | (None, k) \<Rightarrow> run_steps fs k)"
    by (rule ext) simp
  then show ?case using Cons by (simp only:) (rule claims_seq; simp)
qed

text \<open>What the kernel documents of its scan: the CPU it picks is in the affinity of the task.\<close>

definition picks_allowed :: "'k idle_ops \<Rightarrow> task_struct \<Rightarrow> bool" where
  "picks_allowed ops p \<longleftrightarrow> (\<forall>core k. 0 \<le>s fst (pick_idle ops p core k) \<longrightarrow> ts_cpus p (fst (pick_idle ops p core k)))"

lemma claims_pick:
  assumes "\<And>cpu. picks_allowed ops p \<Longrightarrow> ts_cpus p cpu \<Longrightarrow> ok cpu" and "\<And>cpu. \<not> picks_allowed ops p \<Longrightarrow> ok cpu"
  shows "claims ok (kernel_pick (counted_idle ops) p core)"
proof (rule claimsI)
  fix x y cpu
  assume "kernel_pick (counted_idle ops) p core x = (Some cpu, y)"
  then have *: "0 \<le>s cpu" "fst (pick_idle ops p core (fst x)) = cpu" "snd y = Suc (snd x)"
    by (auto simp: kernel_pick_def counted_idle_def case_prod_beta split: if_splits)
  then show "snd y = Suc (snd x) \<and> ok cpu"
    using assms by (auto simp: picks_allowed_def)
qed (auto simp: kernel_pick_def counted_idle_def case_prod_beta split: if_splits)

text \<open>The affinity of a claimed CPU, as far as the kernel's scan keeps it.\<close>

definition kept :: "'k idle_ops \<Rightarrow> task_struct \<Rightarrow> i32 \<Rightarrow> bool" where
  "kept ops p cpu \<longleftrightarrow> (if picks_allowed ops p then ts_cpus p cpu else True)"

lemma kept_pick: "claims (kept ops p) (kernel_pick (counted_idle ops) p core)"
  by (rule claims_pick) (simp_all add: kept_def)

lemma kept_bitmap: "claims (kept ops p) (mlfq_pick_idle_in_bitmap (counted_idle ops) bm p b pbm)"
proof (cases bm)
  case None
  then show ?thesis by (simp add: mlfq_pick_idle_in_bitmap_def [abs_def] claims_none)
next
  case (Some w)
  then show ?thesis
    unfolding mlfq_pick_idle_in_bitmap_def [abs_def] by (simp add: claims_first kept_def)
qed

lemma kept_walk: "claims (kept ops p) (steer_walk (counted_idle ops) r s p bm b w n v)"
proof (induction n arbitrary: v)
  case 0
  then show ?case by (simp add: claims_def)
next
  case (Suc n)
  define llc where "llc = mlfq_steer_pick_llc (rg_llc (sd_run s)) (sd_llc_idle s) (mlfq_nr_llcs r) w v"
  have "steer_walk (counted_idle ops) r s p bm b w (Suc n) v = (\<lambda>k. if MLFQ_MAX_LLCS \<le> unat llc then (None, k)
      else case mlfq_pick_idle_in_bitmap (counted_idle ops) (sd_llc_bitmaps s llc) p b bm k of
        (Some cpu, k) \<Rightarrow> (Some cpu, k)
      | (None, k) \<Rightarrow> steer_walk (counted_idle ops) r s p bm b w n (v OR push_bit (unat llc) 1) k)"
    by (rule ext) (simp only: steer_walk.simps Let_def llc_def)
  then show ?case
    by (simp only:) (intro claims_if claims_none claims_seq kept_bitmap Suc.IH)
qed

lemma kept_sibling: "claims (kept ops p) (step_sibling (counted_idle ops) r s p b prev)"
  unfolding step_sibling_def [abs_def] Let_def
  by (intro claims_guard claims_try) (simp add: kept_def)

lemma kept_largest: "claims (kept ops p) (step_largest (counted_idle ops) r s p bm b w)"
  unfolding step_largest_def [abs_def] Let_def by (intro claims_guard kept_bitmap)

lemma kept_waker_llc: "claims (kept ops p) (step_waker_llc (counted_idle ops) r s p bm b w)"
  unfolding step_waker_llc_def [abs_def]
  by (intro claims_guard claims_if kept_bitmap claims_run) (auto simp: kept_pick)

lemma kept_steer: "claims (kept ops p) (step_steer (counted_idle ops) r s p bm b w)"
  unfolding step_steer_def [abs_def] by (intro claims_guard kept_walk)

lemma kept_global: "claims (kept ops p) (step_global (counted_idle ops) r s p bm b)"
  unfolding step_global_def [abs_def] mlfq_pick_idle_primary_def
  by (auto simp: kept_pick kept_bitmap intro!: claims_run)

lemma kept_q3: "claims (kept ops p) (step_q3 (counted_idle ops) r s p strict cap)"
  unfolding step_q3_def
  by (rule claims_first) (simp add: kept_def is_cpu_available_for_q3_def split: if_splits)

lemma kept_prev: "ts_cpus p prev \<Longrightarrow> claims (kept ops p) (step_prev (counted_idle ops) r s bm b prev)"
  unfolding step_prev_def by (rule claims_try) (simp add: kept_def)

lemma choose_kept:
  assumes "ts_cpus p prev"
  shows "claims (kept ops p) (choose_cpu (counted_idle ops) r cb s p t prev)"
  unfolding choose_cpu_def [abs_def] Let_def
  by (intro claims_if claims_seq claims_none claims_run)
    (auto simp: kept_q3 kept_prev kept_sibling kept_largest kept_waker_llc kept_steer kept_global assms)

section \<open>What a selection guarantees\<close>

lemma set_task_lookup [simp]: "sd_tasks (set_task p t s) (ts_pid p) = Some t"
  by (simp add: set_task_def)

lemma set_task_calls [simp]: "sd_calls (set_task p t s) = sd_calls s"
  by (simp add: set_task_def)

lemma idle_state_nonzero [simp]: "MLFQ_WAKE_CPU_VALID OR MLFQ_WAKE_CPU_IDLE \<noteq> 0"
  by (simp add: const_defs)

lemma fix_prev_allowed: "fix_prev s p prev = Some cpu \<Longrightarrow> ts_cpus p cpu"
  by (auto simp: fix_prev_def find_Some_iff split: if_splits)

text \<open>The four ways out of a call, with the claims made so far.\<close>

lemma select_cpu_cases:
  fixes ops :: "'k idle_ops" and r cb ws waker p prev
  defines "sel \<equiv> mlfq_select_cpu (counted_idle ops) r cb ws waker p prev"
  obtains "sd_tasks s (ts_pid p) = None" and "sel ((k, n), s) = (prev, (k, n), s)"
  | t cpu sl where "sd_tasks s (ts_pid p) = Some t" and "handoff_cpu s p waker = Some cpu" and "tc_queue t \<le> 2"
      and "sel ((k, n), s) = (cpu, (k, n), set_task p (clear_drm t)
             (add_call (Dsq_insert (ts_pid p) SCX_DSQ_LOCAL sl [SCX_ENQ_IMMED]) s))"
  | t where "sd_tasks s (ts_pid p) \<noteq> None" and "tc_wake_cpu_state t = 0" and "fix_prev s p prev = None"
      and "sel ((k, n), s) = (prev, (k, n), set_task p t s)"
  | t cpu t' k' c where "sd_tasks s (ts_pid p) = Some t" and "fix_prev s p prev = Some cpu"
      and "tc_queue t' = tc_queue t" and "tc_wake_cpu_state t' = 0"
      and "choose_cpu (counted_idle ops) r cb s p t' cpu (k, n) = (c, k')"
      and "sel ((k, n), s) = (case c of None \<Rightarrow> (cpu, k', set_task p t' s)
             | Some c \<Rightarrow> (c, k', set_task p (t'\<lparr>tc_wake_cpu_state := MLFQ_WAKE_CPU_VALID OR MLFQ_WAKE_CPU_IDLE\<rparr>) s))"
proof (cases "sd_tasks s (ts_pid p)")
  case None
  then show ?thesis by (intro that(1)) (simp_all add: sel_def mlfq_select_cpu_def)
next
  case (Some t)
  define h where "h = (if sync_wake ws t then handoff_cpu s p waker else None)"
  show ?thesis
  proof (cases h)
    case (Some cpu)
    then have "sync_wake ws t" "handoff_cpu s p waker = Some cpu" by (auto simp: h_def split: if_splits)
    then show ?thesis
      using \<open>sd_tasks s (ts_pid p) = Some t\<close> by (intro that(2)) (auto simp: sel_def mlfq_select_cpu_def sync_wake_def)
  next
    case None
    define t' where "t' = (if sync_wake ws t then clear_drm t else t)\<lparr>tc_wake_cpu_state := 0\<rparr>"
    have t': "tc_queue t' = tc_queue t" "tc_wake_cpu_state t' = 0" by (simp_all add: t'_def clear_drm_def)
    have sel: "sel ((k, n), s) = (case fix_prev s p prev of None \<Rightarrow> (prev, (k, n), set_task p t' s)
        | Some prev \<Rightarrow> (case choose_cpu (counted_idle ops) r cb s p t' prev (k, n) of
            (Some cpu, k) \<Rightarrow> (cpu, k, set_task p (t'\<lparr>tc_wake_cpu_state := MLFQ_WAKE_CPU_VALID OR MLFQ_WAKE_CPU_IDLE\<rparr>) s)
          | (None, k) \<Rightarrow> (prev, k, set_task p t' s)))"
      unfolding sel_def mlfq_select_cpu_def case_prod_conv \<open>sd_tasks s (ts_pid p) = Some t\<close> option.case
        h_def [symmetric] None Let_def t'_def [symmetric] ..
    show ?thesis
    proof (cases "fix_prev s p prev")
      case N: None
      then show ?thesis using that(3) t'(2) sel \<open>sd_tasks s (ts_pid p) = Some t\<close> by simp
    next
      case (Some cpu)
      obtain c k' where c: "choose_cpu (counted_idle ops) r cb s p t' cpu (k, n) = (c, k')" by (metis surj_pair)
      show ?thesis
        by (rule that(4) [OF \<open>sd_tasks s (ts_pid p) = Some t\<close> Some t' c]) (simp add: sel Some c split: option.split)
    qed
  qed
qed

text \<open>
  C15. A call claims at most one idle mark, and it claims one exactly when it tells the enqueue so:
  no idle CPU is taken out of the idle pool without the task being sent there. The handoff
  to the waker's CPU inserts the task at once and claims nothing.
\<close>

theorem select_cpu_one_claim:
  "case mlfq_select_cpu (counted_idle ops) r cb ws waker p prev ((k, 0), s) of
     (cpu, (k', claimed), s') \<Rightarrow>
       (case sd_tasks s' (ts_pid p) of None \<Rightarrow> claimed = 0 \<and> cpu = prev
        | Some t \<Rightarrow>
            if sd_calls s' = sd_calls s
            then claimed = (if tc_wake_cpu_state t \<noteq> 0 then 1 else 0)
            else claimed = 0 \<and> handoff_cpu s p waker = Some cpu
              \<and> (\<exists>sl. sd_calls s' = sd_calls s @ [Dsq_insert (ts_pid p) SCX_DSQ_LOCAL sl [SCX_ENQ_IMMED]]))"
proof (cases rule: select_cpu_cases [of s p ops r cb ws waker prev k 0])
  case (4 t cpu t' k' c)
  then have "claims (kept ops p) (choose_cpu (counted_idle ops) r cb s p t' cpu)"
    using choose_kept fix_prev_allowed by blast
  then have "case c of None \<Rightarrow> snd k' = 0 | Some c \<Rightarrow> snd k' = 1"
    using 4(5) by (auto dest: claimsD split: option.split)
  then show ?thesis using 4(4, 6) by (cases k') (auto split: option.splits)
qed (auto simp: add_call_def)

text \<open>
  C23. When the idle picks of the kernel stay inside the affinity of the task, the CPU returned is in
  the affinity, a previous CPU outside it being replaced first. The two exceptions return the previous
  CPU unchanged: a task without storage, and an affinity that names no CPU of the machine.
\<close>

theorem select_cpu_allowed:
  assumes "picks_allowed ops p"
  shows "let cpu = fst (mlfq_select_cpu (counted_idle ops) r cb ws waker p prev ((k, n), s))
    in ts_cpus p cpu \<or> cpu = prev \<and> (sd_tasks s (ts_pid p) = None
         \<or> list_all (\<lambda>c. \<not> ts_cpus p (of_nat c)) [0..<sd_nr_cpu_ids s])"
proof (cases rule: select_cpu_cases [of s p ops r cb ws waker prev k n])
  case (4 t cpu t' k' c)
  have cpu: "ts_cpus p cpu" using fix_prev_allowed 4(2) by blast
  then have "claims (kept ops p) (choose_cpu (counted_idle ops) r cb s p t' cpu)" by (rule choose_kept)
  then have "case c of None \<Rightarrow> True | Some c \<Rightarrow> ts_cpus p c"
    using 4(5) assms(1) by (auto simp: kept_def dest: claimsD split: option.split)
  then show ?thesis using 4(6) cpu by (simp split: option.splits)
next
  case (3 t)
  then show ?thesis by (auto simp: fix_prev_def find_None_iff list_all_iff Let_def split: if_splits)
qed (use assms in \<open>auto simp: handoff_cpu_def Let_def split: option.splits if_splits\<close>)

text \<open>
  A Q3 task claims only a CPU of its affinity that no realtime task occupies, among the first
  64, and beyond the first 32 only one whose sibling runs no Q1 task; otherwise it stays on
  its previous CPU. It is never handed off to the waker.
\<close>

theorem q3_isolation:
  assumes "sd_tasks s (ts_pid p) = Some t" and "tc_queue t = 3"
  shows "case mlfq_select_cpu (counted_idle ops) r cb ws waker p prev ((k, 0), s) of
     (cpu, (k', claimed), s') \<Rightarrow>
       if claimed = 0 then cpu = (case fix_prev s p prev of None \<Rightarrow> prev | Some c \<Rightarrow> c)
       else unat cpu < 64 \<and> unat cpu < sd_nr_cpu_ids s \<and> ts_cpus p cpu \<and> \<not> mlfq_cpu_occupied s cpu
         \<and> (if 32 \<le> unat cpu then \<not> is_smt_sibling_q1_busy r s cpu else True)"
proof (cases rule: select_cpu_cases [of s p ops r cb ws waker prev k 0])
  case (4 u cpu t' k' c)
  define ok where "ok c \<longleftrightarrow> unat c < 64 \<and> unat c < sd_nr_cpu_ids s \<and> ts_cpus p c \<and> \<not> mlfq_cpu_occupied s c
    \<and> (if 32 \<le> unat c then \<not> is_smt_sibling_q1_busy r s c else True)" for c
  have ok: "ok (of_nat c)" if "c \<in> set [0..<min cap (min MLFQ_MAX_CPUS (sd_nr_cpu_ids s))]"
    and "is_cpu_available_for_q3 r s p strict (of_nat c)" and "strict \<and> cap = 64 \<or> \<not> strict \<and> cap = 32" for c cap strict
    using that by (auto simp: ok_def is_cpu_available_for_q3_def unat_of_nat_u32 split: if_splits)
  define scans where "scans = run_steps [step_q3 (counted_idle ops) r s p True 64, step_q3 (counted_idle ops) r s p False 32]"
  have "claims ok scans"
    unfolding scans_def by (rule claims_run) (auto simp: step_q3_def intro!: claims_first ok)
  moreover have "choose_cpu (counted_idle ops) r cb s p t' cpu (k, 0) = scans (k, 0)"
    using 4(1, 3) assms by (simp add: choose_cpu_def scans_def del: run_steps.simps)
  moreover from this have "scans (k, 0) = (c, k')" using 4(5) by simp
  ultimately have "case c of None \<Rightarrow> snd k' = 0 | Some c \<Rightarrow> snd k' = 1 \<and> ok c"
    by (auto dest: claimsD split: option.split)
  then show ?thesis using 4(2, 6) by (cases k') (auto simp: ok_def split: option.splits if_splits)
qed (use assms in \<open>auto simp: fix_prev_def\<close>)

end
