(* ===== verification/EnqueueOk.thy ===== *)
theory EnqueueOk
  imports SchedInv
begin

text \<open>
  What an enqueue does with the task: exactly one insert, into a queue of a CPU in its affinity or of
  the enqueueing CPU and of the queue number stored for the task; which branches preempt, with
  which slice; and that a stay a wakeup or a run-out has just started does not age.
\<close>

section \<open>Calls\<close>

fun insert_of :: "u32 \<Rightarrow> call \<Rightarrow> bool" where
  "insert_of p (Dsq_insert q d sl f) = (q = p)"
| "insert_of p (Dsq_insert_vtime q d sl v f) = (q = p)"
| "insert_of p c = False"

lemma calls_simps [simp]:
  "sd_calls (upd_stats f s) = sd_calls s" "sd_calls (set_task p t s) = sd_calls s"
  "sd_calls (mlfq_q1_set cpu b s) = sd_calls s" "sd_calls (mlfq_op_lat_charge cb op s) = sd_calls s"
  "sd_calls (snd (runnable_enter qid llc x)) = sd_calls (snd x)"
  "sd_calls (snd (runnable_exit x)) = sd_calls (snd x)"
  "sd_calls (add_call c s) = sd_calls s @ [c]"
  "sd_calls (wakeup_count cb s) = sd_calls s"
  by (simp_all add: upd_stats_def set_task_def mlfq_q1_set_def mlfq_op_lat_charge_def Let_def
      runnable_enter_def runnable_exit_def case_prod_beta add_call_def wakeup_count_def)

lemma classify_calls [simp]: "sd_calls (snd (enq_classify r cb p flags x)) = sd_calls (snd x)"
  by (simp add: enq_classify_def case_prod_beta)

lemma stay_calls [simp]: "sd_calls (snd (enq_stay r cb p flags old x)) = sd_calls (snd x)"
  by (simp add: enq_stay_def case_prod_beta Let_def)

lemma decide_calls [simp]: "sd_calls (snd (enq_decide r cb p flags x)) = sd_calls (snd x)"
  by (simp add: enq_decide_def case_prod_beta)

lemma queue_present: "queues_present s \<Longrightarrow> queue_ok t \<Longrightarrow> \<exists>q. sd_queues s (tc_queue t) = Some q"
  by (auto simp: queues_present_def queue_ok_def)

lemma place_task_deadline:
  "sd_queues s qid = Some q \<Longrightarrow> fst (mlfq_place_task (sd_queues s) qid t) \<noteq> 0"
  by (simp add: mlfq_place_task_def place_entity_fields deadline_nonzero)

section \<open>One insert\<close>

text \<open>A step that records one insert of the task, and at most a kick after it.\<close>

definition inserts :: "task_struct \<Rightarrow> (dsq \<Rightarrow> bool) \<Rightarrow> sched \<Rightarrow> sched \<Rightarrow> bool" where
  "inserts p ok s s' \<longleftrightarrow> (\<exists>c ks. sd_calls s' = sd_calls s @ c # ks \<and> insert_of (ts_pid p) c
     \<and> (case c of Dsq_insert q d sl f \<Rightarrow> ok d | Dsq_insert_vtime q d sl v f \<Rightarrow> ok (Queue_dsq d) | _ \<Rightarrow> False)
     \<and> (\<forall>k \<in> set ks. \<exists>cpu. k = Kick_idle cpu))"

lemma idle_kick_calls: "sd_calls (mlfq_idle_kick cb cpu s) = sd_calls s @ (if cpu \<noteq> cb_cpu cb then [Kick_idle cpu] else [])"
  by (simp add: mlfq_idle_kick_def)

lemma enq_place_inserts:
  assumes "sd_queues s (tc_queue t) = Some q" and "ok (Queue_dsq (mlfq_dsq_id (tc_queue t) cpu))"
  shows "inserts p ok s (snd (enq_place r cb p flags cpu counted (t, s)))"
  using assms place_task_deadline [OF assms(1)]
  by (simp add: inserts_def enq_place_def Let_def case_prod_beta idle_kick_calls)

lemma enq_local_inserts:
  assumes "ok target"
  shows "inserts p ok s (snd (enq_local r cb p flags cpu target counted (t, s)))"
  using assms by (simp add: inserts_def enq_local_def Let_def case_prod_beta)

lemma enq_preempt_inserts:
  assumes "ok (SCX_DSQ_LOCAL_ON (ts_cpu p))"
  shows "inserts p ok s (snd (enq_preempt r cb p flags (t, s)))"
  using assms by (simp add: inserts_def enq_preempt_def Let_def case_prod_beta)

text \<open>
  Where a task may be inserted: into the local queue of the enqueue or of an allowed CPU, into the dispatch
  queue that an allowed CPU or the CPU the callback runs on has for the queue number of the task, or,
  when it is pinned to a CPU outside its affinity, into the global queue.
\<close>

definition legal_cpu :: "callback \<Rightarrow> task_struct \<Rightarrow> i32 \<Rightarrow> bool" where
  "legal_cpu cb p cpu \<longleftrightarrow> ts_cpus p cpu \<or> cpu = cb_cpu cb"

definition legal_dsq :: "callback \<Rightarrow> task_struct \<Rightarrow> u8 \<Rightarrow> dsq \<Rightarrow> bool" where
  "legal_dsq cb p qid d = (case d of
       SCX_DSQ_GLOBAL \<Rightarrow> mlfq_task_is_migration_disabled p \<and> \<not> ts_cpus p (ts_cpu p)
     | SCX_DSQ_LOCAL \<Rightarrow> True
     | SCX_DSQ_LOCAL_ON cpu \<Rightarrow> ts_cpus p cpu
     | Queue_dsq d \<Rightarrow> \<exists>cpu. d = mlfq_dsq_id qid cpu \<and> legal_cpu cb p cpu)"

lemma pinned_inserts:
  assumes "queues_present s" and "queue_ok t" and "\<not> ts_cpu p <s 0" and "mlfq_task_is_migration_disabled p"
  shows "inserts p (legal_dsq cb p (tc_queue t)) s (snd (enq_pinned r cb p flags (t, s)))"
proof -
  obtain q where q: "sd_queues s (tc_queue t) = Some q" using queue_present [OF assms(1, 2)] by blast
  have park: "inserts p (legal_dsq cb p (tc_queue t)) s (add_call (Dsq_insert (ts_pid p) SCX_DSQ_GLOBAL sl flags)
      (snd (runnable_exit (t, upd_stats f s))))"
    if "\<not> ts_cpus p (ts_cpu p)" for f sl
    using that assms(4) by (simp add: inserts_def legal_dsq_def)
  have loc: "inserts p (legal_dsq cb p (tc_queue t)) s (snd (enq_local r cb p flags (ts_cpu p) (SCX_DSQ_LOCAL_ON (ts_cpu p)) f (t, s)))"
    if "ts_cpus p (ts_cpu p)" for f
    using that by (intro enq_local_inserts) (simp add: legal_dsq_def)
  have pl: "inserts p (legal_dsq cb p (tc_queue t)) s (snd (enq_place r cb p flags (ts_cpu p) f (t, s)))"
    if "ts_cpus p (ts_cpu p)" for f
    using that by (intro enq_place_inserts [OF q]) (auto simp: legal_dsq_def legal_cpu_def)
  show ?thesis
    using assms(3) park loc pl by (simp add: enq_pinned_def Let_def case_prod_beta)
qed

lemma find_some: "find P xs = Some x \<Longrightarrow> P x"
  by (simp add: find_Some_iff) auto

lemma pick_bitmap_usable:
  assumes "0 \<le>s mlfq_pick_unoccupied_in_bitmap s bm p"
  shows "usable_cpu s p (mlfq_pick_unoccupied_in_bitmap s bm p)"
proof -
  have "\<not> 0 \<le>s - ENOENT" by (simp add: ENOENT_def word_sle_eq)
  then show ?thesis
    using assms by (auto simp: mlfq_pick_unoccupied_in_bitmap_def split: option.splits dest: find_some)
qed

lemma pick_usable:
  assumes "0 \<le>s mlfq_pick_unoccupied_cpu r s p origin"
  shows "usable_cpu s p (mlfq_pick_unoccupied_cpu r s p origin)"
proof -
  have "\<not> 0 \<le>s - ENOENT" by (simp add: ENOENT_def word_sle_eq)
  then show ?thesis
    using assms pick_bitmap_usable
    by (auto simp: mlfq_pick_unoccupied_cpu_def Let_def split: option.splits if_splits dest: find_some)
qed

lemma legal_queue: "legal_cpu cb p cpu \<Longrightarrow> legal_dsq cb p qid (Queue_dsq (mlfq_dsq_id qid cpu))"
  by (auto simp: legal_dsq_def)

lemma target_legal: "legal_cpu cb p (fst (enq_target r cb p flags s))"
  using pick_usable [of r s p "cb_cpu cb"]
  by (auto simp: enq_target_def Let_def legal_cpu_def usable_cpu_def)

lemma movable_inserts:
  assumes "queues_present s" and "queue_ok t"
  shows "inserts p (legal_dsq cb p (tc_queue t)) s (snd (enq_movable r cb p flags (t, s)))"
proof -
  obtain q where q: "sd_queues s (tc_queue t) = Some q" using queue_present [OF assms] by blast
  define s1 where "s1 = (if snd (snd (enq_target r cb p flags s))
     then upd_stats (\<lambda>st. st\<lparr>st_rt_redirects := st_rt_redirects st + 1\<rparr>) s else s)"
  have s1: "sd_calls s1 = sd_calls s" "sd_queues s1 = sd_queues s"
    by (simp_all add: s1_def upd_stats_def)
  have pl: "inserts p (legal_dsq cb p (tc_queue t)) s1 (snd (enq_place r cb p flags (fst (enq_target r cb p flags s)) f (t, s1)))" for f
    using legal_queue [OF target_legal] q s1 by (intro enq_place_inserts) simp_all
  have pre: "inserts p (legal_dsq cb p (tc_queue t)) s1 (snd (enq_preempt r cb p flags (t, s1)))"
    if "preempt_owed cb p t s1"
    using that
    by (intro enq_preempt_inserts) (auto simp: legal_dsq_def preempt_owed_def Let_def split: option.splits if_splits)
  have loc: "inserts p (legal_dsq cb p (tc_queue t)) s (snd (enq_local r cb p flags (cb_cpu cb) SCX_DSQ_LOCAL f (t, s)))" for f
    by (intro enq_local_inserts) (simp add: legal_dsq_def)
  show ?thesis
    using loc pl pre
    by (auto simp: enq_movable_def Let_def case_prod_beta s1_def [symmetric] inserts_def s1)
qed

text \<open>What classification and the stay leave alone.\<close>

lemma classify_queues [simp]: "sd_queues (snd (enq_classify r cb p flags x)) = sd_queues (snd x)"
  by (simp add: enq_classify_def case_prod_beta wakeup_count_def Let_def upd_stats_def)

lemma stay_queues [simp]: "sd_queues (snd (enq_stay r cb p flags old x)) = sd_queues (snd x)"
  by (simp add: enq_stay_def case_prod_beta Let_def upd_stats_def)

lemma classify_queue_ok:
  assumes "queue_ok (fst x)"
  shows "queue_ok (fst (enq_classify r cb p flags x))"
proof -
  obtain t s where x: "x = (t, s)" by (cases x)
  have ok: "queue_ok t" using assms x by simp
  have "queue_ok (fst (mlfq_wakeup_classify r a k p now (t, st)))" for a k now st
    by (rule wakeup_queue_ok) (simp add: ok)
  with runout_queue_ok [OF ok] ok show ?thesis
    by (simp add: x enq_classify_def case_prod_beta queue_ok_def)
qed

lemma enq_stay_queue_ok:
  assumes "queue_ok (fst x)"
  shows "queue_ok (fst (enq_stay r cb p flags old x))"
proof -
  have start: "queue_ok (stay_start now o1 fresh (snd (mlfq_apply_sched_idle p (fst x))))" for now o1 fresh
    using sched_idle_queue_ok [OF assms] by (simp add: queue_ok_def)
  moreover have "queue_ok (u\<lparr>tc_queue := 1, tc_reenq_cnt := 0\<rparr>)" for u
    by (simp add: queue_ok_def)
  ultimately show ?thesis
    unfolding enq_stay_def Let_def case_prod_beta by simp
qed

lemma decide_queue_ok:
  assumes "queue_ok (fst x)"
  shows "queue_ok (fst (enq_decide r cb p flags x))"
proof -
  have "queue_ok ((fst x)\<lparr>tc_weight := w\<rparr>)" for w using assms by (simp add: queue_ok_def)
  then show ?thesis
    by (auto simp: enq_decide_def case_prod_beta intro!: enq_stay_queue_ok classify_queue_ok)
qed

lemma enq_task_queue_ok:
  assumes "sched_inv r s" and "enq_task cb p s = Some t"
  shows "queue_ok t"
  using working_inv [OF enq_task_working [OF assms]] by (simp add: task_inv_def)

text \<open>The queue of the task is decided before the placement.\<close>

lemma enq_branch_queue [simp]:
  "tc_queue (fst (enq_pinned r cb p flags x)) = tc_queue (fst x)"
  "tc_queue (fst (enq_movable r cb p flags x)) = tc_queue (fst x)"
  by (simp_all add: enq_pinned_def enq_movable_def enq_place_def enq_local_def enq_preempt_def mlfq_stamp_enq_at_def
      runnable_exit_def mlfq_runnable_exit_def case_prod_beta Let_def)

lemma enqueue_eq:
  assumes "enq_task cb p s = Some t" and "ts_weight p \<noteq> 0"
  shows "mlfq_enqueue r cb p flags s = mlfq_op_lat_charge cb MLFQ_OP_LAT_ENQUEUE
    (case (if mlfq_task_is_migration_disabled p then enq_pinned r cb p flags (enq_decide r cb p flags (t, s))
           else enq_movable r cb p flags (enq_decide r cb p flags (t, s))) of (t, s) \<Rightarrow> set_task p t s)"
  using assms by (simp add: mlfq_enqueue_def Let_def)

lemma op_lat_tasks [simp]: "sd_tasks (mlfq_op_lat_charge cb op s) = sd_tasks s"
  by (simp add: mlfq_op_lat_charge_def Let_def)

lemma enqueue_stores:
  assumes "enq_task cb p s = Some t" and "ts_weight p \<noteq> 0"
  shows "\<exists>u. sd_tasks (mlfq_enqueue r cb p flags s) (ts_pid p) = Some u
    \<and> tc_queue u = tc_queue (fst (enq_decide r cb p flags (t, s)))"
  unfolding enqueue_eq [OF assms] by (simp add: set_task_def case_prod_beta)

text \<open>
  No task is dropped and none is inserted twice: whenever its storage exists or can be
  allocated, its weight is positive and the queue map is populated, an enqueue records exactly
  one insert of the task, into a queue its affinity allows or that of the enqueueing CPU,
  followed by nothing but an idle kick. The only other outcome is a scheduler error for a pinned task without a CPU.
\<close>

theorem enqueue_inserts_once:
  assumes "sched_inv r s" and "sd_tasks s (ts_pid p) \<noteq> None \<or> cb_alloc cb" and "ts_weight p \<noteq> 0"
    and "queues_present s" and "\<not> ts_cpu p <s 0"
  shows "\<exists>t. sd_tasks (mlfq_enqueue r cb p flags s) (ts_pid p) = Some t \<and> queue_ok t
    \<and> inserts p (legal_dsq cb p (tc_queue t)) s (mlfq_enqueue r cb p flags s)"
proof -
  obtain t where t: "enq_task cb p s = Some t"
    using assms(2) by (cases "sd_tasks s (ts_pid p)") (auto simp: enq_task_def)
  define x where "x = enq_decide r cb p flags (t, s)"
  have ok: "queue_ok (fst x)"
    using decide_queue_ok [of "(t, s)"] enq_task_queue_ok [OF assms(1) t] by (simp add: x_def)
  have calls: "sd_calls (snd x) = sd_calls s" by (simp add: x_def)
  have qs: "queues_present (snd x)"
    using assms(4) by (simp add: x_def queues_present_def enq_decide_def case_prod_beta)
  have "inserts p (legal_dsq cb p (tc_queue (fst x))) (snd x)
      (snd (if mlfq_task_is_migration_disabled p then enq_pinned r cb p flags x else enq_movable r cb p flags x))"
    using pinned_inserts [OF qs ok assms(5)] movable_inserts [OF qs ok] by simp
  then have "inserts p (legal_dsq cb p (tc_queue (fst x))) s (mlfq_enqueue r cb p flags s)"
    unfolding enqueue_eq [OF t assms(3)] using calls
    by (cases "mlfq_task_is_migration_disabled p") (simp_all add: case_prod_beta x_def [symmetric] inserts_def)
  then show ?thesis
    using enqueue_stores [OF t assms(3), of r flags] ok by (auto simp: x_def queue_ok_def)
qed

section \<open>Aging\<close>

lemma fresh_stay_young:
  assumes "0 < unat (mlfq_aging_period_ns r)" and "unat (mlfq_aging_period_ns r) < 9223372036854775808"
  shows "\<not> ages r now b (stay_start now old True t)"
proof -
  have *: "tc_queued_at (stay_start now old True t) = (if 2 \<le> tc_queue t then now else 0)"
    by (simp add: stay_start_def)
  have "mlfq_time_before now (now + mlfq_aging_period_ns r)"
    using assms by (auto simp: time_before_add)
  with * show ?thesis by (simp add: ages_def)
qed

lemma fresh_stay_keeps:
  assumes "SCX_ENQ_WAKEUP \<in> set flags \<or> flags = []"
    and "0 < unat (mlfq_aging_period_ns r)" and "unat (mlfq_aging_period_ns r) < 9223372036854775808"
  shows "tc_queue (fst (enq_stay r cb p flags old (t, s))) = tc_queue (snd (mlfq_apply_sched_idle p t))"
    and "snd (enq_stay r cb p flags old (t, s)) = s"
proof -
  obtain b u where u: "mlfq_apply_sched_idle p t = (b, u)" by fastforce
  have "\<not> ages r (cb_now cb) b (stay_start (cb_now cb) old True u)"
    by (rule fresh_stay_young [OF assms(2, 3)])
  then show "tc_queue (fst (enq_stay r cb p flags old (t, s))) = tc_queue (snd (mlfq_apply_sched_idle p t))"
    and "snd (enq_stay r cb p flags old (t, s)) = s"
    using assms(1) by (simp_all add: enq_stay_def u Let_def)
qed

section \<open>Preemption\<close>

text \<open>The enqueue inserts the task so that it displaces the running one, for a slice \<open>sl\<close>.\<close>

definition preempts :: "task_struct \<Rightarrow> u64 \<Rightarrow> sched \<Rightarrow> sched \<Rightarrow> bool" where
  "preempts p sl s s' \<longleftrightarrow> list_ex (\<lambda>c. case c of
       Dsq_insert q d sl' f \<Rightarrow> q = ts_pid p \<and> sl' = sl \<and> SCX_ENQ_PREEMPT \<in> set f
     | _ \<Rightarrow> False) (drop (length (sd_calls s)) (sd_calls s'))"

lemma quiet_branches:
  assumes "SCX_ENQ_PREEMPT \<notin> set flags"
  shows "\<not> preempts p sl (snd x) (snd (enq_place r cb p flags cpu g x))"
    and "\<not> preempts p sl (snd x) (snd (enq_local r cb p flags cpu d g x))"
    and "\<not> preempts p sl (snd x) (snd (enq_pinned r cb p flags x))"
proof -
  show place: "\<not> preempts p sl (snd x) (snd (enq_place r cb p flags cpu g x))" for cpu g
    by (cases x) (simp add: preempts_def enq_place_def Let_def case_prod_beta idle_kick_calls)
  show loc: "\<not> preempts p sl (snd x) (snd (enq_local r cb p flags cpu d g x))" for cpu d g
    using assms by (cases x) (simp add: preempts_def enq_local_def Let_def case_prod_beta)
  have glob: "\<not> preempts p sl s (add_call (Dsq_insert q SCX_DSQ_GLOBAL z flags) (snd (runnable_exit (t, upd_stats f s))))"
    for q z t f s
    using assms by (simp add: preempts_def)
  have err: "\<not> preempts p sl s (add_call (Scx_error e) s)" for e s
    by (simp add: preempts_def)
  show "\<not> preempts p sl (snd x) (snd (enq_pinned r cb p flags x))"
    using place [of "ts_cpu p"] loc [of "ts_cpu p" "SCX_DSQ_LOCAL_ON (ts_cpu p)"] glob err
    by (cases x) (simp add: enq_pinned_def Let_def case_prod_beta)
qed

lemma preempts_enq_preempt:
  "preempts p sl (snd x) (snd (enq_preempt r cb p flags x)) \<longleftrightarrow>
     sl = min (mlfq_preempt_slice_ns r) (mlfq_queue_slice r (tc_queue (fst x)))"
  by (cases x) (auto simp: preempts_def enq_preempt_def Let_def case_prod_beta min_def)

lemma preempt_owed_parts:
  assumes "sd_cpus s' = sd_cpus s" and "sd_queues s' = sd_queues s" and "ad_state (sd_adapt s') = ad_state (sd_adapt s)"
  shows "preempt_owed cb p t s' = preempt_owed cb p t s"
  unfolding preempt_owed_def assms ..

lemma preempts_movable:
  assumes "SCX_ENQ_PREEMPT \<notin> set flags"
  shows "preempts p sl s (snd (enq_movable r cb p flags (t, s))) \<longleftrightarrow>
    \<not> enq_fast_path cb t s \<and> SCX_ENQ_WAKEUP \<in> set flags \<and> \<not> fst (snd (enq_target r cb p flags s))
    \<and> preempt_owed cb p t s \<and> sl = min (mlfq_preempt_slice_ns r) (mlfq_queue_slice r (tc_queue t))"
proof -
  define s1 where "s1 = (if snd (snd (enq_target r cb p flags s))
     then upd_stats (\<lambda>st. st\<lparr>st_rt_redirects := st_rt_redirects st + 1\<rparr>) s else s)"
  have "preempt_owed cb p t s1 = preempt_owed cb p t s"
    by (rule preempt_owed_parts) (simp_all add: s1_def upd_stats_def)
  then have s1: "preempts p sl s = preempts p sl s1" "preempt_owed cb p t s1 = preempt_owed cb p t s"
    by (auto simp: s1_def preempts_def upd_stats_def fun_eq_iff)
  note q = quiet_branches [OF assms, where x = "(t, s)", unfolded snd_conv]
    quiet_branches [OF assms, where x = "(t, s1)", unfolded snd_conv]
    preempts_enq_preempt [where x = "(t, s1)", unfolded fst_conv snd_conv]
  show ?thesis
  proof (cases "enq_fast_path cb t s")
    case True
    then show ?thesis using q(2) by (simp add: enq_movable_def)
  next
    case False
    then show ?thesis
      using q(4) s1 q(7) by (auto simp: enq_movable_def Let_def case_prod_beta s1_def [symmetric])
  qed
qed

end
