(* ===== verification/Dispatch.thy ===== *)
theory Dispatch
  imports SchedSafe
begin

text \<open>
  The dispatch callback of \<open>src/scx/src/bpf/dispatch.bpf.c\<close>: the keep path, the probe of a
  remote CPU and the service of the three queues with their quotas and two tiers of stealing.
  The kernel's dispatch queues are a parameter: a state \<open>'k\<close> with the number of queued tasks,
  the head and the move of a queue (\<open>dsq_ops\<close>). The lemmas bound what one call moves and show
  that it keeps the invariant of the program.
\<close>

section \<open>The kernel's dispatch queues\<close>

text \<open>A head is a task with its \<open>dsq_vtime\<close>; a move says whether it moved a task.\<close>

record 'k dsq_ops =
  nr_queued :: "'k \<Rightarrow> u64 \<Rightarrow> nat"
  dsq_peek :: "'k \<Rightarrow> u64 \<Rightarrow> (task_struct \<times> u64) option"
  dsq_move :: "u64 \<Rightarrow> 'k \<Rightarrow> bool \<times> 'k"

definition eligible_head :: "'k dsq_ops \<Rightarrow> 'k \<Rightarrow> i32 \<Rightarrow> u64 \<Rightarrow> (task_struct \<times> u64) option" where
  "eligible_head ops k cpu dsq_id =
     (if nr_queued ops k dsq_id = 0 then None
      else case dsq_peek ops k dsq_id of None \<Rightarrow> None
        | Some (t, v) \<Rightarrow> if ts_cpus t cpu then Some (t, v) else None)"

definition mlfq_remote_work_probe :: "'k dsq_ops \<Rightarrow> 'k \<Rightarrow> i32 \<Rightarrow> i32 \<Rightarrow> bool" where
  "mlfq_remote_work_probe ops k cand cpu \<longleftrightarrow>
     eligible_head ops k cpu (mlfq_dsq_id 1 cand) \<noteq> None
   \<or> eligible_head ops k cpu (mlfq_dsq_id 2 cand) \<noteq> None
   \<or> eligible_head ops k cpu (mlfq_dsq_id 3 cand) \<noteq> None"

section \<open>Stealing\<close>

text \<open>The best head so far: the task, its deadline, its queue and the CPU it is queued on.\<close>

type_synonym steal = "(task_struct \<times> u64 \<times> u64 \<times> i32) option"

definition consider_cpu :: "'k dsq_ops \<Rightarrow> 'k \<Rightarrow> u8 \<Rightarrow> i32 \<Rightarrow> u32 \<Rightarrow> steal \<Rightarrow> steal" where
  "consider_cpu ops k qid cpu cand best =
     (if cand = cpu then best
      else case eligible_head ops k cpu (mlfq_dsq_id qid cand) of None \<Rightarrow> best
        | Some (t, v) \<Rightarrow>
            (case best of None \<Rightarrow> Some (t, v, mlfq_dsq_id qid cand, cand)
             | Some (_, bv, _, _) \<Rightarrow> if mlfq_time_before v bv then Some (t, v, mlfq_dsq_id qid cand, cand) else best))"

definition tier_a :: "'k dsq_ops \<Rightarrow> 'k \<Rightarrow> u8 \<Rightarrow> i32 \<Rightarrow> u32 list \<Rightarrow> u32 \<Rightarrow> u32 \<Rightarrow> steal" where
  "tier_a ops k qid cpu cpus nr off =
     fold (\<lambda>i best. let idx = (off + of_nat i) mod of_nat MLFQ_LLC_SCAN_MAX
                    in if nr \<le> idx then best else consider_cpu ops k qid cpu (cpus ! unat idx) best)
       [0..<MLFQ_LLC_SCAN_MAX] None"

definition tier_b ::
  "'k dsq_ops \<Rightarrow> rodata \<Rightarrow> 'k \<Rightarrow> u8 \<Rightarrow> i32 \<Rightarrow> u32 \<Rightarrow> bool \<Rightarrow> u32 \<Rightarrow> u32 \<Rightarrow> u32 \<Rightarrow> steal" where
  "tier_b ops r k qid cpu own_llc tier_a_ran nr_cpus off scan =
     fold (\<lambda>i best. let cand = (off + of_nat i) mod nr_cpus
                    in if tier_a_ran \<and> cand \<noteq> cpu
                          \<and> mlfq_cpu_llc r ! unat (cand AND of_nat (MLFQ_MAX_CPUS - 1)) = own_llc then best
                       else consider_cpu ops k qid cpu cand best)
       [0..<unat scan] None"

text \<open>The window of a queue: the own-LLC list when it is populated.\<close>

definition tier_a_window :: "rodata \<Rightarrow> llc_cpu_list option \<Rightarrow> u32 \<Rightarrow> (u32 list \<times> u32) option" where
  "tier_a_window r own_list own_llc =
     (case own_list of None \<Rightarrow> None
      | Some l \<Rightarrow> if 0 < list_nr l \<and> own_llc < mlfq_nr_llcs r
          then Some (list_cpus l, if of_nat MLFQ_LLC_SCAN_MAX < list_nr l then of_nat MLFQ_LLC_SCAN_MAX else list_nr l)
          else None)"

definition find_steal ::
  "'k dsq_ops \<Rightarrow> rodata \<Rightarrow> 'k \<Rightarrow> sched \<Rightarrow> u8 \<Rightarrow> i32 \<Rightarrow> llc_cpu_list option \<Rightarrow> u32 \<Rightarrow> u32 \<Rightarrow> u32 \<Rightarrow> steal" where
  "find_steal ops r k s qid cpu own_list own_llc nr_cpus off =
     (let w = tier_a_window r own_list own_llc;
          best = (case w of None \<Rightarrow> None | Some (cpus, nr) \<Rightarrow> tier_a ops k qid cpu cpus nr off)
      in if best = None \<and> (w = None \<or> mlfq_nr_llcs r \<noteq> 1)
         then tier_b ops r k qid cpu own_llc (w \<noteq> None) nr_cpus off (sd_steal_scan s)
         else best)"

text \<open>The accounting of a successful steal.\<close>

definition account_steal :: "rodata \<Rightarrow> u8 \<Rightarrow> i32 \<Rightarrow> task_struct \<Rightarrow> i32 \<Rightarrow> sched \<Rightarrow> sched" where
  "account_steal r qid cpu p best_cpu s =
     (let s = (case sd_tasks s (ts_pid p) of None \<Rightarrow> s
               | Some t \<Rightarrow> case runnable_enter qid (mlfq_llc_of_cpu r cpu) (t, s) of (t, s) \<Rightarrow> set_task p t s)
      in if best_cpu \<noteq> cpu
         then upd_stats (\<lambda>st. let st = st\<lparr>st_steals := st_steals st + 1\<rparr>
                in if mlfq_nr_llcs r = 0 then st
                   else if mlfq_llc_of_cpu r best_cpu = mlfq_llc_of_cpu r cpu
                   then st\<lparr>st_steals_same_llc := st_steals_same_llc st + 1\<rparr>
                   else st\<lparr>st_steals_cross_llc := st_steals_cross_llc st + 1\<rparr>) s
         else s)"

section \<open>The service of a queue\<close>

text \<open>One slot per unfolding; the loop ends early when neither the own head nor a steal is found.\<close>

fun dispatch_slots ::
  "'k dsq_ops \<Rightarrow> rodata \<Rightarrow> i32 \<Rightarrow> u8 \<Rightarrow> llc_cpu_list option \<Rightarrow> u32 \<Rightarrow> u32 \<Rightarrow> u32 \<Rightarrow> nat \<Rightarrow> u32 \<Rightarrow> 'k \<times> sched
     \<Rightarrow> u32 \<times> 'k \<times> sched" where
  "dispatch_slots ops r cpu qid own_list own_llc nr_cpus off 0 moved (k, s) = (moved, k, s)"
| "dispatch_slots ops r cpu qid own_list own_llc nr_cpus off (Suc n) moved (k, s) =
     (let (ok, k) = dsq_move ops (mlfq_dsq_id qid cpu) k
      in if ok then dispatch_slots ops r cpu qid own_list own_llc nr_cpus off n (moved + 1) (k, s)
         else case find_steal ops r k s qid cpu own_list own_llc nr_cpus off of
           None \<Rightarrow> (moved, k, s)
         | Some (p, _, best_dsq, best_cpu) \<Rightarrow>
             let (ok, k) = dsq_move ops best_dsq k
             in if ok then dispatch_slots ops r cpu qid own_list own_llc nr_cpus off n (moved + 1)
                             (k, account_steal r qid cpu p best_cpu s)
                else dispatch_slots ops r cpu qid own_list own_llc nr_cpus off n moved (k, s))"

definition mlfq_dispatch_queue ::
  "'k dsq_ops \<Rightarrow> rodata \<Rightarrow> i32 \<Rightarrow> u8 \<Rightarrow> u32 \<Rightarrow> u32 \<Rightarrow> llc_cpu_list option \<Rightarrow> u32 \<Rightarrow> 'k \<times> sched
     \<Rightarrow> u32 \<times> 'k \<times> sched" where
  "mlfq_dispatch_queue ops r cpu qid quota nr_cpus own_list own_llc = (\<lambda>(k, s).
     if sd_llc_cpus s 0 = None then (0, k, s)
     else let off = (case cpu_key cpu of None \<Rightarrow> 0 | Some c \<Rightarrow> steal_scan_off (sd_cpus s c) mod nr_cpus)
          in dispatch_slots ops r cpu qid own_list own_llc nr_cpus off (unat quota) 0 (k, s))"

section \<open>The callback\<close>

text \<open>The keep path: the slice granted to the outgoing task, when it is kept.\<close>

definition keep_slice ::
  "'k dsq_ops \<Rightarrow> rodata \<Rightarrow> i32 \<Rightarrow> task_struct option \<Rightarrow> u64 \<Rightarrow> 'k \<Rightarrow> sched \<Rightarrow> (task_struct \<times> task_ctx \<times> u64) option" where
  "keep_slice ops r cpu prev nr_cpus k s =
     (case prev of None \<Rightarrow> None
      | Some p \<Rightarrow>
        if ts_queued p \<and> nr_queued ops k (mlfq_dsq_id 1 cpu) = 0 \<and> nr_queued ops k (mlfq_dsq_id 2 cpu) = 0
           \<and> nr_queued ops k (mlfq_dsq_id 3 cpu) = 0
        then case sd_tasks s (ts_pid p) of None \<Rightarrow> None
          | Some t \<Rightarrow>
              if 1 \<le> tc_queue t \<and> ucast (tc_queue t) \<le> MLFQ_NR_QUEUES
              then let cand = (case cpu_key cpu of None \<Rightarrow> 0
                          | Some c \<Rightarrow> steal_scan_off (sd_cpus s c) mod ucast nr_cpus);
                       cand = (if cand = cpu then (cand + 1) mod ucast nr_cpus else cand)
                   in if 1 < nr_cpus \<and> mlfq_remote_work_probe ops k cand cpu then None
                      else Some (p, t, mlfq_queue_slice r (tc_queue t))
              else None
        else None)"

definition own_llc_of :: "rodata \<Rightarrow> i32 \<Rightarrow> sched \<Rightarrow> u32 \<times> llc_cpu_list option" where
  "own_llc_of r cpu s =
     (if 0 \<le>s cpu \<and> unat cpu < MLFQ_MAX_CPUS
      then let llc = mlfq_cpu_llc r ! unat cpu
           in (llc, if llc < mlfq_nr_llcs r then sd_llc_cpus s llc else None)
      else (of_nat MLFQ_MAX_LLCS, None))"

definition bump_scan :: "i32 \<Rightarrow> sched \<Rightarrow> sched" where
  "bump_scan cpu s = (case cpu_key cpu of None \<Rightarrow> s
     | Some c \<Rightarrow> s\<lparr>sd_cpus := (sd_cpus s)(c := (sd_cpus s c)\<lparr>steal_scan_off := steal_scan_off (sd_cpus s c) + 1\<rparr>)\<rparr>)"

definition serve_queues ::
  "'k dsq_ops \<Rightarrow> rodata \<Rightarrow> i32 \<Rightarrow> u32 \<Rightarrow> llc_cpu_list option \<Rightarrow> u32 \<Rightarrow> 'k \<times> sched \<Rightarrow> u32 \<times> 'k \<times> sched" where
  "serve_queues ops r cpu nr_cpus own_list own_llc x =
     (let remaining = mlfq_dispatch_max_batch r;
          (m1, x) = mlfq_dispatch_queue ops r cpu 1 (mlfq_q1_quota r) nr_cpus own_list own_llc x;
          remaining = remaining - m1;
          (m2, x) = mlfq_dispatch_queue ops r cpu 2 (mlfq_q2_quota r) nr_cpus own_list own_llc x;
          remaining = remaining - m2;
          (m3, x) = mlfq_dispatch_queue ops r cpu 3 remaining nr_cpus own_list own_llc x
      in (remaining - m3, x))"

definition mlfq_dispatch ::
  "'k dsq_ops \<Rightarrow> rodata \<Rightarrow> callback \<Rightarrow> i32 \<Rightarrow> task_struct option \<Rightarrow> 'k \<times> sched \<Rightarrow> 'k \<times> sched" where
  "mlfq_dispatch ops r cb cpu prev = (\<lambda>(k, s).
     let nr_cpus = of_nat (sd_nr_cpu_ids s) :: u64;
         s = maybe_adapt r cb s;
         (k, s) =
           (if nr_cpus = 0 then (k, s)
            else let (own_llc, own_list) = own_llc_of r cpu s;
                     s = bump_scan cpu s
                 in case keep_slice ops r cpu prev nr_cpus k s of
                      Some (p, t, granted) \<Rightarrow>
                        (k, upd_stats (\<lambda>st. st\<lparr>st_keep_running := st_keep_running st + 1\<rparr>)
                              (set_task p (t\<lparr>tc_enq_at := 0\<rparr>) (add_call (Set_slice (ts_pid p) granted) s)))
                    | None \<Rightarrow> snd (serve_queues ops r cpu (ucast nr_cpus) own_list own_llc (k, s)))
     in (k, mlfq_op_lat_charge cb MLFQ_OP_LAT_DISPATCH s))"

section \<open>What a steal finds\<close>

definition legal_steal :: "'k dsq_ops \<Rightarrow> 'k \<Rightarrow> u8 \<Rightarrow> i32 \<Rightarrow> steal \<Rightarrow> bool" where
  "legal_steal ops k qid cpu best = (case best of None \<Rightarrow> True
     | Some (p, v, d, c) \<Rightarrow> c \<noteq> cpu \<and> d = mlfq_dsq_id qid c \<and> nr_queued ops k d \<noteq> 0
         \<and> dsq_peek ops k d = Some (p, v) \<and> ts_cpus p cpu)"

lemma consider_legal:
  "legal_steal ops k qid cpu best \<Longrightarrow> legal_steal ops k qid cpu (consider_cpu ops k qid cpu cand best)"
  by (auto simp: legal_steal_def consider_cpu_def eligible_head_def split: option.splits if_splits)

lemma fold_legal:
  assumes "\<And>i best. legal_steal ops k qid cpu best \<Longrightarrow> legal_steal ops k qid cpu (f i best)"
  shows "legal_steal ops k qid cpu best \<Longrightarrow> legal_steal ops k qid cpu (fold f xs best)"
  by (induction xs arbitrary: best) (simp_all add: assms)

lemma legal_none: "legal_steal ops k qid cpu None"
  by (simp add: legal_steal_def)

lemma tiers_legal:
  "legal_steal ops k qid cpu (tier_a ops k qid cpu cpus nr off)"
  "legal_steal ops k qid cpu (tier_b ops r k qid cpu own a nr_cpus off scan)"
  unfolding tier_a_def tier_b_def
  by (rule fold_legal [OF _ legal_none], simp add: consider_legal Let_def)+

text \<open>The rotation by the scan offset visits every index of the window.\<close>

lemma rotate_index: "unat ((off + of_nat i) mod (32 :: u32)) = (unat off + i) mod 32"
proof -
  have "unat (off + of_nat i) mod 32 = (unat off + i) mod 4294967296 mod 32"
    by (simp add: unat_word_ariths unat_of_nat mod_simps)
  also have "\<dots> = (unat off + i) mod 32" by (simp add: mod_mod_cancel)
  finally show ?thesis by (simp add: unat_mod_distrib)
qed

lemma rotate_covers:
  assumes "j < 32"
  shows "\<exists>i<32. unat ((off + of_nat i) mod (32 :: u32)) = j"
proof -
  define m where "m = unat off mod 32"
  have m: "m < 32" "unat off = 32 * (unat off div 32) + m" by (simp_all add: m_def)
  have "(unat off + (j + (32 - m)) mod 32) mod 32 = (unat off + (j + (32 - m))) mod 32"
    by (rule mod_add_right_eq)
  also have "unat off + (j + (32 - m)) = j + 32 * (unat off div 32 + 1)" using m by simp
  also have "(j + 32 * (unat off div 32 + 1)) mod 32 = j" using assms by (simp only: mod_mult_self2 mod_less)
  finally show ?thesis
    unfolding rotate_index by (intro exI [of _ "(j + (32 - m)) mod 32"]) simp
qed

lemma fold_none:
  assumes "\<And>i best. f i best = None \<longleftrightarrow> best = None \<and> \<not> hit i"
  shows "fold f xs best = None \<longleftrightarrow> best = None \<and> (\<forall>i \<in> set xs. \<not> hit i)"
  by (induction xs arbitrary: best) (auto simp: assms)

lemma consider_none: "consider_cpu ops k qid cpu cand best = None \<longleftrightarrow>
    best = None \<and> \<not> (cand \<noteq> cpu \<and> eligible_head ops k cpu (mlfq_dsq_id qid cand) \<noteq> None)"
  by (auto simp: consider_cpu_def split: option.split)

lemma tier_a_none:
  assumes "unat nr \<le> 32"
  shows "tier_a ops k qid cpu cpus nr off = None \<longleftrightarrow>
    (\<forall>j < unat nr. cpus ! j = cpu \<or> eligible_head ops k cpu (mlfq_dsq_id qid (cpus ! j)) = None)"
proof -
  define ix where "ix i = unat ((off + of_nat i) mod (32 :: u32))" for i
  define hit where "hit j \<longleftrightarrow> j < unat nr \<and> cpus ! j \<noteq> cpu \<and> eligible_head ops k cpu (mlfq_dsq_id qid (cpus ! j)) \<noteq> None" for j
  have "tier_a ops k qid cpu cpus nr off = None \<longleftrightarrow> (\<forall>i \<in> set [0..<32]. \<not> hit (ix i))"
    unfolding tier_a_def MLFQ_LLC_SCAN_MAX_def
    by (subst fold_none [where hit = "\<lambda>i. hit (ix i)"])
      (auto simp: Let_def consider_none hit_def ix_def word_le_nat_alt)
  also have "\<dots> \<longleftrightarrow> (\<forall>j. \<not> hit j)"
  proof
    assume *: "\<forall>i \<in> set [0..<32]. \<not> hit (ix i)"
    show "\<forall>j. \<not> hit j"
    proof (intro allI notI)
      fix j assume j: "hit j"
      then have "j < 32" using assms by (simp add: hit_def)
      then obtain i where i: "i < 32" "ix i = j" using rotate_covers unfolding ix_def by blast
      have "\<not> hit (ix i)" using * i(1) by simp
      then show False using i(2) j by simp
    qed
  qed simp
  finally show ?thesis by (auto simp: hit_def)
qed

text \<open>
  C16. A steal takes the head of the queue of another CPU, a task that may run on this one. While
  the own cache domain has a window, nothing is found only if no other CPU of the window has
  an eligible head: the rotation by the scan offset misses none of them.
\<close>

theorem steal_sound_complete:
  "case find_steal ops r k s qid cpu own_list own_llc nr_cpus off of
     Some (p, v, d, c) \<Rightarrow> c \<noteq> cpu \<and> d = mlfq_dsq_id qid c \<and> nr_queued ops k d \<noteq> 0
       \<and> dsq_peek ops k d = Some (p, v) \<and> ts_cpus p cpu
   | None \<Rightarrow> (case tier_a_window r own_list own_llc of None \<Rightarrow> True
       | Some (cpus, nr) \<Rightarrow> list_all (\<lambda>j. cpus ! j = cpu
           \<or> eligible_head ops k cpu (mlfq_dsq_id qid (cpus ! j)) = None) [0..<unat nr])"
proof -
  define fs where "fs = find_steal ops r k s qid cpu own_list own_llc nr_cpus off"
  define best where "best = (case tier_a_window r own_list own_llc of None \<Rightarrow> None
    | Some (cpus, nr) \<Rightarrow> tier_a ops k qid cpu cpus nr off)"
  have "legal_steal ops k qid cpu best"
    by (simp add: best_def tiers_legal legal_none split: option.split prod.split)
  then have "legal_steal ops k qid cpu fs"
    by (simp add: fs_def find_steal_def Let_def best_def [symmetric] tiers_legal)
  moreover have "list_all (\<lambda>j. cpus ! j = cpu \<or> eligible_head ops k cpu (mlfq_dsq_id qid (cpus ! j)) = None) [0..<unat nr]"
    if "fs = None" and w: "tier_a_window r own_list own_llc = Some (cpus, nr)" for cpus nr
  proof -
    have "unat nr \<le> 32"
      using w by (auto simp: tier_a_window_def const_defs word_less_nat_alt split: option.splits if_splits)
    moreover have "tier_a ops k qid cpu cpus nr off = None"
      using that by (auto simp: fs_def find_steal_def Let_def split: if_splits)
    ultimately show ?thesis by (simp add: tier_a_none list_all_iff)
  qed
  ultimately show ?thesis
    unfolding fs_def [symmetric] by (auto simp: legal_steal_def split: option.split prod.split)
qed

section \<open>What one call moves\<close>

text \<open>The same queues with a counter of the successful moves.\<close>

definition counted_ops :: "'k dsq_ops \<Rightarrow> ('k \<times> nat) dsq_ops" where
  "counted_ops ops = \<lparr>
     nr_queued = (\<lambda>(k, n). nr_queued ops k),
     dsq_peek = (\<lambda>(k, n). dsq_peek ops k),
     dsq_move = (\<lambda>d (k, n). case dsq_move ops d k of (ok, k) \<Rightarrow> (ok, (k, if ok then Suc n else n)))\<rparr>"

lemma counted_move: "dsq_move (counted_ops ops) d (k, n)
    = (fst (dsq_move ops d k), (snd (dsq_move ops d k), if fst (dsq_move ops d k) then Suc n else n))"
  by (simp add: counted_ops_def case_prod_beta)

lemma slots_moved:
  assumes "unat moved + n < 4294967296"
  shows "let y = dispatch_slots (counted_ops ops) r cpu qid ol oll nr off n moved ((k, c), s)
    in \<exists>m. m \<le> n \<and> fst y = moved + of_nat m \<and> snd (fst (snd y)) = c + m"
  using assms
proof (induction n arbitrary: moved k c s)
  case 0
  then show ?case by simp
next
  case (Suc n)
  define P where "P y \<longleftrightarrow> (\<exists>m. m \<le> Suc n \<and> fst y = moved + of_nat m \<and> snd (fst (snd y)) = c + m)"
    for y :: "u32 \<times> ('a \<times> nat) \<times> sched"
  have step: "P (dispatch_slots (counted_ops ops) r cpu qid ol oll nr off n (moved + 1) ((k', Suc c), s'))" for k' s'
  proof -
    have "unat (moved + 1) + n < 4294967296"
      using Suc.prems by (simp add: unat_word_ariths)
    from Suc.IH [OF this, of k' "Suc c" s'] obtain m where m: "m \<le> n"
      "fst (dispatch_slots (counted_ops ops) r cpu qid ol oll nr off n (moved + 1) ((k', Suc c), s')) = moved + 1 + of_nat m"
      "snd (fst (snd (dispatch_slots (counted_ops ops) r cpu qid ol oll nr off n (moved + 1) ((k', Suc c), s')))) = Suc c + m"
      unfolding Let_def by blast
    then show ?thesis unfolding P_def by (intro exI [of _ "Suc m"]) (simp add: add.assoc)
  qed
  have same: "P (dispatch_slots (counted_ops ops) r cpu qid ol oll nr off n moved ((k', c), s'))" for k' s'
    using Suc.IH [of moved k' c s'] Suc.prems unfolding P_def Let_def by (auto intro: le_SucI)
  have none: "P (moved, (k', c), s')" for k' s' by (auto simp: P_def intro: exI [of _ 0])
  have "P (dispatch_slots (counted_ops ops) r cpu qid ol oll nr off (Suc n) moved ((k, c), s))"
    using step same none by (simp add: Let_def counted_move case_prod_beta split: option.split)
  then show ?case by (simp only: P_def Let_def)
qed

lemma queue_moved:
  "let y = mlfq_dispatch_queue (counted_ops ops) r cpu qid quota nr ol oll x
   in unat (fst y) \<le> unat quota \<and> snd (fst (snd y)) = snd (fst x) + unat (fst y)"
proof -
  obtain k c s where x: "x = ((k, c), s)" by (metis surj_pair)
  define off where "off = (case cpu_key cpu of None \<Rightarrow> 0 | Some c \<Rightarrow> steal_scan_off (sd_cpus s c) mod nr)"
  have q: "unat quota < 4294967296" by (rule u32_unat_less)
  from slots_moved [of 0 "unat quota" ops r cpu qid ol oll nr off k c s] q obtain m where m:
    "m \<le> unat quota"
    "fst (dispatch_slots (counted_ops ops) r cpu qid ol oll nr off (unat quota) 0 ((k, c), s)) = of_nat m"
    "snd (fst (snd (dispatch_slots (counted_ops ops) r cpu qid ol oll nr off (unat quota) 0 ((k, c), s)))) = c + m"
    by (auto simp: Let_def)
  have "unat (of_nat m :: u32) = m" using m(1) q by (intro unat_of_nat_u32) linarith
  with m show ?thesis
    by (simp add: x mlfq_dispatch_queue_def Let_def off_def [symmetric])
qed

text \<open>
  C19. With quotas that leave a share for Q3, as \<open>mlfq_init\<close> demands, serving the three queues moves
  at most one dispatch batch, and the remainder it computes without sign never wraps.
\<close>

theorem dispatch_batch_bound:
  assumes "unat (mlfq_q1_quota r) + unat (mlfq_q2_quota r) < unat (mlfq_dispatch_max_batch r)"
  shows "let y = serve_queues (counted_ops ops) r cpu nr ol oll ((k, 0), s)
    in snd (fst (snd y)) + unat (fst y) = unat (mlfq_dispatch_max_batch r)"
proof -
  let ?b = "mlfq_dispatch_max_batch r"
  let ?d = "\<lambda>qid quota x. mlfq_dispatch_queue (counted_ops ops) r cpu qid quota nr ol oll x"
  define y1 where "y1 = ?d 1 (mlfq_q1_quota r) ((k, 0), s)"
  define y2 where "y2 = ?d 2 (mlfq_q2_quota r) (snd y1)"
  define y3 where "y3 = ?d 3 (?b - fst y1 - fst y2) (snd y2)"
  have m1: "unat (fst y1) \<le> unat (mlfq_q1_quota r)" "snd (fst (snd y1)) = unat (fst y1)"
    using queue_moved [of ops r cpu 1 "mlfq_q1_quota r" nr ol oll "((k, 0), s)"]
    by (simp_all add: y1_def Let_def)
  have m2: "unat (fst y2) \<le> unat (mlfq_q2_quota r)" "snd (fst (snd y2)) = snd (fst (snd y1)) + unat (fst y2)"
    using queue_moved [of ops r cpu 2 "mlfq_q2_quota r" nr ol oll "snd y1"]
    by (simp_all add: y2_def Let_def)
  have m3: "unat (fst y3) \<le> unat (?b - fst y1 - fst y2)" "snd (fst (snd y3)) = snd (fst (snd y2)) + unat (fst y3)"
    using queue_moved [of ops r cpu 3 "?b - fst y1 - fst y2" nr ol oll "snd y2"]
    by (simp_all add: y3_def Let_def)
  have r1: "unat (?b - fst y1) = unat ?b - unat (fst y1)"
    using m1 assms by (intro unat_sub) (simp add: word_le_nat_alt)
  have r2: "unat (?b - fst y1 - fst y2) = unat ?b - unat (fst y1) - unat (fst y2)"
    using m1 m2 assms r1 by (subst unat_sub) (auto simp: word_le_nat_alt)
  have r3: "unat (?b - fst y1 - fst y2 - fst y3) = unat ?b - unat (fst y1) - unat (fst y2) - unat (fst y3)"
    using m3 r2 by (subst unat_sub) (auto simp: word_le_nat_alt)
  have "serve_queues (counted_ops ops) r cpu nr ol oll ((k, 0), s) = (?b - fst y1 - fst y2 - fst y3, snd y3)"
    by (simp add: serve_queues_def Let_def case_prod_beta y1_def y2_def y3_def)
  then show ?thesis
    using m1 m2 m3 r2 r3 assms by (simp add: Let_def)
qed

section \<open>The invariant\<close>

lemma account_steal_inv:
  assumes inv: "sched_inv r s" and q: "1 \<le> unat qid" "unat qid \<le> 3"
  shows "sched_inv r (account_steal r qid cpu p best_cpu s)"
proof -
  define s1 where "s1 = (case sd_tasks s (ts_pid p) of None \<Rightarrow> s
    | Some t \<Rightarrow> case runnable_enter qid (mlfq_llc_of_cpu r cpu) (t, s) of (t, s) \<Rightarrow> set_task p t s)"
  have "sched_inv r s1"
  proof (cases "sd_tasks s (ts_pid p)")
    case None
    then show ?thesis using inv by (simp add: s1_def)
  next
    case (Some t)
    have "working r p (runnable_enter qid (mlfq_llc_of_cpu r cpu) (t, s))"
      by (rule enter_working [OF working_stored [OF inv Some] q])
    then show ?thesis using Some by (simp add: s1_def case_prod_beta working_def)
  qed
  then show ?thesis
    by (simp add: account_steal_def Let_def s1_def [symmetric] sched_inv_same [OF same_parts_upd(2)])
qed

lemma dispatch_slots_inv:
  assumes "1 \<le> unat qid" and "unat qid \<le> 3" and "sched_inv r s"
  shows "sched_inv r (snd (snd (dispatch_slots ops r cpu qid ol oll nr off n moved (k, s))))"
  using assms(3)
proof (induction n arbitrary: moved k s)
  case 0
  then show ?case by simp
next
  case (Suc n)
  then show ?case
    using account_steal_inv [OF Suc.prems assms(1, 2)]
    by (simp add: Let_def case_prod_beta split: option.split)
qed

lemma dispatch_queue_inv:
  assumes "1 \<le> unat qid" and "unat qid \<le> 3" and "sched_inv r (snd x)"
  shows "sched_inv r (snd (snd (mlfq_dispatch_queue ops r cpu qid quota nr ol oll x)))"
  using dispatch_slots_inv [OF assms, of ops cpu ol oll nr _ "unat quota" 0 "fst x"]
  by (simp add: mlfq_dispatch_queue_def case_prod_beta Let_def assms(3))

lemma dispatch_inv:
  assumes inv0: "sched_inv r s0"
  shows "sched_inv r (snd (mlfq_dispatch ops r cb cpu prev (k, s0)))"
proof -
  define s where "s = maybe_adapt r cb s0"
  have inv: "sched_inv r s" unfolding s_def by (rule maybe_adapt_inv [OF inv0])
  define b where "b = bump_scan cpu s"
  have binv: "sched_inv r b"
    using inv by (auto simp: b_def bump_scan_def sched_inv_def split: option.split)
  have serve: "sched_inv r (snd (snd (serve_queues ops r cpu nr ol oll (k, b))))" for nr ol oll
    unfolding serve_queues_def Let_def case_prod_beta fst_conv snd_conv
    by (intro dispatch_queue_inv) (simp_all add: binv)
  have keep: "sched_inv r (upd_stats f (set_task p (t\<lparr>tc_enq_at := 0\<rparr>) (add_call c b)))"
    if "keep_slice ops r cpu prev n k b = Some (p, t, granted)" for n p t granted f c
  proof -
    have st: "sd_tasks b (ts_pid p) = Some t"
      using that by (auto simp: keep_slice_def Let_def split: option.splits if_splits)
    have "working r p (t\<lparr>tc_enq_at := 0\<rparr>, b)"
      by (rule working_same_task [OF _ working_stored [OF binv st]]) (simp add: same_task_def)
    then have "sched_inv r (set_task p (t\<lparr>tc_enq_at := 0\<rparr>) (add_call c b))"
      by (intro working_set_task) (rule working_parts, assumption, simp)
    then show ?thesis by (simp add: sched_inv_same [OF same_parts_upd(2)])
  qed
  show ?thesis
    using inv serve keep
    by (auto simp: mlfq_dispatch_def Let_def case_prod_beta s_def [symmetric] b_def [symmetric]
        sched_inv_same [OF same_parts_upd(4)] split: option.split)
qed

end
