(* ===== verification/Sched.thy ===== *)
theory Sched
  imports Startup SchedInit SelectCpu EnqueueOk Dispatch
begin

text \<open>
  The scheduler as a transition system: a step is one callback of the ops table, one of the two
  hooks, or a publish of the tree daemon, on any input, and a run starts from \<open>mlfq_init\<close> on
  the zeroed program with the constants the front-end writes. The theorems say what holds in
  every reachable state.
\<close>

section \<open>Steps\<close>

text \<open>
  The kernel's dispatch queues and idle marks may be in any state at a step. A task is
  initialised, enabled or removed only outside the runnable set.
\<close>

inductive sched_step :: "'k dsq_ops \<Rightarrow> 'k idle_ops \<Rightarrow> rodata \<Rightarrow> sched \<Rightarrow> sched \<Rightarrow> bool"
  for dq idle r where
  select_cpu: "sched_step dq idle r s (snd (snd (mlfq_select_cpu idle r cb ws waker p prev (k, s))))"
| enqueue: "sched_step dq idle r s (mlfq_enqueue r cb p flags s)"
| dispatch: "sched_step dq idle r s (snd (mlfq_dispatch dq r cb cpu prev_task (k, s)))"
| running: "sched_step dq idle r s (mlfq_running r cb p s)"
| stopping: "sched_step dq idle r s (mlfq_stopping r cb p runnable s)"
| quiescent: "sched_step dq idle r s (mlfq_quiescent p s)"
| update_idle: "sched_step dq idle r s (mlfq_update_idle r cpu is_idle s)"
| init_task: "unowned s p \<Longrightarrow> sched_step dq idle r s (snd (mlfq_init_task cb p s))"
| enable: "unowned s p \<Longrightarrow> sched_step dq idle r s (mlfq_enable cb p s)"
| exit_task: "unowned s p \<Longrightarrow> sched_step dq idle r s (mlfq_exit_task p s)"
| cpu_release: "sched_step dq idle r s (mlfq_cpu_release cb anywhere cpu s)"
| sched_switch: "sched_step dq idle r s (mlfq_sched_switch r cb anywhere generic nr next_prio s)"
| amdgpu_cs: "sched_step dq idle r s (mlfq_amdgpu_cs cb cur s)"
| amdgpu_cs_ioctl: "sched_step dq idle r s (mlfq_amdgpu_cs_ioctl cb cur s)"
| gpu_sched_queue: "sched_step dq idle r s (mlfq_gpu_sched_queue cb cur s)"
| publish: "sched_step dq idle r s (s\<lparr>sd_kernel := published\<rparr>)"

text \<open>A run of the started program.\<close>

inductive sched_start :: "rodata \<Rightarrow> sched \<Rightarrow> bool" for r where
  started: "mlfq_init r nr create_dsq local_on (sched_zero m) = (0, s) \<Longrightarrow> sched_start r s"

definition sched_reachable :: "'k dsq_ops \<Rightarrow> 'k idle_ops \<Rightarrow> rodata \<Rightarrow> sched \<Rightarrow> bool" where
  "sched_reachable dq idle r s \<longleftrightarrow> (\<exists>s0. sched_start r s0 \<and> (sched_step dq idle r)\<^sup>*\<^sup>* s0 s)"

lemma reachable_start: "sched_start r s \<Longrightarrow> sched_reachable dq idle r s"
  by (auto simp: sched_reachable_def)

lemma reachable_step: "sched_reachable dq idle r s \<Longrightarrow> sched_step dq idle r s s' \<Longrightarrow> sched_reachable dq idle r s'"
  unfolding sched_reachable_def by (meson rtranclp.rtrancl_into_rtrancl)

text \<open>What every step keeps and every start establishes holds in every reachable state.\<close>

locale inductive_invariant =
  fixes start :: "'s \<Rightarrow> bool" and step :: "'s \<Rightarrow> 's \<Rightarrow> bool" and inv :: "'s \<Rightarrow> bool"
  assumes start_inv: "start s \<Longrightarrow> inv s"
    and step_inv: "step s s' \<Longrightarrow> inv s \<Longrightarrow> inv s'"
begin

lemma runs_inv: "step\<^sup>*\<^sup>* s s' \<Longrightarrow> inv s \<Longrightarrow> inv s'"
  by (induction rule: rtranclp_induct) (auto intro: step_inv)

lemma reachable_holds: "\<exists>s0. start s0 \<and> step\<^sup>*\<^sup>* s0 s \<Longrightarrow> inv s"
  using runs_inv start_inv by blast

end

section \<open>The invariant is kept\<close>

lemma select_cpu_inv:
  assumes inv: "sched_inv r s"
  shows "sched_inv r (snd (snd (mlfq_select_cpu idle r cb ws waker p prev (k, s))))"
proof (cases "sd_tasks s (ts_pid p)")
  case None
  then show ?thesis using inv by (simp add: mlfq_select_cpu_def)
next
  case (Some t)
  have w: "working r p (t, s)" by (rule working_stored [OF inv Some])
  define t1 where "t1 = (if sync_wake ws t then clear_drm t else t)\<lparr>tc_wake_cpu_state := 0\<rparr>"
  have st: "same_task t t1" "same_task t (clear_drm t)" "same_task t (t1\<lparr>tc_wake_cpu_state := x\<rparr>)" for x
    by (simp_all add: same_task_def t1_def clear_drm_def)
  have w1: "working r p (clear_drm t, add_call c s)" for c
    by (rule working_same_task [OF st(2) working_parts [OF w same_parts_upd(1)]])
  note ws = working_set_task [OF working_same_task [OF st(1) w]]
    working_set_task [OF working_same_task [OF st(3) w]] working_set_task [OF w1]
  define h where "h = (if sync_wake ws t then handoff_cpu s p waker else None)"
  show ?thesis
    unfolding mlfq_select_cpu_def case_prod_conv Some option.case Let_def t1_def [symmetric] h_def [symmetric]
    using ws by (simp add: case_prod_beta split: option.split)
qed

lemma sched_step_inv:
  assumes fit: "gauge_consts_fit r" and "sched_step dq idle r s s'" and inv: "sched_inv r s"
  shows "sched_inv r s'"
  using assms(2)
proof (cases rule: sched_step.cases)
  case (publish k)
  then show ?thesis using inv by (simp add: sched_inv_def)
next
  case update_idle
  then show ?thesis using inv sched_inv_same [OF update_idle_parts] by simp
next
  case cpu_release
  then show ?thesis using inv sched_inv_same [OF cpu_release_parts] by simp
next
  case sched_switch
  then show ?thesis using inv sched_inv_same [OF sched_switch_parts] by simp
qed (simp_all add: inv fit select_cpu_inv enqueue_inv dispatch_inv running_inv stopping_inv quiescent_inv
    init_task_inv enable_inv exit_task_inv tracepoint_inv)

text \<open>What the constants must satisfy for the gauges and the clocks not to wrap.\<close>

definition consts_fit :: "rodata \<Rightarrow> bool" where
  "consts_fit r \<longleftrightarrow> gauge_consts_fit r
   \<and> unat (mlfq_q1_slice_ns r) < 72057594037927936 \<and> unat (mlfq_q2_slice_ns r) < 72057594037927936
   \<and> unat (mlfq_q3_slice_ns r) < 72057594037927936"

lemma queue_slice_fits: "consts_fit r \<Longrightarrow> unat (mlfq_queue_slice r q) < 72057594037927936"
  by (simp add: consts_fit_def mlfq_queue_slice_def)

lemma zero_present: "queues_present (sched_zero m)"
  by (simp add: queues_present_def sched_zero_def)

lemma gauges_inv_zero: "gauges_inv Map.empty \<lparr>rg_llc = (\<lambda>_. 0), rg_queue = (\<lambda>_. 0)\<rparr>"
  by (simp add: gauges_inv_def tally_def llc_key_def queue_key_def)

lemma init_inv:
  assumes fit: "consts_fit r" and "mlfq_init r nr create_dsq local_on (sched_zero m) = (0, s)"
  shows "sched_inv r s \<and> queues_present s \<and> sd_nr_cpu_ids s = unat nr \<and> sd_calls s = []"
proof -
  define s1 where "s1 = (sched_zero m)\<lparr>sd_nr_cpu_ids := unat nr, sd_steal_scan := clamp_scan nr\<rparr>"
  have qs: "queues_present s1" by (simp add: s1_def queues_present_def sched_zero_def)
  obtain s' where s': "init_slices r [1, 2, 3] s1 = (None, s')" "queues_present s'"
    "sd_tasks s' = sd_tasks s1" "sd_run s' = sd_run s1" "sd_adapt s' = sd_adapt s1" "sd_cpus s' = sd_cpus s1"
    "sd_nr_cpu_ids s' = sd_nr_cpu_ids s1"
    "\<forall>q qc. sd_queues s' q = Some qc \<longrightarrow> qc_max_slice_ns qc = mlfq_queue_slice r q
       \<or> q \<notin> {1, 2, 3} \<and> sd_queues s1 q = Some qc"
    using init_slices_present [OF qs, of r] by blast
  have calls: "sd_calls (snd (init_slices r keys z)) = sd_calls z" for keys z
    by (induction keys arbitrary: z) (simp_all split: option.split)
  have ok: "fst (mlfq_init r nr create_dsq local_on (sched_zero m)) = 0" using assms(2) by simp
  then have c: "1 \<le> unat nr" "unat nr \<le> MLFQ_MAX_CPUS" "create_dsqs create_dsq (unat nr) = None"
    "mlfq_q1_quota r + mlfq_q2_quota r < mlfq_dispatch_max_batch r" "mlfq_tree_t_int_ns r < mlfq_tree_t_bound_ns r"
    "mlfq_dsq_id 3 (nr - 1) < local_on"
    using init_result [OF zero_present] ok by simp_all
  have nz: "nr \<noteq> 0" using c(1) by auto
  have q3: "(ucast MLFQ_NR_QUEUES :: u8) = 3" by (simp add: const_defs)
  have gates: "\<not> MLFQ_MAX_CPUS < unat nr" "\<not> mlfq_dispatch_max_batch r \<le> mlfq_q1_quota r + mlfq_q2_quota r"
    "\<not> mlfq_tree_t_bound_ns r \<le> mlfq_tree_t_int_ns r" "\<not> local_on \<le> mlfq_dsq_id 3 (nr - 1)"
    using c by simp_all
  have s: "s = s'\<lparr>sd_adapt := (sd_adapt s')\<lparr>ad_state := adapt_seed r\<rparr>\<rparr>"
    using assms(2) s'(1) unfolding s1_def
    by (simp add: mlfq_init_def Let_def q3 gates c(3) nz del: init_slices.simps)
  have slices: "slice_fits qc" if "sd_queues s' q = Some qc" for q qc
  proof (cases "qc_max_slice_ns qc = mlfq_queue_slice r q")
    case True
    then show ?thesis using queue_slice_fits [OF fit] by (simp add: slice_fits_def)
  next
    case False
    then have "sd_queues s1 q = Some qc" using s'(8) that by blast
    then show ?thesis by (auto simp: s1_def sched_zero_def slice_fits_def split: if_splits)
  qed
  have ad: "adapt_inv r ((sd_adapt s')\<lparr>ad_state := adapt_seed r\<rparr>)"
    using s'(5) by (simp add: s1_def sched_zero_def adapt_zero_def adapt_inv_def adapt_seed_def)
  have "sched_inv r s"
    using s' slices ad gauges_inv_zero
    by (auto simp: s sched_inv_def s1_def sched_zero_def cpu_state_zero_def)
  moreover have "sd_calls s' = sd_calls s1"
    using calls [of "[1, 2, 3]" s1] unfolding s'(1) by simp
  ultimately show ?thesis using s'(2, 7) by (simp add: s queues_present_def s1_def sched_zero_def)
qed

interpretation sched_run: inductive_invariant "sched_start r" "sched_step dq idle r" "\<lambda>s. consts_fit r \<longrightarrow> sched_inv r s"
  for dq idle r
proof
  show "consts_fit r \<longrightarrow> sched_inv r s" if "sched_start r s" for s
    using that init_inv by (auto elim: sched_start.cases)
  show "consts_fit r \<longrightarrow> sched_inv r s'" if "sched_step dq idle r s s'" "consts_fit r \<longrightarrow> sched_inv r s" for s s'
    using that sched_step_inv by (auto simp: consts_fit_def)
qed

lemma sched_reachable_inv: "consts_fit r \<Longrightarrow> sched_reachable dq idle r s \<Longrightarrow> sched_inv r s"
  unfolding sched_reachable_def by (drule sched_run.reachable_holds) simp

end
