(* ===== verification/Frame.thy ===== *)
theory Frame
  imports Sched
begin

text \<open>
  What the callbacks leave alone. A part of the state that none of the ordinary writes touches is
  the same after every callback, with the exception of \<open>stopping\<close>, which moves a clock and emits
  the samples, and of a publish. \<open>Clocks\<close> uses this for the queues and \<open>System\<close> for the tree and
  the samples.
\<close>

section \<open>Parts the helpers leave alone\<close>

text \<open>The helpers and the branches of the enqueue work on a copy of the task they are given.\<close>

locale bystander =
  fixes f :: "sched \<Rightarrow> 'x"
  assumes writes [simp]:
    "f (s\<lparr>sd_idle_count := a1\<rparr>) = f s" "f (s\<lparr>sd_run := a2\<rparr>) = f s" "f (s\<lparr>sd_llc_idle := a3\<rparr>) = f s"
    "f (s\<lparr>sd_stats := a4\<rparr>) = f s" "f (s\<lparr>sd_adapt := a5\<rparr>) = f s" "f (s\<lparr>sd_calls := a6\<rparr>) = f s"
    "f (s\<lparr>sd_cpus := a7\<rparr>) = f s" "f (s\<lparr>sd_q1_occ := a8\<rparr>) = f s" "f (s\<lparr>sd_rtdl := a9\<rparr>) = f s"
    "f (s\<lparr>sd_op_lat := a10\<rparr>) = f s" "f (s\<lparr>sd_gpu_submit_total := a11\<rparr>) = f s"
    "f (s\<lparr>sd_gpu_trace_mask := a12\<rparr>) = f s"
begin

lemma helpers [simp]:
  "f (add_call c s) = f s" "f (upd_stats g s) = f s"
  "f (mlfq_q1_set cpu b s) = f s" "f (mlfq_op_lat_charge cb op s) = f s" "f (mlfq_idle_kick cb cpu s) = f s"
  "f (snd (runnable_enter qid llc x)) = f (snd x)" "f (snd (runnable_exit x)) = f (snd x)"
  "f (maybe_adapt r cb s) = f s" "f (snd (measure_wait r now x)) = f (snd x)" "f (bump_scan cpu s) = f s"
  "f (wakeup_count cb s) = f s"
  by (simp_all add: add_call_def upd_stats_def mlfq_q1_set_def mlfq_op_lat_charge_def
      mlfq_idle_kick_def runnable_enter_def runnable_exit_def maybe_adapt_def measure_wait_def bump_scan_def
      wakeup_count_def case_prod_beta Let_def split: option.split)

lemma enq_steps [simp]:
  "f (snd (enq_place r cb p flags cpu g x)) = f (snd x)"
  "f (snd (enq_local r cb p flags cpu d g x)) = f (snd x)"
  "f (snd (enq_preempt r cb p flags x)) = f (snd x)"
  by (simp_all add: enq_place_def enq_local_def enq_preempt_def case_prod_beta Let_def)

lemma enq_branches [simp]:
  "f (snd (enq_pinned r cb p flags x)) = f (snd x)" "f (snd (enq_movable r cb p flags x)) = f (snd x)"
  "f (snd (enq_classify r cb p flags x)) = f (snd x)" "f (snd (enq_stay r cb p flags q x)) = f (snd x)"
  by (simp_all add: enq_pinned_def enq_movable_def enq_classify_def enq_stay_def case_prod_beta Let_def)

lemma drain_same [simp]: "f (mlfq_rtdl_drain r a b nr cpu now s) = f s"
proof -
  have "f (fold (\<lambda>id. add_call (Dsq_reenq id)) qs z) = f z" for qs z
    by (induction qs arbitrary: z) simp_all
  then show ?thesis by (simp add: mlfq_rtdl_drain_def Let_def split: option.split)
qed

lemma cpu_same:
  "f (mlfq_update_idle r cpu idle s) = f s" "f (mlfq_cpu_release cb b cpu s) = f s"
  "f (mlfq_sched_switch r cb a b nr prio s) = f s"
  by (simp_all add: mlfq_update_idle_def mlfq_cpu_release_def mlfq_sched_switch_def Let_def split: option.split)

end

section \<open>Parts the callbacks leave alone\<close>

locale untouched = bystander +
  assumes tasks [simp]: "f (s\<lparr>sd_tasks := a\<rparr>) = f s"
begin

lemma stored [simp]: "f (set_task p t s) = f s"
  by (simp add: set_task_def)

lemma enqueue_same: "f (mlfq_enqueue r cb p flags s) = f s"
  by (simp add: mlfq_enqueue_def enq_decide_def case_prod_beta Let_def split: option.split)

lemma steal_same [simp]: "f (account_steal r qid cpu p c s) = f s"
  by (simp add: account_steal_def case_prod_beta Let_def split: option.split)

lemma slots_same: "f (snd (snd (dispatch_slots dq r cpu qid ol oll nr off n moved (k, s)))) = f s"
proof (induction n arbitrary: moved k s)
  case (Suc n)
  then show ?case by (simp add: Let_def case_prod_beta split: option.split)
qed simp

lemma dispatch_queue_same [simp]: "f (snd (snd (mlfq_dispatch_queue dq r cpu qid quota nr ol oll x))) = f (snd x)"
  by (cases x) (simp add: mlfq_dispatch_queue_def Let_def slots_same)

lemma dispatch_same: "f (snd (mlfq_dispatch dq r cb cpu prev (k, s))) = f s"
  by (simp add: mlfq_dispatch_def serve_queues_def Let_def case_prod_beta split: option.split)

lemma select_same: "f (snd (snd (mlfq_select_cpu idle r cb ws waker p prev (k, s)))) = f s"
  by (simp add: mlfq_select_cpu_def Let_def case_prod_beta split: option.split)

lemma gpu_same [simp]: "f (mlfq_gpu_submit_inc cb p b s) = f s"
  by (simp add: mlfq_gpu_submit_inc_def Let_def split: option.split)

lemma life_same:
  "f (mlfq_running r cb p s) = f s" "f (mlfq_quiescent p s) = f s" "f (snd (mlfq_init_task cb p s)) = f s"
  "f (mlfq_enable cb p s) = f s" "f (mlfq_exit_task p s) = f s" "f (mlfq_amdgpu_cs cb cur s) = f s"
  "f (mlfq_amdgpu_cs_ioctl cb cur s) = f s" "f (mlfq_gpu_sched_queue cb cur s) = f s"
  by (simp_all add: mlfq_running_def mlfq_quiescent_def mlfq_init_task_def mlfq_enable_def mlfq_exit_task_def
      tracepoint_defs Let_def case_prod_beta split: option.split)

lemma step_same:
  assumes "sched_step dq idle r s s'"
  obtains (same) "f s' = f s" | (stops) cb p b where "s' = mlfq_stopping r cb p b s"
    | (publishes) k where "s' = s\<lparr>sd_kernel := k\<rparr>"
  using assms
  by (cases rule: sched_step.cases)
    (auto simp: select_same enqueue_same dispatch_same life_same cpu_same)

end

end
