(* ===== verification/Clocks.thy ===== *)
theory Clocks
  imports Frame
begin

text \<open>
  The virtual clocks over the steps of the scheduler. Only the charge of a run at \<open>stopping\<close>
  moves one, by \<open>mlfq_queue_advance_clock\<close>; every other callback leaves the queues alone.
\<close>

section \<open>The queues\<close>

interpretation queues: untouched sd_queues
  by unfold_locales simp_all

lemma emit_queues [simp]: "sd_queues (snd (emit_sample cb p d x)) = sd_queues (snd x)"
  by (simp add: emit_sample_def case_prod_beta Let_def)

text \<open>The charge of a run moves the clock of one queue.\<close>

definition clocks_advance :: "sched \<Rightarrow> sched \<Rightarrow> bool" where
  "clocks_advance s s' \<longleftrightarrow> (\<forall>q. case sd_queues s q of None \<Rightarrow> sd_queues s' q = None
     | Some qc \<Rightarrow> \<exists>vr. sd_queues s' q = Some (mlfq_queue_advance_clock vr qc))"

lemma advance_self: "mlfq_queue_advance_clock (qc_clock q) q = q"
  by (simp add: mlfq_queue_advance_clock_def)

lemma clocks_same: "sd_queues s' = sd_queues s \<Longrightarrow> clocks_advance s s'"
  using advance_self by (auto simp: clocks_advance_def split: option.split) metis

lemma charge_clocks: "clocks_advance (snd x) (snd (charge_run r cb p b dl x))"
proof -
  obtain t s where x: "x = (t, s)" by (cases x)
  define u where "u = mlfq_ema_climb_task r dl (mlfq_update_vruntime dl t)"
  define s1 where "s1 = (case cpu_key (cb_cpu cb) of None \<Rightarrow> s
      | Some c \<Rightarrow> s\<lparr>sd_cpus := (sd_cpus s)(c := charge_cpu r (cb_now cb) dl (sd_cpus s c))\<rparr>)"
  have s1: "sd_queues s1 = sd_queues s" by (simp add: s1_def split: option.split)
  have "sd_queues (snd (charge_run r cb p b dl (t, s))) = (case sd_queues s (tc_queue u) of None \<Rightarrow> sd_queues s
      | Some q \<Rightarrow> (sd_queues s)(tc_queue u \<mapsto> mlfq_queue_advance_clock (tc_vruntime u) q))"
    unfolding charge_run_def Let_def case_prod_conv u_def [symmetric] s1_def [symmetric]
    using s1 by (simp split: option.split)
  then show ?thesis
    using advance_self unfolding x clocks_advance_def by (auto split: option.split) metis+
qed

lemma stopping_clocks: "clocks_advance s (mlfq_stopping r cb p b s)"
proof (cases "sd_tasks s (ts_pid p)")
  case None
  then show ?thesis by (intro clocks_same) (simp add: mlfq_stopping_def)
next
  case (Some t)
  define d where "d = (if tc_last_run_at t \<noteq> 0 \<and> mlfq_time_before (tc_last_run_at t) (cb_now cb)
       then cb_now cb - tc_last_run_at t else 0)"
  define x where "x = (if d \<noteq> 0 then charge_run r cb p b d (t\<lparr>tc_last_run_at := 0\<rparr>, maybe_adapt r cb s)
       else (t\<lparr>tc_last_run_at := 0\<rparr>, maybe_adapt r cb s))"
  have "clocks_advance s (snd x)"
  proof (cases "d = 0")
    case True
    then show ?thesis by (intro clocks_same) (simp add: x_def)
  next
    case False
    then show ?thesis
      using charge_clocks [of "(t\<lparr>tc_last_run_at := 0\<rparr>, maybe_adapt r cb s)" r cb p b d]
      by (simp add: x_def clocks_advance_def)
  qed
  moreover have "sd_queues (mlfq_stopping r cb p b s) = sd_queues (snd x)"
    unfolding mlfq_stopping_def Let_def maybe_adapt_tasks Some option.case d_def [symmetric] case_prod_beta
      x_def [symmetric]
    by (simp split: option.split)
  ultimately show ?thesis unfolding clocks_advance_def by (simp only: simp_thms)
qed

lemma step_clocks:
  assumes "sched_step dq idle r s s'"
  shows "clocks_advance s s'"
  using assms
proof (cases rule: queues.step_same)
  case stops
  then show ?thesis by (simp add: stopping_clocks)
qed (simp_all add: clocks_same)

lemma clocks_advanceD:
  assumes "clocks_advance s s'" and "sd_queues s q = Some qc"
  shows "\<exists>vr. sd_queues s' q = Some (mlfq_queue_advance_clock vr qc)"
proof -
  have "case sd_queues s q of None \<Rightarrow> sd_queues s' q = None
     | Some qc \<Rightarrow> \<exists>vr. sd_queues s' q = Some (mlfq_queue_advance_clock vr qc)"
    using assms(1) unfolding clocks_advance_def by (rule spec)
  then show ?thesis by (simp add: assms(2))
qed

text \<open>
  C18. No step of the scheduler moves a virtual clock back, changes the request slice of a queue or
  loses a queue; a clock moves only to a later position on the wrapping time axis.
\<close>

theorem clocks_monotone:
  assumes "sched_step dq idle r s s'" and "sd_queues s q = Some qc"
  shows "\<exists>qc'. sd_queues s' q = Some qc' \<and> qc_max_slice_ns qc' = qc_max_slice_ns qc
    \<and> (qc_clock qc' = qc_clock qc \<or> mlfq_time_before (qc_clock qc) (qc_clock qc'))"
  using clocks_advanceD [OF step_clocks [OF assms(1)] assms(2)] by (auto simp: mlfq_queue_advance_clock_def)

lemma clocks_present: "clocks_advance s s' \<Longrightarrow> queues_present s \<Longrightarrow> queues_present s'"
  using clocks_advanceD [of s s'] by (fastforce simp: queues_present_def)

interpretation queue_run: inductive_invariant "sched_start r" "sched_step dq idle r" "\<lambda>s. consts_fit r \<longrightarrow> queues_present s"
  for dq idle r
proof
  show "consts_fit r \<longrightarrow> queues_present s" if "sched_start r s" for s
    using that init_inv by (auto elim: sched_start.cases)
  show "consts_fit r \<longrightarrow> queues_present s'" if "sched_step dq idle r s s'" "consts_fit r \<longrightarrow> queues_present s" for s s'
    using that clocks_present step_clocks by blast
qed

lemma reachable_present: "consts_fit r \<Longrightarrow> sched_reachable dq idle r s \<Longrightarrow> queues_present s"
  unfolding sched_reachable_def by (drule queue_run.reachable_holds) simp

end
