(* ===== verification/SchedOk.thy ===== *)
theory SchedOk
  imports Clocks
begin

text \<open>
  What the scheduler guarantees once the front-end has started it: the constants written by the
  Rust side pass \<open>mlfq_init\<close>, and every reachable state keeps the task, gauge and band
  invariants. Each theorem is followed by its use on a small run of two CPUs.
\<close>

section \<open>The constants\<close>

lemma default_fields:
  assumes "config_of_rodata r = config_default"
  shows "mlfq_budget_max_ns r = MLFQ_BUDGET_MAX_NS" "mlfq_alpha r = MLFQ_ALPHA"
    "mlfq_ema_half_life_ns r = MLFQ_EMA_HALF_LIFE_NS" "mlfq_q1_slice_ns r = MLFQ_Q1_SLICE_NS"
    "mlfq_q2_slice_ns r = MLFQ_Q2_SLICE_NS" "mlfq_q3_slice_ns r = MLFQ_Q3_SLICE_NS"
    "mlfq_q1_quota r = MLFQ_Q1_QUOTA" "mlfq_q2_quota r = MLFQ_Q2_QUOTA"
    "mlfq_dispatch_max_batch r = MLFQ_DISPATCH_MAX_BATCH" "mlfq_t_l_ns r = MLFQ_T_L_NS"
    "mlfq_t_h_ns r = MLFQ_T_H_NS" "mlfq_tree_t_int_ns r = MLFQ_TREE_T_INT_NS"
    "mlfq_tree_t_bound_ns r = MLFQ_TREE_T_BOUND_NS"
  using assms by (simp_all add: config_of_rodata_def config_default_def)

lemma default_fit: "config_of_rodata r = config_default \<Longrightarrow> consts_fit r"
  by (simp add: consts_fit_def gauge_consts_fit_def default_fields const_defs)

lemma declared_default: "config_of_rodata rodata_declared = config_default"
  by (simp add: config_of_rodata_def rodata_declared_def config_default_def const_defs)

lemma unat_pred: "1 \<le> unat (nr :: u32) \<Longrightarrow> unat (nr - 1) = unat nr - 1"
  by (subst unat_sub) (simp_all add: word_le_nat_alt)

lemma default_init:
  assumes "config_of_rodata r = config_default" and "1 \<le> unat nr" and "unat nr \<le> MLFQ_MAX_CPUS"
    and "list_all (\<lambda>d. \<not> dsq_fails create_dsq d) (queue_dsqs (unat nr))" and "8192 \<le> local_on"
  shows "\<exists>s. mlfq_init r nr create_dsq local_on (sched_zero m) = (0, s)"
proof -
  have m: "unat nr - 1 < 1024" using assms(2, 3) by (simp add: const_defs)
  have "unat (mlfq_dsq_id 3 (nr - 1)) = 4096 + (unat nr - 1) * 3 + 2"
    using m assms(2) by (subst unat_dsq_id) (simp_all add: unat_pred MLFQ_MAX_CPUS_def)
  then have "unat (mlfq_dsq_id 3 (nr - 1)) < 8192" using m by simp
  then have "mlfq_dsq_id 3 (nr - 1) < local_on" using assms(5) by (simp add: word_less_nat_alt word_le_nat_alt)
  then have "fst (mlfq_init r nr create_dsq local_on (sched_zero m)) = 0"
    using assms by (simp add: init_result [OF zero_present] dsqs_created default_fields const_defs)
  then show ?thesis by (metis prod.collapse)
qed

section \<open>The start\<close>

text \<open>
  C14. The object a successful start of the front-end loads passes every check of \<open>mlfq_init\<close> on a
  machine of 1 to 1024 CPUs whose queues can be created, and its first state satisfies the
  invariant: three empty queues with the slices of the front-end and no error reported.
\<close>

theorem program_starts:
  assumes "load_keeps (ie_load env)" and "scheduler_init h c fs env n nw bss sk = Ok st"
    and "1 \<le> unat nr" and "unat nr \<le> MLFQ_MAX_CPUS" and "8192 \<le> local_on"
    and "list_all (\<lambda>d. \<not> dsq_fails create_dsq d) (queue_dsqs (unat nr))"
  shows "\<exists>r s. sk_rodata (st_skel st) = Some r
    \<and> mlfq_init r nr create_dsq local_on (sched_zero m) = (0, s)
    \<and> consts_fit r \<and> sched_inv r s \<and> queues_present s \<and> sd_calls s = []"
proof -
  obtain r where r: "sk_rodata (st_skel st) = Some r" "config_of_rodata r = config_default"
    by (rule started_rodata [OF assms(1, 2)])
  obtain s where s: "mlfq_init r nr create_dsq local_on (sched_zero m) = (0, s)"
    using default_init [OF r(2) assms(3, 4, 6, 5)] by blast
  show ?thesis using r s default_fit [OF r(2)] init_inv [OF default_fit [OF r(2)] s] by blast
qed

theorem program_starts_witness:
  "\<forall>m. \<exists>st r s. scheduler_init example_host example_compat example_tracefs example_env 0 False (Some 0)
      (example_skel rodata_declared) = Ok st \<and> sk_rodata (st_skel st) = Some r
    \<and> mlfq_init r 2 (\<lambda>_. 0) 0xC000000000000000 (sched_zero m) = (0, s) \<and> queues_present s"
proof
  fix m
  obtain st where st: "scheduler_init example_host example_compat example_tracefs example_env 0 False (Some 0)
      (example_skel rodata_declared) = Ok st"
    using example_starts by blast
  have "list_all (\<lambda>d. \<not> dsq_fails (\<lambda>_. 0) d) (queue_dsqs (unat (2 :: u32)))"
    by (simp add: dsq_fails_def list_all_iff)
  from program_starts [OF example_load_keeps st _ _ _ this, of "0xC000000000000000" m] st
  show "\<exists>st r s. scheduler_init example_host example_compat example_tracefs example_env 0 False (Some 0)
      (example_skel rodata_declared) = Ok st \<and> sk_rodata (st_skel st) = Some r
    \<and> mlfq_init r 2 (\<lambda>_. 0) 0xC000000000000000 (sched_zero m) = (0, s) \<and> queues_present s"
    by (auto simp: const_defs)
qed

section \<open>A run\<close>

text \<open>Two CPUs, one task that may run on both, empty dispatch queues and no idle CPU.\<close>

definition example_dq :: "unit dsq_ops" where
  "example_dq = \<lparr>nr_queued = (\<lambda>_ _. 0), dsq_peek = (\<lambda>_ _. None), dsq_move = (\<lambda>_ k. (False, k))\<rparr>"

definition example_idle :: "unit idle_ops" where
  "example_idle = \<lparr>claim_idle = (\<lambda>_ k. (False, k)), pick_idle = (\<lambda>_ _ k. (- 1, k))\<rparr>"

definition example_cb :: callback where
  "example_cb = \<lparr>cb_cpu = 0, cb_start = 1000, cb_reset = 1000, cb_now = 1000, cb_end = 1000,
     cb_alloc = True, cb_reserve = True, cb_claims_idle = False, cb_cpu_selected = False,
     cb_wins_step = True, cb_wins_sample = True\<rparr>"

definition example_p :: task_struct where
  "example_p = \<lparr>ts_pid = 7, ts_policy = 0, ts_in_iowait = False, ts_weight = 100, ts_queued = False,
     ts_nr_cpus_allowed = 2, ts_cpus = (\<lambda>c. unat c < 2), ts_cpu = 1, ts_running = False,
     ts_migration_disabled = False\<rparr>"

definition run_start :: "tree_map \<Rightarrow> sched" where
  "run_start m = snd (mlfq_init rodata_declared 2 (\<lambda>_. 0) 0xC000000000000000 (sched_zero m))"

text \<open>The task is initialised and enqueued.\<close>

definition run_enqueued :: "tree_map \<Rightarrow> sched" where
  "run_enqueued m = mlfq_enqueue rodata_declared example_cb example_p [SCX_ENQ_WAKEUP]
     (snd (mlfq_init_task example_cb example_p (run_start m)))"

lemma declared_fit: "consts_fit rodata_declared"
  by (rule default_fit [OF declared_default])

lemma start_returns: "mlfq_init rodata_declared 2 (\<lambda>_. 0) 0xC000000000000000 (sched_zero m) = (0, run_start m)"
proof -
  have "\<exists>s. mlfq_init rodata_declared 2 (\<lambda>_. 0) 0xC000000000000000 (sched_zero m) = (0, s)"
    by (rule default_init [OF declared_default]) (simp_all add: MLFQ_MAX_CPUS_def dsq_fails_def list_all_iff)
  then show ?thesis unfolding run_start_def by (metis snd_conv)
qed

lemma start_reachable: "sched_reachable dq idle rodata_declared (run_start m)"
  by (rule reachable_start [OF sched_start.started [OF start_returns]])

lemma init_tasks: "sd_tasks (snd (mlfq_init r nr create_dsq local_on (sched_zero m))) = Map.empty"
proof -
  have "sd_tasks (snd (init_slices r keys z)) = sd_tasks z" for r keys z
    by (induction keys arbitrary: z) (simp_all split: option.split)
  then show ?thesis
    by (simp add: mlfq_init_def Let_def case_prod_beta init_fail_def add_call_def sched_zero_def
        split: option.split del: init_slices.simps)
qed

lemma started_tasks: "sched_start r s \<Longrightarrow> sd_tasks s = Map.empty"
  by (erule sched_start.cases) (metis init_tasks snd_conv)

lemma start_tasks: "sd_tasks (run_start m) = Map.empty"
  unfolding run_start_def by (rule init_tasks)

lemma run_reachable: "sched_reachable dq idle rodata_declared (run_enqueued m)"
proof -
  have "unowned (run_start m) example_p" by (simp add: unowned_def start_tasks)
  then have "sched_reachable dq idle rodata_declared (snd (mlfq_init_task example_cb example_p (run_start m)))"
    by (rule reachable_step [OF start_reachable sched_step.init_task])
  then show ?thesis unfolding run_enqueued_def by (rule reachable_step [OF _ sched_step.enqueue])
qed

lemma run_task: "sd_tasks (run_enqueued m) 7 \<noteq> None"
proof -
  have "sd_tasks (mlfq_op_lat_charge cb op s) = sd_tasks s" for cb op s
    by (simp add: mlfq_op_lat_charge_def Let_def)
  then show ?thesis
    by (simp add: run_enqueued_def mlfq_enqueue_def enq_task_def mlfq_init_task_def start_tasks
        set_task_def example_p_def example_cb_def case_prod_beta Let_def)
qed

section \<open>Every reachable state\<close>

text \<open>
  C3. In every reachable state the storage of every task is well-formed: its queue is one of the
  three, its gauges are within their bounds, its weight is positive, its lag is not negative
  and the learned sleep cadence and submission level are within their ranges.
\<close>

theorem reachable_tasks:
  assumes "consts_fit r" and "sched_reachable dq idle r s" and "sd_tasks s p = Some t"
  shows "tc_queue t \<in> {1, 2, 3} \<and> tc_ema t \<le> mlfq_budget_max_ns r \<and> tc_sq_ema t \<le> MLFQ_SQ_EMA_MAX_NS
    \<and> tc_weight t \<noteq> 0 \<and> 0 \<le> sint (tc_vlag t) \<and> tc_gpu_submit t \<le> 4 \<and> tc_sleep_var_ratio t \<le> 1024"
  using sched_reachable_inv [OF assms(1, 2)] assms(3) by (auto simp: sched_inv_def task_inv_def queue_ok_def)

theorem reachable_tasks_witness:
  "\<forall>m. \<exists>t. sched_reachable example_dq example_idle rodata_declared (run_enqueued m)
    \<and> sd_tasks (run_enqueued m) 7 = Some t \<and> tc_queue t \<in> {1, 2, 3} \<and> tc_ema t \<le> MLFQ_BUDGET_MAX_NS"
proof
  fix m
  obtain t where t: "sd_tasks (run_enqueued m) 7 = Some t" using run_task by blast
  from reachable_tasks [OF declared_fit run_reachable t] t run_reachable
  show "\<exists>t. sched_reachable example_dq example_idle rodata_declared (run_enqueued m)
    \<and> sd_tasks (run_enqueued m) 7 = Some t \<and> tc_queue t \<in> {1, 2, 3} \<and> tc_ema t \<le> MLFQ_BUDGET_MAX_NS"
    by (auto simp: rodata_declared_def)
qed

lemma runnable_counts:
  assumes "consts_fit r" and "sched_reachable dq idle r s"
  shows "list_all (\<lambda>l. rg_llc (sd_run s) l
      = of_nat (card {p. case sd_tasks s p of None \<Rightarrow> False | Some t \<Rightarrow> owned t \<and> unat (tc_last_llc t) = l})) [0..<32]
    \<and> list_all (\<lambda>q. rg_queue (sd_run s) q
      = of_nat (card {p. case sd_tasks s p of None \<Rightarrow> False | Some t \<Rightarrow> owned t \<and> unat (tc_last_qid t) = q})) [1..<4]"
proof -
  have "gauges_inv (sd_tasks s) (sd_run s)" using sched_reachable_inv [OF assms] by (simp add: sched_inv_def)
  moreover have "llc_key (sd_tasks s) p = Some l \<longleftrightarrow>
      (case sd_tasks s p of None \<Rightarrow> False | Some t \<Rightarrow> owned t \<and> unat (tc_last_llc t) = l)" for p l
    by (auto simp: llc_key_def split: option.split)
  moreover have "queue_key (sd_tasks s) p = Some l \<longleftrightarrow>
      (case sd_tasks s p of None \<Rightarrow> False | Some t \<Rightarrow> owned t \<and> unat (tc_last_qid t) = l)" for p l
    by (auto simp: queue_key_def split: option.split)
  ultimately show ?thesis by (simp add: gauges_inv_def tally_def list_all_iff)
qed

text \<open>
  In every reachable state the runnable gauge of every cache domain and of every queue is the
  number of tasks that are accounted there, whatever inserts, steals, migrations and exits
  happened.
\<close>

theorem reachable_gauges:
  assumes "consts_fit r" and "sched_reachable dq idle r s"
  shows "list_all (\<lambda>l. rg_llc (sd_run s) l
      = of_nat (card {p. case sd_tasks s p of None \<Rightarrow> False | Some t \<Rightarrow> owned t \<and> unat (tc_last_llc t) = l})) [0..<32]
    \<and> list_all (\<lambda>q. rg_queue (sd_run s) q
      = of_nat (card {p. case sd_tasks s p of None \<Rightarrow> False | Some t \<Rightarrow> owned t \<and> unat (tc_last_qid t) = q})) [1..<4]"
  by (rule runnable_counts [OF assms])

theorem reachable_gauges_witness:
  "\<forall>m. sched_reachable example_dq example_idle rodata_declared (run_enqueued m)
    \<and> rg_queue (sd_run (run_enqueued m)) 2 = of_nat (card {p. case sd_tasks (run_enqueued m) p of None \<Rightarrow> False
        | Some t \<Rightarrow> owned t \<and> unat (tc_last_qid t) = 2})"
proof
  fix m
  from reachable_gauges [OF declared_fit run_reachable, of m] run_reachable
  show "sched_reachable example_dq example_idle rodata_declared (run_enqueued m)
    \<and> rg_queue (sd_run (run_enqueued m)) 2 = of_nat (card {p. case sd_tasks (run_enqueued m) p of None \<Rightarrow> False
        | Some t \<Rightarrow> owned t \<and> unat (tc_last_qid t) = 2})"
    by (simp add: list_all_iff)
qed

text \<open>
  C1. In every reachable state an enqueue of a task with storage, or with memory for it, and a
  non-zero weight, whose CPU number is not negative, records exactly one insert of the task and after it
  nothing but kicks of idle CPUs. The insert goes into the local queue of the enqueue, into the local queue
  of a CPU in the affinity of the task, or into the dispatch queue that a CPU in its affinity or the
  enqueueing CPU has for the queue number the task then has; into the global queue only
  when the task is pinned to a CPU outside its affinity.
\<close>

theorem reachable_enqueue:
  assumes "consts_fit r" and "sched_reachable dq idle r s"
    and "sd_tasks s (ts_pid p) \<noteq> None \<or> cb_alloc cb" and "ts_weight p \<noteq> 0" and "\<not> ts_cpu p <s 0"
  shows "\<exists>t. sd_tasks (mlfq_enqueue r cb p flags s) (ts_pid p) = Some t \<and> tc_queue t \<in> {1, 2, 3}
    \<and> inserts p (legal_dsq cb p (tc_queue t)) s (mlfq_enqueue r cb p flags s)"
  using enqueue_inserts_once [OF sched_reachable_inv [OF assms(1, 2)] assms(3, 4) reachable_present [OF assms(1, 2)] assms(5), of flags]
  by (auto simp: queue_ok_def)

theorem reachable_enqueue_witness:
  "\<forall>m. \<exists>t. sd_tasks (mlfq_enqueue rodata_declared example_cb example_p [] (run_enqueued m)) 7 = Some t
    \<and> inserts example_p (legal_dsq example_cb example_p (tc_queue t)) (run_enqueued m)
       (mlfq_enqueue rodata_declared example_cb example_p [] (run_enqueued m))"
proof
  fix m
  have p: "sd_tasks (run_enqueued m) (ts_pid example_p) \<noteq> None \<or> cb_alloc example_cb" "ts_weight example_p \<noteq> 0"
    "\<not> ts_cpu example_p <s 0" "ts_pid example_p = 7"
    by (simp_all add: example_p_def example_cb_def word_sless_alt)
  from reachable_enqueue [OF declared_fit run_reachable [of example_dq example_idle] p(1-3), of "[]"] p(4)
  show "\<exists>t. sd_tasks (mlfq_enqueue rodata_declared example_cb example_p [] (run_enqueued m)) 7 = Some t
    \<and> inserts example_p (legal_dsq example_cb example_p (tc_queue t)) (run_enqueued m)
       (mlfq_enqueue rodata_declared example_cb example_p [] (run_enqueued m))"
    by auto
qed

text \<open>The queue of one CPU is never the queue of another one: three is invertible modulo \<open>2 ^ 64\<close>.\<close>

lemma dsq_id_cpu: "mlfq_dsq_id qid cpu = mlfq_dsq_id qid c \<longleftrightarrow> cpu = c"
proof
  assume "mlfq_dsq_id qid cpu = mlfq_dsq_id qid c"
  then have "(scast cpu :: u64) * 3 = scast c * 3" by (simp add: mlfq_dsq_id_def const_defs)
  then have "(scast cpu * 3) * (12297829382473034411 :: u64) = (scast c * 3) * 12297829382473034411" by simp
  moreover have "(3 :: u64) * 12297829382473034411 = 1" by code_simp
  ultimately have "(scast cpu :: u64) = scast c" by (simp only: mult.assoc mult_1_right)
  then have "sint (scast cpu :: u64) = sint (scast c :: u64)" by simp
  moreover have up: "is_up (scast :: i32 \<Rightarrow> u64)" by (simp add: is_up)
  ultimately have "sint cpu = sint c" by (simp only: sint_up_scast [OF up])
  then show "cpu = c" by (rule signed_word_eqI)
qed simp

lemma legal_dsq_queue: "legal_dsq cb p qid (Queue_dsq (mlfq_dsq_id qid cpu)) \<longleftrightarrow> legal_cpu cb p cpu"
  by (auto simp: legal_dsq_def dsq_id_cpu)



text \<open>The clocks over the enqueue of the run.\<close>

theorem clocks_monotone_witness:
  "\<forall>m. \<exists>qc qc'. sd_queues (run_enqueued m) 2 = Some qc
    \<and> sd_queues (mlfq_stopping rodata_declared example_cb example_p True (run_enqueued m)) 2 = Some qc'
    \<and> (qc_clock qc' = qc_clock qc \<or> mlfq_time_before (qc_clock qc) (qc_clock qc'))"
proof
  fix m
  obtain qc where qc: "sd_queues (run_enqueued m) 2 = Some qc"
    using reachable_present [OF declared_fit run_reachable [of example_dq example_idle]] by (auto simp: queues_present_def)
  from clocks_monotone [OF sched_step.stopping qc] qc
  show "\<exists>qc qc'. sd_queues (run_enqueued m) 2 = Some qc
    \<and> sd_queues (mlfq_stopping rodata_declared example_cb example_p True (run_enqueued m)) 2 = Some qc'
    \<and> (qc_clock qc' = qc_clock qc \<or> mlfq_time_before (qc_clock qc) (qc_clock qc'))"
    by blast
qed

end
