(* ===== verification/SchedExamples.thy ===== *)
theory SchedExamples
  imports SchedOk
begin

text \<open>
  The last properties of the scheduler that need its parts together (the sleep cadence, the
  latency buckets), and the uses of the earlier theorems on concrete inputs: the declared
  constants, one task and two CPUs.
\<close>

section \<open>The sleep cadence\<close>

text \<open>
  C40. The sleep cadence never ages the submission level of a task: the sleep is cut to 64 ms before
  it is compared with the 120 ms of a long idle, so the branch that decays the cadence and
  takes one submission back is never taken, and the update that \<open>stopping\<close> makes for an
  unknown sleep, longer than a long idle on purpose, counts as one of 64 ms.
\<close>

theorem long_idle_never_ages:
  "tc_gpu_submit (cadence now t) = tc_gpu_submit t
   \<and> mlfq_sleep_ema_update (MLFQ_LONG_SLEEP_NS + 1) t = mlfq_sleep_ema_update (64 * NSEC_PER_MSEC) t"
proof
  show "tc_gpu_submit (cadence now t) = tc_gpu_submit t"
    by (simp add: cadence_def Let_def sleep_ema_gpu)
  have "(64 * NSEC_PER_MSEC :: u64) < MLFQ_LONG_SLEEP_NS + 1" by (simp add: const_defs)
  then show "mlfq_sleep_ema_update (MLFQ_LONG_SLEEP_NS + 1) t = mlfq_sleep_ema_update (64 * NSEC_PER_MSEC) t"
    unfolding mlfq_sleep_ema_update_def Let_def by (simp only: if_True less_irrefl if_False)
qed

section \<open>The latency histogram\<close>

text \<open>
  The bucket the program charges is the one the front-end prints: its index is the number of
  printed edges the latency has reached, so it is one of the eight buckets.
\<close>

theorem op_lat_bucket_counts_edges:
  "unat (mlfq_op_lat_bucket d) = length (filter (\<lambda>e. e \<le> d) OP_LAT_EDGES_US)
   \<and> unat (mlfq_op_lat_bucket d) < MLFQ_OP_LAT_BUCKETS"
proof -
  have "unat (mlfq_op_lat_bucket d) = length (filter (\<lambda>e. e \<le> d) OP_LAT_EDGES_US)"
    by (auto simp: mlfq_op_lat_bucket_def OP_LAT_EDGES_US_def const_defs word_le_nat_alt word_less_nat_alt)
  moreover have "unat (mlfq_op_lat_bucket d) \<le> 7"
    by (simp add: mlfq_op_lat_bucket_def)
  ultimately show ?thesis by (simp add: MLFQ_OP_LAT_BUCKETS_def)
qed

section \<open>Uses of the theorems\<close>

abbreviation untrained :: "tree_map \<Rightarrow> kernel" where
  "untrained m \<equiv> \<lparr>ctrl_meta = 0, tree_map = m\<rparr>"

text \<open>A task in Q2 that slept 10 s after a long burst: the Q3 seed fires.\<close>

definition long_sleeper :: task_ctx where
  "long_sleeper = task_ctx_zero\<lparr>tc_queue := 2, tc_weight := 100, tc_last_sleep_at := 1, tc_prev_burst_ns := 1000000000\<rparr>"

theorem wakeup_queue_witness:
  "\<forall>m. tc_queue (fst (mlfq_wakeup_classify rodata_declared (adapt_seed rodata_declared) (untrained m) example_p
     10000000001 (long_sleeper, mlfq_stats_zero))) = 3"
proof
  fix m
  have "queue_ok long_sleeper" by (simp add: queue_ok_def long_sleeper_def)
  moreover have "mlfq_time_before 1 10000000001" by (simp add: mlfq_time_before_def)
  then have "wake_seeds rodata_declared (adapt_seed rodata_declared) example_p
      (fst (wake_decay rodata_declared 10000000001 long_sleeper)) long_sleeper"
    by (simp add: wake_seeds_def wake_decay_def long_sleeper_def task_ctx_zero_def adapt_seed_def
        rodata_declared_def example_p_def const_defs Let_def)
  ultimately show "tc_queue (fst (mlfq_wakeup_classify rodata_declared (adapt_seed rodata_declared) (untrained m)
      example_p 10000000001 (long_sleeper, mlfq_stats_zero))) = 3"
    using wakeup_queue [of long_sleeper rodata_declared "adapt_seed rodata_declared" "untrained m" example_p
        10000000001 mlfq_stats_zero]
    by (simp add: Let_def)
qed

text \<open>Dispatch queues that always have a task to move.\<close>

definition full_dq :: "unit dsq_ops" where
  "full_dq = \<lparr>nr_queued = (\<lambda>_ _. 1), dsq_peek = (\<lambda>_ _. Some (example_p, 1)), dsq_move = (\<lambda>_ k. (True, k))\<rparr>"

theorem dispatch_batch_bound_witness:
  "\<forall>m. snd (fst (snd (serve_queues (counted_ops full_dq) rodata_declared 0 2 None 0 (((), 0), sched_zero m)))) \<le> 32"
proof
  fix m
  have q: "unat (mlfq_q1_quota rodata_declared) + unat (mlfq_q2_quota rodata_declared)
      < unat (mlfq_dispatch_max_batch rodata_declared)" "unat (mlfq_dispatch_max_batch rodata_declared) = 32"
    by (simp_all add: rodata_declared_def const_defs)
  from dispatch_batch_bound [OF q(1), of full_dq 0 2 None 0 "()" "sched_zero m"] q(2)
  show "snd (fst (snd (serve_queues (counted_ops full_dq) rodata_declared 0 2 None 0 (((), 0), sched_zero m)))) \<le> 32"
    by (simp add: Let_def)
qed

text \<open>The start of the run with the task initialised.\<close>

definition run_initialised :: "tree_map \<Rightarrow> sched" where
  "run_initialised m = set_task example_p (mlfq_reset_task_ctx example_p 1000 task_ctx_zero) (run_start m)"

lemma start_fields: "sd_nr_cpu_ids (run_start m) = 2"
  using init_inv [OF declared_fit start_returns [of m]] by simp

theorem select_cpu_allowed_witness:
  "\<forall>m. ts_cpus example_p (fst (mlfq_select_cpu (counted_idle example_idle) rodata_declared example_cb False None
     example_p 5 (((), 0), run_initialised m)))"
proof
  fix m
  have "picks_allowed example_idle example_p"
    by (simp add: picks_allowed_def example_idle_def word_sle_eq)
  moreover have "sd_tasks (run_initialised m) (ts_pid example_p) \<noteq> None"
    by (simp add: run_initialised_def set_task_def)
  moreover have "sd_nr_cpu_ids (run_initialised m) = 2" by (simp add: run_initialised_def set_task_def start_fields)
  then have "list_ex (\<lambda>cpu. ts_cpus example_p (of_nat cpu)) [0..<sd_nr_cpu_ids (run_initialised m)]"
    by (simp add: upt_rec example_p_def)
  ultimately show "ts_cpus example_p (fst (mlfq_select_cpu (counted_idle example_idle) rodata_declared example_cb False
      None example_p 5 (((), 0), run_initialised m)))"
    using select_cpu_allowed [of example_idle example_p rodata_declared example_cb False None 5 "()" 0 "run_initialised m"]
    by (auto simp: Let_def list_all_iff list_ex_iff)
qed

end
