(* ===== verification/Priority.thy ===== *)
theory Priority
  imports SchedOk
begin

text \<open>
  How the queue of a task changes over whole runs. The queue and the count of exhausted slices of
  a task move only in its own enqueue, or when it is initialised, enabled or removed. So a history of
  its enqueues decides what the counter may be, how a task loses priority and how it gains it. The
  last section is about what a preempting wakeup needs.
\<close>

section \<open>Steps that leave the priority of a task alone\<close>

text \<open>Every step but the enqueue and the life cycle of the task itself.\<close>

inductive quiet_step :: "'k dsq_ops \<Rightarrow> 'k idle_ops \<Rightarrow> rodata \<Rightarrow> u32 \<Rightarrow> sched \<Rightarrow> sched \<Rightarrow> bool"
  for dq idle r tid where
  select_cpu: "quiet_step dq idle r tid s (snd (snd (mlfq_select_cpu idle r cb ws waker p prev (k, s))))"
| enqueue: "ts_pid p \<noteq> tid \<Longrightarrow> quiet_step dq idle r tid s (mlfq_enqueue r cb p flags s)"
| dispatch: "quiet_step dq idle r tid s (snd (mlfq_dispatch dq r cb cpu prev_task (k, s)))"
| running: "quiet_step dq idle r tid s (mlfq_running r cb p s)"
| stopping: "quiet_step dq idle r tid s (mlfq_stopping r cb p runnable s)"
| quiescent: "quiet_step dq idle r tid s (mlfq_quiescent p s)"
| update_idle: "quiet_step dq idle r tid s (mlfq_update_idle r cpu is_idle s)"
| init_task: "ts_pid p \<noteq> tid \<Longrightarrow> unowned s p \<Longrightarrow> quiet_step dq idle r tid s (snd (mlfq_init_task cb p s))"
| enable: "ts_pid p \<noteq> tid \<Longrightarrow> unowned s p \<Longrightarrow> quiet_step dq idle r tid s (mlfq_enable cb p s)"
| exit_task: "ts_pid p \<noteq> tid \<Longrightarrow> unowned s p \<Longrightarrow> quiet_step dq idle r tid s (mlfq_exit_task p s)"
| cpu_release: "quiet_step dq idle r tid s (mlfq_cpu_release cb anywhere cpu s)"
| sched_switch: "quiet_step dq idle r tid s (mlfq_sched_switch r cb anywhere generic nr next_prio s)"
| amdgpu_cs: "quiet_step dq idle r tid s (mlfq_amdgpu_cs cb cur s)"
| amdgpu_cs_ioctl: "quiet_step dq idle r tid s (mlfq_amdgpu_cs_ioctl cb cur s)"
| gpu_sched_queue: "quiet_step dq idle r tid s (mlfq_gpu_sched_queue cb cur s)"
| publish: "quiet_step dq idle r tid s (s\<lparr>sd_kernel := published\<rparr>)"

text \<open>The steps that renew the storage of the task.\<close>

inductive renews :: "u32 \<Rightarrow> sched \<Rightarrow> sched \<Rightarrow> bool" for tid where
  init: "ts_pid p = tid \<Longrightarrow> unowned s p \<Longrightarrow> renews tid s (snd (mlfq_init_task cb p s))"
| enabled: "ts_pid p = tid \<Longrightarrow> unowned s p \<Longrightarrow> renews tid s (mlfq_enable cb p s)"
| exits: "ts_pid p = tid \<Longrightarrow> unowned s p \<Longrightarrow> renews tid s (mlfq_exit_task p s)"

lemma quiet_is_step: "quiet_step dq idle r tid s s' \<Longrightarrow> sched_step dq idle r s s'"
  by (induction rule: quiet_step.induct) (blast intro: sched_step.intros)+

lemma renews_is_step: "renews tid s s' \<Longrightarrow> sched_step dq idle r s s'"
  by (induction rule: renews.induct) (blast intro: sched_step.intros)+

lemma step_kinds:
  assumes "sched_step dq idle r s s'"
  obtains (quiet) "quiet_step dq idle r tid s s'"
  | (enqueue) cb p flags where "ts_pid p = tid" "s' = mlfq_enqueue r cb p flags s"
  | (renewed) "renews tid s s'"
  using assms
proof cases
  case (enqueue cb p flags)
  then show ?thesis using that by (cases "ts_pid p = tid") (auto intro: quiet_step.intros)
next
  case (init_task p cb)
  then show ?thesis using that by (cases "ts_pid p = tid") (auto intro: quiet_step.intros renews.intros)
next
  case (enable p cb)
  then show ?thesis using that by (cases "ts_pid p = tid") (auto intro: quiet_step.intros renews.intros)
next
  case (exit_task p)
  then show ?thesis using that by (cases "ts_pid p = tid") (auto intro: quiet_step.intros renews.intros)
qed (blast intro: that quiet_step.intros)+

definition band :: "u32 \<Rightarrow> sched \<Rightarrow> (u8 \<times> u8) option" where
  "band tid s = map_option (\<lambda>t. (tc_queue t, tc_reenq_cnt t)) (sd_tasks s tid)"

interpretation band: bystander "band tid" for tid
  by unfold_locales (simp_all add: band_def)

lemma band_writes [simp]:
  "band tid (s\<lparr>sd_queues := a\<rparr>) = band tid s" "band tid (s\<lparr>sd_samples := b\<rparr>) = band tid s"
  "band tid (s\<lparr>sd_sample_last_at := c\<rparr>) = band tid s"
  by (simp_all add: band_def)

lemma band_through:
  assumes "band tid s' = band tid s" and "ts_pid p = tid \<Longrightarrow> band tid s = Some (tc_queue t, tc_reenq_cnt t)"
  shows "band tid (set_task p t s') = band tid s"
  using assms by (auto simp: band_def set_task_def)

lemma band_stored: "sd_tasks s (ts_pid p) = Some t \<Longrightarrow> ts_pid p = tid \<Longrightarrow> band tid s = Some (tc_queue t, tc_reenq_cnt t)"
  by (auto simp: band_def)

definition same_band :: "task_ctx \<Rightarrow> task_ctx \<Rightarrow> bool" where
  "same_band t u \<longleftrightarrow> tc_queue u = tc_queue t \<and> tc_reenq_cnt u = tc_reenq_cnt t"

lemma band_prev:
  assumes "band tid s' = band tid s" and "sd_tasks s' tid = Some t'"
  obtains t where "sd_tasks s tid = Some t" and "same_band t t'"
  using assms by (cases "sd_tasks s tid") (auto simp: band_def same_band_def)

lemma band_write:
  assumes "sd_tasks s (ts_pid p) = Some t" and "same_band t u" and "band tid s' = band tid s"
  shows "band tid (set_task p u s') = band tid s"
  using assms(2) band_stored [OF assms(1)] by (intro band_through [OF assms(3)]) (simp add: same_band_def)

lemma same_band_fields [simp]:
  "same_band t (clear_drm u) = same_band t u" "same_band t (u\<lparr>tc_wake_cpu_state := c1\<rparr>) = same_band t u"
  "same_band t (u\<lparr>tc_last_run_at := c2\<rparr>) = same_band t u" "same_band t (u\<lparr>tc_flags := c3\<rparr>) = same_band t u"
  "same_band t (u\<lparr>tc_enq_at := c4\<rparr>) = same_band t u" "same_band t (u\<lparr>tc_pending_valid := c5\<rparr>) = same_band t u"
  "same_band t (u\<lparr>tc_last_sleep_at := c6\<rparr>) = same_band t u" "same_band t (u\<lparr>tc_prev_burst_ns := c7\<rparr>) = same_band t u"
  "same_band t (u\<lparr>tc_last_gpu_submit_at := c8\<rparr>) = same_band t u" "same_band t (u\<lparr>tc_gpu_submit := c9\<rparr>) = same_band t u"
  "same_band t (fst (runnable_enter q l x)) = same_band t (fst x)"
  "same_band t (fst (runnable_exit x)) = same_band t (fst x)"
  "same_band t (fst (measure_wait r now x)) = same_band t (fst x)"
  "same_band t (mlfq_ema_climb_task r d u) = same_band t u" "same_band t (mlfq_update_vruntime d u) = same_band t u"
  "same_band t (mlfq_sleep_ema_update z u) = same_band t u" "same_band t (cadence now u) = same_band t u"
  "same_band t (fst (emit_sample cb p d x)) = same_band t (fst x)" "same_band t t"
  by (auto simp: same_band_def clear_drm_def runnable_enter_def mlfq_runnable_enter_def runnable_exit_def
      mlfq_runnable_exit_def measure_wait_def mlfq_ema_climb_task_def mlfq_update_vruntime_def
      mlfq_sleep_ema_update_def cadence_def emit_sample_def case_prod_beta Let_def)


lemma select_band: "band tid (snd (snd (mlfq_select_cpu idle r cb ws waker p prev (k, s)))) = band tid s"
proof (cases "sd_tasks s (ts_pid p)")
  case (Some t)
  then show ?thesis
    by (simp add: mlfq_select_cpu_def Let_def case_prod_beta band_write [OF Some] split: option.split)
qed (simp add: mlfq_select_cpu_def)

lemma steal_band [simp]: "band tid (account_steal r qid cpu p c s) = band tid s"
proof (cases "sd_tasks s (ts_pid p)")
  case (Some t)
  then show ?thesis by (simp add: account_steal_def case_prod_beta Let_def band_write [OF Some])
qed (simp add: account_steal_def)

lemma slots_band: "band tid (snd (snd (dispatch_slots dq r cpu qid ol oll nr off n moved (k, s)))) = band tid s"
proof (induction n arbitrary: moved k s)
  case (Suc n)
  then show ?case by (simp add: Let_def case_prod_beta split: option.split)
qed simp

lemma dispatch_queue_band [simp]:
  "band tid (snd (snd (mlfq_dispatch_queue dq r cpu qid quota nr ol oll x))) = band tid (snd x)"
  by (cases x) (simp add: mlfq_dispatch_queue_def Let_def slots_band)

lemma keep_stored: "keep_slice dq r cpu prev n k s = Some (p, t, sl) \<Longrightarrow> sd_tasks s (ts_pid p) = Some t"
  by (auto simp: keep_slice_def Let_def split: option.splits if_splits)

lemma dispatch_band: "band tid (snd (mlfq_dispatch dq r cb cpu prev (k, s))) = band tid s"
  by (auto simp: mlfq_dispatch_def serve_queues_def Let_def case_prod_beta band_write [OF keep_stored]
      split: option.split)

lemma running_band: "band tid (mlfq_running r cb p s) = band tid s"
proof (cases "sd_tasks s (ts_pid p)")
  case (Some t)
  show ?thesis
    unfolding mlfq_running_def Some option.case Let_def case_prod_beta
    by (rule band_write [OF Some]) (simp_all split: option.split)
qed (simp add: mlfq_running_def)

lemma emit_band [simp]: "band tid (snd (emit_sample cb p d x)) = band tid (snd x)"
  by (simp add: emit_sample_def case_prod_beta Let_def)

lemma charge_band:
  "band tid (snd (charge_run r cb p b d x)) = band tid (snd x)" "same_band t (fst (charge_run r cb p b d x)) = same_band t (fst x)"
proof -
  show "band tid (snd (charge_run r cb p b d x)) = band tid (snd x)"
    by (simp add: charge_run_def case_prod_beta Let_def split: option.split)
  show "same_band t (fst (charge_run r cb p b d x)) = same_band t (fst x)"
    by (simp add: charge_run_def case_prod_beta Let_def)
qed

lemma stopping_band: "band tid (mlfq_stopping r cb p b s) = band tid s"
proof (cases "sd_tasks s (ts_pid p)")
  case (Some t)
  show ?thesis
    unfolding mlfq_stopping_def Some option.case Let_def case_prod_beta maybe_adapt_tasks
      band.helpers(4)
    by (rule band_write [OF Some]) (simp_all add: charge_band split: option.split)
qed (simp add: mlfq_stopping_def Let_def)

lemma quiescent_band: "band tid (mlfq_quiescent p s) = band tid s"
proof (cases "sd_tasks s (ts_pid p)")
  case (Some t)
  then show ?thesis by (simp add: mlfq_quiescent_def case_prod_beta band_write [OF Some])
qed (simp add: mlfq_quiescent_def)

lemma gpu_band [simp]: "band tid (mlfq_gpu_submit_inc cb p b s) = band tid s"
proof (cases "sd_tasks s (ts_pid p)")
  case (Some t)
  then show ?thesis by (simp add: mlfq_gpu_submit_inc_def Let_def band_write [OF Some])
qed (simp add: mlfq_gpu_submit_inc_def)

lemma other_band:
  assumes "ts_pid p \<noteq> tid"
  shows "band tid (mlfq_enqueue r cb p flags s) = band tid s" "band tid (snd (mlfq_init_task cb p s)) = band tid s"
    "band tid (mlfq_enable cb p s) = band tid s" "band tid (mlfq_exit_task p s) = band tid s"
proof -
  have set: "band tid (set_task p t z) = band tid z" for t z
    using assms by (simp add: band_def set_task_def)
  have del: "band tid (z\<lparr>sd_tasks := (sd_tasks z')(ts_pid p := None)\<rparr>) = band tid z'" for z z'
    using assms by (simp add: band_def)
  show "band tid (mlfq_enqueue r cb p flags s) = band tid s" "band tid (snd (mlfq_init_task cb p s)) = band tid s"
    "band tid (mlfq_enable cb p s) = band tid s" "band tid (mlfq_exit_task p s) = band tid s"
    by (simp_all add: mlfq_enqueue_def enq_decide_def mlfq_init_task_def mlfq_enable_def mlfq_exit_task_def
        set del case_prod_beta Let_def split: option.split)
qed

lemma quiet_band:
  assumes "quiet_step dq idle r tid s s'"
  shows "band tid s' = band tid s"
  using assms
proof cases
  case (publish k)
  then show ?thesis by (simp add: band_def)
qed (simp_all add: select_band other_band dispatch_band running_band stopping_band quiescent_band band.cpu_same
    tracepoint_defs split: option.split)

section \<open>The enqueue of the task\<close>

lemma place_band [simp]:
  "same_band t (mlfq_stamp_enq_at now wk u) = same_band t u"
  "same_band t (snd (mlfq_place_task qs q u)) = same_band t u"
  by (simp_all add: same_band_def mlfq_stamp_enq_at_def mlfq_place_task_def place_entity_eq split: option.split)

lemma enq_step_band [simp]:
  "same_band t (fst (enq_place r cb p flags cpu g x)) = same_band t (fst x)"
  "same_band t (fst (enq_local r cb p flags cpu d g x)) = same_band t (fst x)"
  "same_band t (fst (enq_preempt r cb p flags x)) = same_band t (fst x)"
  by (simp_all add: enq_place_def enq_local_def enq_preempt_def case_prod_beta Let_def)

lemma enq_branch_band [simp]:
  "same_band t (fst (enq_pinned r cb p flags x)) = same_band t (fst x)"
  "same_band t (fst (enq_movable r cb p flags x)) = same_band t (fst x)"
  by (simp_all add: enq_pinned_def enq_movable_def case_prod_beta Let_def)

lemma own_enqueue:
  assumes "enq_task cb p s = Some t" and "ts_weight p \<noteq> 0"
  obtains u where "sd_tasks (mlfq_enqueue r cb p flags s) (ts_pid p) = Some u"
    "same_band (fst (enq_decide r cb p flags (t, s))) u"
proof -
  let ?x = "enq_decide r cb p flags (t, s)"
  have "same_band (fst ?x) (fst (if mlfq_task_is_migration_disabled p then enq_pinned r cb p flags ?x
      else enq_movable r cb p flags ?x))" by simp
  then show ?thesis
    by (intro that) (simp_all add: enqueue_eq [OF assms] set_task_def case_prod_beta)
qed

lemma refused_reenq:
  assumes "ts_weight p = 0" and "sd_tasks (mlfq_enqueue r cb p flags s) (ts_pid p) = Some u"
  shows "sd_tasks s (ts_pid p) = Some u \<or> tc_reenq_cnt u = 0"
  using assms
  by (auto simp: mlfq_enqueue_def enq_task_def set_task_def mlfq_reset_task_ctx_def mlfq_reset_classification_def
      add_call_def upd_stats_def split: option.splits if_splits)

lemma refused_enqueue:
  assumes "sd_tasks s (ts_pid p) = Some t" and "ts_weight p = 0"
  shows "sd_tasks (mlfq_enqueue r cb p flags s) (ts_pid p) = Some t"
  using assms by (simp add: mlfq_enqueue_def enq_task_def set_task_def)

text \<open>What the stay makes of a classified task.\<close>

lemma stay_result:
  "tc_queue (fst (enq_stay r cb p flags old x)) =
     (if ages r (cb_now cb) (fst (mlfq_apply_sched_idle p (fst x)))
           (stay_start (cb_now cb) old (SCX_ENQ_WAKEUP \<in> set flags \<or> flags = []) (snd (mlfq_apply_sched_idle p (fst x))))
      then 1 else if ts_policy p = MLFQ_SCHED_IDLE then 3 else tc_queue (fst x))"
  "tc_reenq_cnt (fst (enq_stay r cb p flags old x)) \<in> {0, tc_reenq_cnt (fst x)}"
  by (cases x; auto simp: enq_stay_def Let_def mlfq_apply_sched_idle_def stay_start_def)+

lemma decide_eq:
  "enq_decide r cb p flags (t, s) = enq_stay r cb p flags (tc_queue t)
     (enq_classify r cb p flags (t\<lparr>tc_weight := ts_weight p\<rparr>, s))"
  by (simp add: enq_decide_def)

lemma classify_reenq:
  assumes "queue_ok t"
  shows "unat (tc_reenq_cnt (fst (enq_classify r cb p flags (t, s)))) \<le> (if flags = [] then Suc (unat (tc_reenq_cnt t)) else 0)"
proof -
  have "unat (tc_reenq_cnt t + 1) \<le> Suc (unat (tc_reenq_cnt t))"
    by (simp add: unat_word_ariths)
  then show ?thesis
    using assms by (auto simp: enq_classify_def case_prod_beta wakeup_reenq runout_fields)
qed

lemma decide_reenq:
  assumes "queue_ok t"
  shows "unat (tc_reenq_cnt (fst (enq_decide r cb p flags (t, s)))) \<le> (if flags = [] then Suc (unat (tc_reenq_cnt t)) else 0)"
proof -
  let ?c = "enq_classify r cb p flags (t\<lparr>tc_weight := ts_weight p\<rparr>, s)"
  have "queue_ok (t\<lparr>tc_weight := ts_weight p\<rparr>)" using assms by (simp add: queue_ok_def)
  note c = classify_reenq [OF this, of r cb p flags s]
  have "tc_reenq_cnt (fst (enq_decide r cb p flags (t, s))) \<in> {0, tc_reenq_cnt (fst ?c)}"
    using stay_result(2) [of r cb p flags "tc_queue t" ?c] by (simp add: decide_eq)
  then show ?thesis using c by auto
qed

section \<open>How a task loses priority\<close>

text \<open>
  The number of enqueues of the task in a row that were run-outs, over a whole run: any other
  enqueue of the task, and any renewal of its storage, starts the count again.
\<close>

inductive streak :: "'k dsq_ops \<Rightarrow> 'k idle_ops \<Rightarrow> rodata \<Rightarrow> u32 \<Rightarrow> nat \<Rightarrow> sched \<Rightarrow> bool"
  for dq idle r tid where
  starts: "sched_start r s \<Longrightarrow> streak dq idle r tid 0 s"
| runs_out: "streak dq idle r tid n s \<Longrightarrow> ts_pid p = tid \<Longrightarrow>
    streak dq idle r tid (Suc n) (mlfq_enqueue r cb p [] s)"
| broken: "streak dq idle r tid n s \<Longrightarrow> ts_pid p = tid \<Longrightarrow> ts_weight p \<noteq> 0 \<Longrightarrow> flags \<noteq> [] \<Longrightarrow>
    streak dq idle r tid 0 (mlfq_enqueue r cb p flags s)"
| refused: "streak dq idle r tid n s \<Longrightarrow> ts_pid p = tid \<Longrightarrow> ts_weight p = 0 \<Longrightarrow>
    streak dq idle r tid n (mlfq_enqueue r cb p flags s)"
| renewed: "streak dq idle r tid n s \<Longrightarrow> renews tid s s' \<Longrightarrow> streak dq idle r tid 0 s'"
| quiet: "streak dq idle r tid n s \<Longrightarrow> quiet_step dq idle r tid s s' \<Longrightarrow> streak dq idle r tid n s'"

lemma streak_reachable: "streak dq idle r tid n s \<Longrightarrow> sched_reachable dq idle r s"
  by (induction rule: streak.induct)
    (auto intro: reachable_start reachable_step sched_step.enqueue renews_is_step quiet_is_step)

lemma reachable_streak:
  assumes "sched_reachable dq idle r s"
  shows "\<exists>n. streak dq idle r tid n s"
proof -
  obtain s0 where s0: "sched_start r s0" "(sched_step dq idle r)\<^sup>*\<^sup>* s0 s"
    using assms by (auto simp: sched_reachable_def)
  from s0(2) show ?thesis
  proof (induction rule: rtranclp_induct)
    case base
    then show ?case using streak.starts [OF s0(1)] by blast
  next
    case (step y z)
    then obtain n where n: "streak dq idle r tid n y" by blast
    from step(2) show ?case
    proof (cases rule: step_kinds [where tid = tid])
      case (enqueue cb p flags)
      then show ?thesis using n streak.runs_out streak.broken streak.refused by metis
    qed (use n streak.quiet streak.renewed in blast)+
  qed
qed

lemma stored_queue_ok:
  assumes "consts_fit r" and "sched_reachable dq idle r s" and "sd_tasks s q = Some t"
  shows "queue_ok t"
  using sched_reachable_inv [OF assms(1,2)] assms(3) by (auto simp: sched_inv_def task_inv_def)

lemma renewed_reenq: "renews tid s s' \<Longrightarrow> sd_tasks s' tid = Some t \<Longrightarrow> tc_reenq_cnt t = 0"
  by (induction rule: renews.induct)
    (auto simp: mlfq_init_task_def mlfq_enable_def mlfq_exit_task_def set_task_def mlfq_reset_task_ctx_def
      mlfq_reset_classification_def Let_def split: option.splits if_splits)

lemma enq_task_reenq:
  assumes "enq_task cb p s = Some t"
  shows "sd_tasks s (ts_pid p) = Some t \<or> sd_tasks s (ts_pid p) = None \<and> tc_reenq_cnt t = 0 \<and> queue_ok t"
  using assms by (auto simp: enq_task_def mlfq_reset_task_ctx_def mlfq_reset_classification_def queue_ok_def
      split: option.splits if_splits)

lemma lost_enqueue: "enq_task cb p s = None \<Longrightarrow> sd_tasks (mlfq_enqueue r cb p flags s) = sd_tasks s"
  by (simp add: mlfq_enqueue_def add_call_def upd_stats_def)

lemma enqueue_reenq:
  assumes fit: "consts_fit r" "sched_reachable dq idle r s"
    and prev: "\<And>t. sd_tasks s (ts_pid p) = Some t \<Longrightarrow> unat (tc_reenq_cnt t) \<le> n"
    and w: "ts_weight p \<noteq> 0" and u: "sd_tasks (mlfq_enqueue r cb p flags s) (ts_pid p) = Some u"
  shows "unat (tc_reenq_cnt u) \<le> (if flags = [] then Suc n else 0)"
proof (cases "enq_task cb p s")
  case None
  then have "sd_tasks s (ts_pid p) = None" by (auto simp: enq_task_def split: option.splits)
  with u show ?thesis by (simp add: lost_enqueue [OF None])
next
  case (Some t)
  have t: "queue_ok t" "unat (tc_reenq_cnt t) \<le> n"
    using enq_task_reenq [OF Some] stored_queue_ok [OF fit, of "ts_pid p" t] prev by auto
  obtain v where "sd_tasks (mlfq_enqueue r cb p flags s) (ts_pid p) = Some v"
    "same_band (fst (enq_decide r cb p flags (t, s))) v"
    by (rule own_enqueue [OF Some w])
  then have "tc_reenq_cnt u = tc_reenq_cnt (fst (enq_decide r cb p flags (t, s)))"
    using u by (simp add: same_band_def)
  then show ?thesis using decide_reenq [OF t(1), of r cb p flags s] t(2) by (auto split: if_splits)
qed

text \<open>The count the program keeps never exceeds the length of the streak.\<close>

lemma streak_reenq:
  assumes "consts_fit r" and "streak dq idle r tid n s"
  shows "sd_tasks s tid = Some t \<Longrightarrow> unat (tc_reenq_cnt t) \<le> n"
  using assms(2)
proof (induction arbitrary: t rule: streak.induct)
  case (starts s)
  then show ?case by (simp add: started_tasks)
next
  case (runs_out n s p cb)
  show ?case
  proof (cases "ts_weight p = 0")
    case True
    from refused_reenq [OF this, of r cb "[]" s t] runs_out show ?thesis by (auto intro: le_SucI)
  next
    case False
    then show ?thesis
      using enqueue_reenq [OF assms(1) streak_reachable [OF runs_out(1)], of p n cb "[]" t] runs_out by simp
  qed
next
  case (broken n s p flags cb)
  then show ?case
    using enqueue_reenq [OF assms(1) streak_reachable [OF broken(1)], of p n cb flags t] by simp
next
  case (refused n s p cb flags)
  then show ?case using refused_reenq [of p r cb flags s t] by auto
next
  case (renewed n s s')
  then show ?case by (simp add: renewed_reenq)
next
  case (quiet n s s')
  show ?case
    by (rule band_prev [OF quiet_band [OF quiet(2)] quiet(4)]) (use quiet(3) in \<open>simp add: same_band_def\<close>)
qed

text \<open>What a classification needs to lower the priority of a task.\<close>

lemma classify_lowers:
  assumes "queue_ok t" and "ts_policy p \<noteq> MLFQ_SCHED_IDLE"
    and "tc_queue t < tc_queue (fst (enq_classify r cb p flags (t, s)))"
  defines "a \<equiv> ad_state (sd_adapt s)"
  shows "tc_queue (fst (enq_classify r cb p flags (t, s))) = 3 \<and> tc_gpu_submit t = 0 \<and> as_t_h_eff_ns a < tc_prev_burst_ns t
    \<or> flags = [] \<and> tc_queue (fst (enq_classify r cb p flags (t, s))) = tc_queue t + 1 \<and> 8 \<le> tc_reenq_cnt t + 1
      \<and> cpu_bound a (mlfq_tree_predict (sd_kernel s) (capture_feats 0 False t)) t"
proof -
  consider (wake) "SCX_ENQ_WAKEUP \<in> set flags" | (out) "flags = []" | (other) "SCX_ENQ_WAKEUP \<notin> set flags" "flags \<noteq> []"
    by blast
  then show ?thesis
  proof cases
    case wake
    let ?t' = "fst (mlfq_wakeup_classify r a (sd_kernel s) p (cb_now cb) (t, sd_stats s))"
    have q: "tc_queue (fst (enq_classify r cb p flags (t, s))) = tc_queue ?t'"
      using wake by (simp add: enq_classify_def a_def case_prod_beta)
    with wakeup_queue_cases [OF assms(1), of r a "sd_kernel s" p "cb_now cb" "sd_stats s"] assms(3) show ?thesis
      by (auto simp: Let_def wake_seeds_def split: if_splits)
  next
    case out
    then have q: "fst (enq_classify r cb p flags (t, s)) = fst (mlfq_runout_classify a (sd_kernel s) p (t, sd_stats s))"
      by (simp add: enq_classify_def a_def case_prod_beta)
    show ?thesis
      using assms(3) out runout_fields(1) [OF assms(1), of a "sd_kernel s" p "sd_stats s"] unfolding q
      by (auto simp: runout_seeds_def runout_pred_def assms(2) split: if_splits)
  next
    case other
    then show ?thesis using assms(3) by (simp add: enq_classify_def)
  qed
qed

text \<open>
  C12. Over any run, an enqueue takes priority from a task in three ways only. The task is
  \<open>SCHED_IDLE\<close> and goes to Q3; or it has no recent GPU submission and its last burst exceeds the CPU-bound
  edge, and the seed sends it to Q3; or the enqueue is at least its eighth run-out in a row, with no
  other enqueue of the task between them, the prediction (or the gauge, while no tree is trained) says it is
  CPU-bound, and it moves down by one queue.
\<close>

theorem priority_loss:
  assumes "consts_fit r" and "streak dq idle r (ts_pid p) n s"
    and "sd_tasks s (ts_pid p) = Some t" and "sd_tasks (mlfq_enqueue r cb p flags s) (ts_pid p) = Some t'"
    and "tc_queue t < tc_queue t'"
  shows "let a = ad_state (sd_adapt s); v = mlfq_tree_predict (sd_kernel s) (capture_feats 0 False t)
    in tc_queue t' = 3 \<and> ts_policy p = MLFQ_SCHED_IDLE
     \<or> tc_queue t' = 3 \<and> tc_gpu_submit t = 0 \<and> as_t_h_eff_ns a < tc_prev_burst_ns t
     \<or> flags = [] \<and> 8 \<le> Suc n \<and> tc_queue t' = tc_queue t + 1
       \<and> (if v = 0 then as_t_h_eff_ns a < tc_ema t else as_t_bnd_eff_ns a \<le> v)"
proof -
  have w: "ts_weight p \<noteq> 0" using refused_enqueue [OF assms(3), of r cb flags] assms(4,5) by auto
  have e: "enq_task cb p s = Some t" using assms(3) by (simp add: enq_task_def)
  have ok: "queue_ok t" by (rule stored_queue_ok [OF assms(1) streak_reachable [OF assms(2)] assms(3)])
  let ?t = "t\<lparr>tc_weight := ts_weight p\<rparr>"
  let ?c = "enq_classify r cb p flags (?t, s)"
  obtain v where "sd_tasks (mlfq_enqueue r cb p flags s) (ts_pid p) = Some v"
    "same_band (fst (enq_decide r cb p flags (t, s))) v"
    by (rule own_enqueue [OF e w])
  then have q: "tc_queue t' = tc_queue (fst (enq_stay r cb p flags (tc_queue t) ?c))"
    using assms(4) by (simp add: same_band_def decide_eq)
  have t1: "tc_queue t' \<noteq> 1" using assms(5) ok by (auto simp: queue_ok_def)
  show ?thesis
  proof (cases "ts_policy p = MLFQ_SCHED_IDLE")
    case True
    then show ?thesis using q t1 by (simp add: stay_result(1) Let_def split: if_splits)
  next
    case False
    then have c: "tc_queue t' = tc_queue (fst ?c)" using q t1 by (simp add: stay_result(1) split: if_splits)
    have ok': "queue_ok ?t" using ok by (simp add: queue_ok_def)
    have f: "capture_feats 0 False ?t = capture_feats 0 False t" by (simp add: capture_feats_def)
    have "8 \<le> Suc n" if "8 \<le> tc_reenq_cnt t + 1"
    proof -
      have "unat (tc_reenq_cnt t + 1) \<le> Suc (unat (tc_reenq_cnt t))" by (simp add: unat_word_ariths)
      moreover have "8 \<le> unat (tc_reenq_cnt t + 1)" using that by (simp add: word_le_nat_alt)
      ultimately show ?thesis using streak_reenq [OF assms(1,2,3)] by linarith
    qed
    then show ?thesis
      using classify_lowers [OF ok' False, of r cb flags s] assms(5) c f
      by (auto simp: Let_def cpu_bound_def)
  qed
qed

section \<open>How a task gains priority\<close>

text \<open>
  C35. Only an enqueue of the task itself, or a renewal of its storage, raises its priority: no other
  callback and no clock does, so a task never gains priority while it waits in a queue. Such an enqueue is a
  wakeup; or it is neither a wakeup nor a run-out, the current stay of the task is at least an aging
  period old, and the task goes to Q1.
\<close>

theorem priority_gain:
  assumes "consts_fit r" and "sched_reachable dq idle r s" and "sched_step dq idle r s s'"
    and "0 < unat (mlfq_aging_period_ns r)" and "unat (mlfq_aging_period_ns r) < 9223372036854775808"
    and "sd_tasks s tid = Some t" and "sd_tasks s' tid = Some t'" and "tc_queue t' < tc_queue t"
  shows "renews tid s s'
    \<or> (\<exists>cb p flags. ts_pid p = tid \<and> s' = mlfq_enqueue r cb p flags s
       \<and> (SCX_ENQ_WAKEUP \<in> set flags
          \<or> flags \<noteq> [] \<and> tc_queue t' = 1 \<and> tc_queued_at t \<noteq> 0
            \<and> \<not> mlfq_time_before (cb_now cb) (tc_queued_at t + mlfq_aging_period_ns r)))"
  using assms(3)
proof (cases rule: step_kinds [where tid = tid])
  case quiet
  then obtain u where "sd_tasks s tid = Some u" "same_band u t'" using band_prev [OF quiet_band assms(7)] by metis
  then show ?thesis using assms(6,8) by (simp add: same_band_def)
next
  case (enqueue cb p flags)
  have w: "ts_weight p \<noteq> 0" using refused_enqueue [of s p t r cb flags] assms(6-8) enqueue by auto
  have e: "enq_task cb p s = Some t" using assms(6) enqueue by (simp add: enq_task_def)
  have ok: "queue_ok t" by (rule stored_queue_ok [OF assms(1,2,6)])
  let ?t = "t\<lparr>tc_weight := ts_weight p\<rparr>"
  let ?c = "enq_classify r cb p flags (?t, s)"
  have ok': "queue_ok ?t" using ok by (simp add: queue_ok_def)
  obtain v where "sd_tasks (mlfq_enqueue r cb p flags s) (ts_pid p) = Some v"
    "same_band (fst (enq_decide r cb p flags (t, s))) v"
    by (rule own_enqueue [OF e w])
  then have q: "tc_queue t' = tc_queue (fst (enq_stay r cb p flags (tc_queue t) ?c))"
    using assms(7) enqueue by (simp add: same_band_def decide_eq)
  have t3: "tc_queue t' \<noteq> 3" using assms(8) ok by (auto simp: queue_ok_def)
  show ?thesis
  proof (cases "SCX_ENQ_WAKEUP \<in> set flags")
    case True
    then show ?thesis using enqueue by blast
  next
    case nw: False
    show ?thesis
    proof (cases "flags = []")
      case True
      have "tc_queue t' = tc_queue (snd (mlfq_apply_sched_idle p (fst ?c)))"
        using fresh_stay_keeps(1) [where flags = flags and t = "fst ?c" and s = "snd ?c"] True assms(4,5) q by simp
      then have "tc_queue t' = tc_queue (fst ?c)" using t3 by (simp add: mlfq_apply_sched_idle_def split: if_splits)
      moreover have "tc_queue t \<le> tc_queue (fst ?c)"
        using ok True runout_fields(1) [OF ok', of "ad_state (sd_adapt s)" "sd_kernel s" p "sd_stats s"]
        by (auto simp: enq_classify_def case_prod_beta queue_ok_def)
      ultimately show ?thesis using assms(8) by simp
    next
      case False
      have c: "tc_queue (fst ?c) = tc_queue t" "tc_queued_at (fst ?c) = tc_queued_at t"
        using nw False by (simp_all add: enq_classify_def)
      then show ?thesis
        using q t3 nw False assms(8) enqueue
        by (fastforce simp: stay_result(1) mlfq_apply_sched_idle_def stay_start_def ages_def split: if_splits)
    qed
  qed
qed simp

section \<open>A CPU-bound task sinks\<close>

text \<open>
  Runs in which the last \<open>n\<close> enqueues of the task were run-outs at each of which it was CPU-bound, from a
  state where its count is 0 (as after every wakeup). Between two run-outs anything else may
  happen: dispatches, its own runs and stops with what they measure, other tasks, publishes.
\<close>

inductive spins :: "'k dsq_ops \<Rightarrow> 'k idle_ops \<Rightarrow> rodata \<Rightarrow> u32 \<Rightarrow> nat \<Rightarrow> sched \<Rightarrow> bool"
  for dq idle r tid where
  fresh: "sched_reachable dq idle r s \<Longrightarrow> sd_tasks s tid = Some t \<Longrightarrow> tc_reenq_cnt t = 0 \<Longrightarrow>
    spins dq idle r tid 0 s"
| runs_out: "spins dq idle r tid n s \<Longrightarrow> ts_pid p = tid \<Longrightarrow> ts_weight p \<noteq> 0 \<Longrightarrow> sd_tasks s tid = Some t \<Longrightarrow>
    cpu_bound (ad_state (sd_adapt s)) (runout_pred (sd_kernel s) p t) t \<Longrightarrow>
    spins dq idle r tid (Suc n) (mlfq_enqueue r cb p [] s)"
| quiet: "spins dq idle r tid n s \<Longrightarrow> quiet_step dq idle r tid s s' \<Longrightarrow> spins dq idle r tid n s'"

lemma spins_reachable: "spins dq idle r tid n s \<Longrightarrow> sched_reachable dq idle r s"
  by (induction rule: spins.induct) (auto intro: reachable_step sched_step.enqueue quiet_is_step)

text \<open>How far down the task is at least after \<open>n\<close> run-outs.\<close>

definition sunk :: "nat \<Rightarrow> task_ctx \<Rightarrow> bool" where
  "sunk n t \<longleftrightarrow> tc_queue t = 3
     \<or> unat (tc_reenq_cnt t) \<le> 7 \<and> (tc_queue t = 1 \<and> n \<le> unat (tc_reenq_cnt t) \<or> tc_queue t = 2 \<and> n \<le> unat (tc_reenq_cnt t) + 8)"

lemma sunk_same: "sunk n t \<Longrightarrow> same_band t u \<Longrightarrow> sunk n u"
  by (simp add: sunk_def same_band_def)

lemma runout_sinks:
  assumes "sunk n t" and "cpu_bound a (runout_pred k p t) t"
  shows "sunk (Suc n) (fst (mlfq_runout_classify a k p (t, st)))"
proof -
  have ok: "queue_ok t" using assms(1) by (auto simp: sunk_def queue_ok_def)
  have c: "8 \<le> tc_reenq_cnt t + 1 \<longleftrightarrow> unat (tc_reenq_cnt t) = 7" "unat (tc_reenq_cnt t + 1) = Suc (unat (tc_reenq_cnt t))"
    if "unat (tc_reenq_cnt t) \<le> 7"
  proof -
    show s: "unat (tc_reenq_cnt t + 1) = Suc (unat (tc_reenq_cnt t))" using that by (simp add: unat_word_ariths)
    show "8 \<le> tc_reenq_cnt t + 1 \<longleftrightarrow> unat (tc_reenq_cnt t) = 7" using that s by (auto simp: word_le_nat_alt)
  qed
  show ?thesis
    using assms c unfolding sunk_def runout_fields(1,2) [OF ok] by (auto split: if_splits)
qed

lemma runout_moved:
  assumes "queue_ok t" and "tc_queue (fst (mlfq_runout_classify a k p (t, st))) \<noteq> tc_queue t"
    and "tc_queue (fst (mlfq_runout_classify a k p (t, st))) \<noteq> 3"
  shows "tc_reenq_cnt (fst (mlfq_runout_classify a k p (t, st))) = 0"
  using assms(2,3) unfolding runout_fields(1,2) [OF assms(1)] by (auto split: if_splits)

lemma fresh_stay_reenq:
  assumes "0 < unat (mlfq_aging_period_ns r)" and "unat (mlfq_aging_period_ns r) < 9223372036854775808"
    and "ts_policy p \<noteq> MLFQ_SCHED_IDLE"
  shows "tc_reenq_cnt (fst (enq_stay r cb p [] old x)) = (if tc_queue (fst x) \<noteq> old then 0 else tc_reenq_cnt (fst x))"
proof -
  have "\<not> ages r (cb_now cb) False (stay_start (cb_now cb) old True (fst x))"
    by (rule fresh_stay_young [OF assms(1,2)])
  then show ?thesis
    using assms(3) by (cases x) (simp add: enq_stay_def mlfq_apply_sched_idle_def Let_def stay_start_def)
qed

lemma decide_sinks:
  assumes "sunk n t" and "cpu_bound (ad_state (sd_adapt s)) (runout_pred (sd_kernel s) p t) t"
    and "0 < unat (mlfq_aging_period_ns r)" and "unat (mlfq_aging_period_ns r) < 9223372036854775808"
  shows "sunk (Suc n) (fst (enq_decide r cb p [] (t, s)))"
proof -
  let ?t = "t\<lparr>tc_weight := ts_weight p\<rparr>"
  let ?c = "enq_classify r cb p [] (?t, s)"
  let ?rc = "mlfq_runout_classify (ad_state (sd_adapt s)) (sd_kernel s) p (?t, sd_stats s)"
  have c_eq: "fst ?c = fst ?rc" by (simp add: enq_classify_def case_prod_beta)
  have "capture_feats 0 False ?t = capture_feats 0 False t" by (simp add: capture_feats_def)
  then have "cpu_bound (ad_state (sd_adapt s)) (runout_pred (sd_kernel s) p ?t) ?t"
    using assms(2) by (simp only: cpu_bound_def runout_pred_def) simp
  moreover have "sunk n ?t" using assms(1) by (simp add: sunk_def)
  ultimately have c: "sunk (Suc n) (fst ?c)" unfolding c_eq by (rule runout_sinks [rotated])
  have q: "tc_queue (fst (enq_decide r cb p [] (t, s))) = (if ts_policy p = MLFQ_SCHED_IDLE then 3 else tc_queue (fst ?c))"
    using fresh_stay_keeps(1) [where flags = "[]" and t = "fst ?c" and s = "snd ?c" and cb = cb and p = p
        and old = "tc_queue t"] assms(3,4)
    by (simp add: decide_eq mlfq_apply_sched_idle_def)
  show ?thesis
  proof (cases "ts_policy p = MLFQ_SCHED_IDLE \<or> tc_queue (fst ?c) = 3")
    case True
    then show ?thesis using q by (auto simp: sunk_def)
  next
    case False
    have "queue_ok ?t" using assms(1) by (auto simp: sunk_def queue_ok_def)
    then have "tc_queue (fst ?c) \<noteq> tc_queue t \<Longrightarrow> tc_reenq_cnt (fst ?c) = 0"
      using runout_moved [of ?t] False unfolding c_eq by simp
    then have "tc_reenq_cnt (fst (enq_decide r cb p [] (t, s))) = tc_reenq_cnt (fst ?c)"
      using False by (simp add: decide_eq fresh_stay_reenq [OF assms(3,4)])
    then show ?thesis using c q False by (simp add: sunk_def)
  qed
qed

lemma spins_sunk:
  assumes "spins dq idle r tid n s" and "consts_fit r"
    and "0 < unat (mlfq_aging_period_ns r)" and "unat (mlfq_aging_period_ns r) < 9223372036854775808"
  shows "\<exists>t. sd_tasks s tid = Some t \<and> sunk n t"
  using assms(1)
proof (induction rule: spins.induct)
  case (fresh s t)
  then show ?case using stored_queue_ok [OF assms(2) fresh(1,2)] by (auto simp: sunk_def queue_ok_def)
next
  case (runs_out n s p t cb)
  then have e: "enq_task cb p s = Some t" and t: "sunk n t" by (auto simp: enq_task_def)
  obtain v where "sd_tasks (mlfq_enqueue r cb p [] s) (ts_pid p) = Some v"
    "same_band (fst (enq_decide r cb p [] (t, s))) v"
    by (rule own_enqueue [OF e runs_out(3)])
  then show ?case using sunk_same [OF decide_sinks [OF t runs_out(5) assms(3,4)]] runs_out(2) by auto
next
  case (quiet n s s')
  then obtain t where t: "sd_tasks s tid = Some t" "sunk n t" by blast
  then obtain u where u: "sd_tasks s' tid = Some u"
    using quiet_band [OF quiet(2)] by (cases "sd_tasks s' tid") (auto simp: band_def)
  obtain t' where "sd_tasks s tid = Some t'" "same_band t' u"
    by (rule band_prev [OF quiet_band [OF quiet(2)] u])
  then show ?case using t u sunk_same by auto
qed

text \<open>
  C24. A task that is CPU-bound at each of its run-outs, by the published tree or, untrained, by its
  gauge, leaves Q1 with the eighth run-out in a row at the latest and is in Q3 from the sixteenth at the latest on,
  whatever happens between the run-outs: dispatches and steals, the accounting of its own runs,
  callbacks for other tasks, realtime takeovers, publishes of new trees and steps of the adaptation.
\<close>

theorem cpu_bound_sinks:
  assumes "consts_fit r"
    and "0 < unat (mlfq_aging_period_ns r)" and "unat (mlfq_aging_period_ns r) < 9223372036854775808"
    and "spins dq idle r tid n s"
  shows "\<exists>t. sd_tasks s tid = Some t \<and> tc_queue t \<in> {1, 2, 3}
    \<and> (if 16 \<le> n then tc_queue t = 3 else if 8 \<le> n then tc_queue t \<noteq> 1 else True)"
  using spins_sunk [OF assms(4,1,2,3)] by (auto simp: sunk_def)

section \<open>Preemption\<close>









end
