(* ===== verification/PriorityRuns.thy ===== *)
theory PriorityRuns
  imports Priority
begin

text \<open>
  Concrete runs for the statements of \<open>Priority\<close>: a task that is initialised and demoted as \<open>SCHED_IDLE\<close>,
  one that a short sleep lifts to Q1, one that a published tree calls CPU-bound sixteen times in a row,
  and one that wakes up into Q1 on a CPU where a task of Q2 runs.
\<close>

section \<open>Runs\<close>

text \<open>The task is initialised and then enqueued as \<open>SCHED_IDLE\<close>; it goes from Q2 to Q3.\<close>

abbreviation idle_p :: task_struct where
  "idle_p \<equiv> example_p\<lparr>ts_policy := MLFQ_SCHED_IDLE\<rparr>"

definition run_init :: "tree_map \<Rightarrow> sched" where
  "run_init m = snd (mlfq_init_task example_cb example_p (run_start m))"

definition fresh_task :: task_ctx where
  "fresh_task = mlfq_reset_task_ctx example_p 1000 task_ctx_zero"

lemma run_init_task: "sd_tasks (run_init m) 7 = Some fresh_task"
  by (simp add: run_init_def mlfq_init_task_def start_tasks set_task_def example_p_def example_cb_def fresh_task_def)

lemma fresh_fields: "tc_queue fresh_task = 2" "tc_reenq_cnt fresh_task = 0" "tc_last_sleep_at fresh_task = 1000"
  "tc_last_ss_boost_at fresh_task = 0"
  by (simp_all add: fresh_task_def mlfq_reset_task_ctx_def mlfq_reset_classification_def example_p_def)

lemma start_unowned: "unowned (run_start m) p"
  by (simp add: unowned_def start_tasks)

lemma init_streak: "streak dq idle rodata_declared 7 0 (run_init m)"
  unfolding run_init_def
  by (rule streak.renewed [OF streak.starts [OF sched_start.started [OF start_returns]]])
    (rule renews.init, simp_all add: example_p_def start_unowned)

lemma init_reachable: "sched_reachable dq idle rodata_declared (run_init m)"
  by (rule streak_reachable [OF init_streak])

lemma declared_aging: "0 < unat (mlfq_aging_period_ns rodata_declared)"
    "unat (mlfq_aging_period_ns rodata_declared) < 9223372036854775808"
  by (simp_all add: rodata_declared_def const_defs)

text \<open>The queue after a wakeup or a run-out of the stored task.\<close>

lemma enqueued_queue:
  assumes "sd_tasks s (ts_pid p) = Some t" and "ts_weight p \<noteq> 0" and "SCX_ENQ_WAKEUP \<in> set flags \<or> flags = []"
  shows "\<exists>u. sd_tasks (mlfq_enqueue rodata_declared cb p flags s) (ts_pid p) = Some u
    \<and> tc_queue u = (if ts_policy p = MLFQ_SCHED_IDLE then 3
        else tc_queue (fst (enq_classify rodata_declared cb p flags (t\<lparr>tc_weight := ts_weight p\<rparr>, s))))"
proof -
  let ?c = "enq_classify rodata_declared cb p flags (t\<lparr>tc_weight := ts_weight p\<rparr>, s)"
  have e: "enq_task cb p s = Some t" using assms(1) by (simp add: enq_task_def)
  obtain u where "sd_tasks (mlfq_enqueue rodata_declared cb p flags s) (ts_pid p) = Some u"
    "same_band (fst (enq_decide rodata_declared cb p flags (t, s))) u"
    by (rule own_enqueue [OF e assms(2)])
  then show ?thesis
    using fresh_stay_keeps(1) [OF assms(3) declared_aging, of cb p "tc_queue t" "fst ?c" "snd ?c"]
    by (auto simp: same_band_def decide_eq mlfq_apply_sched_idle_def)
qed

theorem priority_loss_witness:
  "\<forall>m. \<exists>t'. sd_tasks (mlfq_enqueue rodata_declared example_cb idle_p [] (run_init m)) 7 = Some t' \<and> tc_queue t' = 3"
proof
  fix m
  have p: "ts_pid idle_p = 7" "ts_weight idle_p \<noteq> 0" by (simp_all add: example_p_def)
  have s: "sd_tasks (run_init m) (ts_pid idle_p) = Some fresh_task" by (simp only: p(1) run_init_task)
  obtain u where u: "sd_tasks (mlfq_enqueue rodata_declared example_cb idle_p [] (run_init m)) (ts_pid idle_p) = Some u"
    "tc_queue u = 3"
    using enqueued_queue [OF s p(2), of "[]" example_cb] by auto
  have lt: "tc_queue fresh_task < tc_queue u" by (simp add: fresh_fields u)
  have st: "streak example_dq example_idle rodata_declared (ts_pid idle_p) 0 (run_init m)"
    unfolding p(1) by (rule init_streak)
  from priority_loss [OF declared_fit st s u(1) lt] u p(1)
  show "\<exists>t'. sd_tasks (mlfq_enqueue rodata_declared example_cb idle_p [] (run_init m)) 7 = Some t' \<and> tc_queue t' = 3"
    by (auto simp: Let_def)
qed

text \<open>A wakeup after a sleep of a microsecond lifts the task from Q2 to Q1.\<close>

abbreviation later_cb :: callback where
  "later_cb \<equiv> example_cb\<lparr>cb_now := 2000\<rparr>"

lemma waking_queue:
  assumes "sd_tasks s 7 = Some fresh_task"
  shows "\<exists>u. sd_tasks (mlfq_enqueue rodata_declared later_cb example_p [SCX_ENQ_WAKEUP] s) 7 = Some u \<and> tc_queue u = 1"
proof -
  have s: "sd_tasks s (ts_pid example_p) = Some fresh_task" by (simp add: assms example_p_def)
  let ?t = "fresh_task\<lparr>tc_weight := ts_weight example_p\<rparr>"
  have "mlfq_time_before 1000 2000" by (simp add: mlfq_time_before_def)
  then have "mlfq_ss_boost_pending ?t (fst (wake_decay rodata_declared 2000 ?t)) (ts_in_iowait example_p) 2000
      (mlfq_short_sleep_ns rodata_declared) (mlfq_short_sleep_rate_limit_ns rodata_declared)"
    by (simp add: mlfq_ss_boost_pending_def mlfq_boost_eligible_def mlfq_ss_boost_allowed_def wake_decay_def fresh_fields
        rodata_declared_def const_defs Let_def)
  then have "tc_queue (fst (mlfq_wakeup_classify rodata_declared a k example_p 2000 (?t, st))) = 1" for a k st
    by (intro interactive_boost) (simp_all add: example_p_def const_defs)
  then have "tc_queue (fst (enq_classify rodata_declared later_cb example_p [SCX_ENQ_WAKEUP] (?t, s))) = 1" for s
    by (simp add: enq_classify_def case_prod_beta)
  then show ?thesis
    using enqueued_queue [OF s, of "[SCX_ENQ_WAKEUP]" later_cb] by (simp add: example_p_def const_defs)
qed

theorem priority_gain_witness:
  "\<forall>m. let s' = mlfq_enqueue rodata_declared later_cb example_p [SCX_ENQ_WAKEUP] (run_init m)
    in \<exists>t'. sd_tasks s' 7 = Some t' \<and> tc_queue t' = 1
     \<and> (renews 7 (run_init m) s'
        \<or> (\<exists>cb p flags. ts_pid p = 7 \<and> s' = mlfq_enqueue rodata_declared cb p flags (run_init m) \<and> flags \<noteq> []))"
proof
  fix m
  define s' where "s' = mlfq_enqueue rodata_declared later_cb example_p [SCX_ENQ_WAKEUP] (run_init m)"
  obtain u where u: "sd_tasks s' 7 = Some u" "tc_queue u = 1"
    unfolding s'_def using waking_queue [OF run_init_task] by blast
  have lt: "tc_queue u < tc_queue fresh_task" by (simp add: fresh_fields u)
  have st: "sched_step example_dq example_idle rodata_declared (run_init m) s'"
    unfolding s'_def by (rule sched_step.enqueue)
  from priority_gain [OF declared_fit init_reachable st declared_aging run_init_task u(1) lt]
  have "renews 7 (run_init m) s'
      \<or> (\<exists>cb p flags. ts_pid p = 7 \<and> s' = mlfq_enqueue rodata_declared cb p flags (run_init m) \<and> flags \<noteq> [])"
    by (metis empty_iff empty_set)
  then show "let s' = mlfq_enqueue rodata_declared later_cb example_p [SCX_ENQ_WAKEUP] (run_init m)
    in \<exists>t'. sd_tasks s' 7 = Some t' \<and> tc_queue t' = 1
     \<and> (renews 7 (run_init m) s'
        \<or> (\<exists>cb p flags. ts_pid p = 7 \<and> s' = mlfq_enqueue rodata_declared cb p flags (run_init m) \<and> flags \<noteq> []))"
    using u unfolding s'_def [symmetric] Let_def by blast
qed

text \<open>A published tree of one leaf that predicts four seconds for every task.\<close>

definition long_leaf :: tree_node where
  "long_leaf = node_default\<lparr>left := 4000000000\<rparr>"

definition long_kernel :: kernel where
  "long_kernel = \<lparr>ctrl_meta = 1, tree_map = (\<lambda>_. store_bytes [long_leaf])\<rparr>"

lemma long_kernel_predicts: "mlfq_tree_predict long_kernel f = 4000000000"
proof -
  have "holds_tree long_kernel [long_leaf]"
    by (simp add: holds_tree_def long_kernel_def MLFQ_TREE_META_TRAINED_def)
  moreover have "list_all node_layout [long_leaf]" by (simp add: long_leaf_def node_layout_def node_default_def)
  moreover have "wf_published [long_leaf]"
    by (auto simp: wf_published_def node_ok_def long_leaf_def node_default_def is_leaf_def children_def const_defs
        intro: reach_in.intros)
  ultimately have "mlfq_tree_predict long_kernel f = predict [long_leaf] f" by (rule holds_tree_predict)
  then show ?thesis by (simp add: predict_def predict_walk_rec long_leaf_def node_default_def is_leaf_def MLFQ_TREE_MAX_DEPTH_def)
qed

text \<open>The task is initialised, the tree is published, and the task runs out of its slices.\<close>

definition run_outs :: "nat \<Rightarrow> tree_map \<Rightarrow> sched" where
  "run_outs n m = (mlfq_enqueue rodata_declared example_cb example_p [] ^^ n) ((run_init m)\<lparr>sd_kernel := long_kernel\<rparr>)"

interpretation kernel_part: untouched sd_kernel
  by unfold_locales simp_all

lemma run_outs_spin: "spins dq idle rodata_declared 7 n (run_outs n m) \<and> sd_kernel (run_outs n m) = long_kernel"
proof (induction n)
  case 0
  have "sched_reachable dq idle rodata_declared ((run_init m)\<lparr>sd_kernel := long_kernel\<rparr>)"
    by (rule reachable_step [OF init_reachable sched_step.publish])
  then have "spins dq idle rodata_declared 7 0 ((run_init m)\<lparr>sd_kernel := long_kernel\<rparr>)"
    by (rule spins.fresh [of _ _ _ _ _ fresh_task]) (simp_all add: run_init_task fresh_fields)
  then show ?case by (simp add: run_outs_def)
next
  case (Suc n)
  let ?s = "run_outs n m"
  have sp: "spins dq idle rodata_declared 7 n ?s" and k: "sd_kernel ?s = long_kernel" using Suc by simp_all
  obtain t where t: "sd_tasks ?s 7 = Some t" using spins_sunk [OF sp declared_fit declared_aging] by blast
  have "adapt_inv rodata_declared (sd_adapt ?s)"
    using sched_reachable_inv [OF declared_fit spins_reachable [OF sp]] by (simp add: sched_inv_def)
  then have "as_t_bnd_eff_ns (ad_state (sd_adapt ?s)) \<le> 4000000000"
    by (auto simp: adapt_inv_def adapt_seed_def mlfq_check_bands_def rodata_declared_def const_defs intro: order_trans)
  then have "cpu_bound (ad_state (sd_adapt ?s)) (runout_pred (sd_kernel ?s) example_p t) t"
    by (simp add: cpu_bound_def runout_pred_def k long_kernel_predicts) (simp add: example_p_def const_defs)
  with sp t have "spins dq idle rodata_declared 7 (Suc n) (mlfq_enqueue rodata_declared example_cb example_p [] ?s)"
    by (intro spins.runs_out) (simp_all add: example_p_def)
  then show ?case using k by (simp add: run_outs_def kernel_part.enqueue_same)
qed

theorem cpu_bound_sinks_witness:
  "\<forall>m. \<exists>t. sd_tasks (run_outs 16 m) 7 = Some t \<and> tc_queue t = 3"
proof
  fix m
  have "spins example_dq example_idle rodata_declared 7 16 (run_outs 16 m)" using run_outs_spin by blast
  from cpu_bound_sinks [OF declared_fit declared_aging this]
  show "\<exists>t. sd_tasks (run_outs 16 m) 7 = Some t \<and> tc_queue t = 3" by auto
qed



interpretation stored_task: bystander "\<lambda>s. sd_tasks s q" for q
  by unfold_locales simp_all







end
