(* ===== verification/Pending.thy ===== *)
theory Pending
  imports Frame
begin

text \<open>
  The training samples of the BPF program, from the capture at the classification to the emission at
  \<open>stopping\<close>. \<open>sample_fit\<close> is what holds of every captured vector; the invariant \<open>pend_inv\<close> says
  that the pending sample of every task has it, so an emitted one has it too.
\<close>

section \<open>The pending sample\<close>

definition sample_fit :: "rodata \<Rightarrow> u32 \<Rightarrow> tree_feats \<Rightarrow> bool" where
  "sample_fit r q v \<longleftrightarrow> q \<in> {1, 2, 3} \<and> ema v \<le> mlfq_budget_max_ns r \<and> sq_ema v \<le> MLFQ_SQ_EMA_MAX_NS
     \<and> sleep_var_ratio v \<le> 1024 \<and> gpu_submit v \<le> 4 \<and> io_wait v \<le> 1 \<and> feats_pad v = 0 \<and> feats_pad2 v = 0"

text \<open>What the sampler reads of a task beside its length of run.\<close>

definition pend :: "task_ctx \<Rightarrow> u64 \<times> u32 \<times> tree_feats \<times> u64" where
  "pend t = (tc_pending_valid t, tc_pending_queue t, tc_pending_feats t, tc_last_sample_at t)"

definition pend_ok :: "rodata \<Rightarrow> task_ctx \<Rightarrow> bool" where
  "pend_ok r t \<longleftrightarrow> tc_pending_valid t = 0 \<or> sample_fit r (tc_pending_queue t) (tc_pending_feats t)"

definition pend_inv :: "rodata \<Rightarrow> sched \<Rightarrow> bool" where
  "pend_inv r s \<longleftrightarrow> (\<forall>p t. sd_tasks s p = Some t \<longrightarrow> pend_ok r t)"

lemma pend_ok_eq: "pend u = pend t \<Longrightarrow> pend_ok r u \<longleftrightarrow> pend_ok r t"
  by (simp add: pend_def pend_ok_def)

lemma pend_set: "pend_inv r s \<Longrightarrow> pend_ok r t \<Longrightarrow> pend_inv r (set_task p t s)"
  by (simp add: pend_inv_def set_task_def)

lemma pend_set_same: "pend_inv r s \<Longrightarrow> sd_tasks s (ts_pid p) = Some t \<Longrightarrow> pend u = pend t \<Longrightarrow> pend_inv r (set_task p u s)"
  using pend_ok_eq [of u t r] by (simp add: pend_inv_def set_task_def)

interpretation copies: bystander sd_tasks
  by unfold_locales simp_all

interpretation pends: bystander "pend_inv r" for r
  by unfold_locales (simp_all add: pend_inv_def)

section \<open>The steps that keep it\<close>

lemma pend_through [simp]:
  "pend (fst (runnable_enter qid llc x)) = pend (fst x)" "pend (fst (runnable_exit x)) = pend (fst x)"
  "pend (mlfq_stamp_enq_at now wk t) = pend t" "pend (fst (measure_wait r now x)) = pend (fst x)"
  "pend (snd (mlfq_place_task qs qid t)) = pend t" "pend (clear_drm t) = pend t"
  "pend (snd (mlfq_apply_sched_idle p t)) = pend t" "pend (stay_start now q fresh t) = pend t"
  "pend (mlfq_reset_task_ctx p now t) = pend t"
  by (simp_all add: pend_def runnable_enter_def runnable_exit_def mlfq_runnable_enter_def mlfq_runnable_exit_def
      mlfq_stamp_enq_at_def measure_wait_def mlfq_place_task_def place_entity_eq clear_drm_def mlfq_apply_sched_idle_def
      stay_start_def mlfq_reset_task_ctx_def mlfq_reset_classification_def case_prod_beta Let_def split: option.split)

lemma pend_writes [simp]:
  "pend (t\<lparr>tc_wake_cpu_state := a\<rparr>) = pend t" "pend (t\<lparr>tc_enq_at := b\<rparr>) = pend t" "pend (t\<lparr>tc_flags := c\<rparr>) = pend t"
  "pend (t\<lparr>tc_queue := d\<rparr>) = pend t" "pend (t\<lparr>tc_reenq_cnt := e\<rparr>) = pend t" "pend (t\<lparr>tc_wake_cnt := e\<rparr>) = pend t"
  "pend (t\<lparr>tc_last_run_at := g\<rparr>) = pend t" "pend (t\<lparr>tc_weight := h\<rparr>) = pend t"
  "pend (t\<lparr>tc_last_gpu_submit_at := i\<rparr>) = pend t" "pend (t\<lparr>tc_gpu_submit := j\<rparr>) = pend t"
  by (simp_all add: pend_def)

lemma pend_enq [simp]:
  "pend (fst (enq_place r cb p flags cpu g x)) = pend (fst x)"
  "pend (fst (enq_local r cb p flags cpu d g x)) = pend (fst x)"
  "pend (fst (enq_preempt r cb p flags x)) = pend (fst x)"
  by (simp_all add: enq_place_def enq_local_def enq_preempt_def case_prod_beta Let_def)

lemma pend_branches [simp]:
  "pend (fst (enq_pinned r cb p flags x)) = pend (fst x)" "pend (fst (enq_movable r cb p flags x)) = pend (fst x)"
  "pend (fst (enq_stay r cb p flags q x)) = pend (fst x)"
  by (simp_all add: enq_pinned_def enq_movable_def enq_stay_def case_prod_beta Let_def)

section \<open>The capture\<close>

lemma ucast_queue: "queue_ok t \<Longrightarrow> (ucast (tc_queue t) :: u32) \<in> {1, 2, 3}"
  by (auto simp: queue_ok_def)

lemma arm_fit:
  assumes "task_inv r t"
  shows "pend_ok r (arm_sample slept io t)"
  using assms ucast_queue [of t] by (simp add: pend_ok_def sample_fit_def arm_sample_def capture_feats_def task_inv_def)

lemma decayed_inv:
  assumes "gauge_consts_fit r" and "task_inv r t"
  shows "task_inv r (snd (wake_decay r now t))"
  using assms decay_le_budget [OF assms(1)] by (simp add: wake_decay_def task_inv_def queue_ok_def Let_def)

lemma predict_fit: "task_inv r t \<Longrightarrow> pend_ok r (snd (wake_predict r' a k p slept t))"
  using arm_fit [of r t] by (simp add: wake_predict_def Let_def pend_ok_def)

lemma pend_wake [simp]:
  "pend (fst (wake_map a p pred x)) = pend (fst x)" "pend (fst (wake_boost r p slept now x)) = pend (fst x)"
  "pend (fst (wake_promote r a slept x)) = pend (fst x)" "pend (fst (wake_remap r a slept pred x)) = pend (fst x)"
  "pend (fst (wake_seed r a p slept x)) = pend (fst x)"
  by (simp_all add: pend_def wake_map_def wake_boost_def wake_promote_def mlfq_promote_on_wakeup_def wake_remap_def
      wake_seed_def case_prod_beta Let_def)

lemma wakeup_fit:
  assumes "gauge_consts_fit r" and "task_inv r t"
  shows "pend_ok r (fst (mlfq_wakeup_classify r a k p now (t, st)))"
proof -
  have "pend_ok r (snd (wake_predict r a k p slept (snd (wake_decay r now t))))" for slept
    by (rule predict_fit [OF decayed_inv [OF assms]])
  then show ?thesis
    by (simp add: mlfq_wakeup_classify_def case_prod_beta Let_def
        pend_ok_eq [of "fst (wake_seed r a p slept x)" "fst x" for slept x]
        pend_ok_eq [of "fst (wake_remap r a slept pred x)" "fst x" for slept pred x]
        pend_ok_eq [of "fst (wake_promote r a slept x)" "fst x" for slept x]
        pend_ok_eq [of "fst (wake_boost r p slept now x)" "fst x" for slept x]
        pend_ok_eq [of "fst (wake_map a p pred x)" "fst x" for pred x])
qed

lemma runout_pend: "pend (fst (mlfq_runout_classify a k p (t, st)))
    = pend (if ts_policy p = MLFQ_SCHED_IDLE then t\<lparr>tc_pending_valid := 0\<rparr> else arm_sample 0 False t)"
  by (simp add: mlfq_runout_classify_def runout_seed_def mlfq_demotion_blocked_def mlfq_demote_on_reenq_def Let_def
      case_prod_beta)

lemma runout_fit: "task_inv r t \<Longrightarrow> pend_ok r (fst (mlfq_runout_classify a k p (t, st)))"
  using arm_fit [of r t 0 False] pend_ok_eq [OF runout_pend, of r a k p t st] by (auto simp: pend_ok_def)

lemma classify_fit:
  assumes "gauge_consts_fit r" and "task_inv r t" and "pend_ok r t"
  shows "pend_ok r (fst (enq_classify r cb p flags (t, s)))"
proof -
  have "pend_ok r (t\<lparr>tc_wake_cnt := 0, tc_reenq_cnt := 0\<rparr>)"
    using assms(3) by (simp add: pend_ok_def)
  then show ?thesis
    using wakeup_fit [OF assms(1,2)] runout_fit [OF assms(2)]
    by (simp add: enq_classify_def case_prod_beta)
qed

section \<open>Every callback keeps it\<close>

lemma enqueue_pend:
  assumes fit: "gauge_consts_fit r" and inv: "sched_inv r s" and pi: "pend_inv r s"
  shows "pend_inv r (mlfq_enqueue r cb p flags s)"
proof (cases "enq_task cb p s")
  case None
  then show ?thesis using pi by (simp add: mlfq_enqueue_def)
next
  case (Some t)
  have ti: "task_inv r t" by (rule working_inv [OF enq_task_working [OF inv Some]])
  have "pend_ok r t"
    using Some pi pend_ok_eq [of "mlfq_reset_task_ctx p (cb_reset cb) task_ctx_zero" task_ctx_zero r]
    by (auto simp: enq_task_def pend_inv_def pend_ok_def task_ctx_zero_def split: option.splits if_splits)
  show ?thesis
  proof (cases "ts_weight p = 0")
    case True
    then show ?thesis
      using pi Some \<open>pend_ok r t\<close> by (simp add: mlfq_enqueue_def pend_set)
  next
    case False
    let ?t = "t\<lparr>tc_weight := ts_weight p\<rparr>"
    have "task_inv r ?t" "pend_ok r ?t"
      using ti False \<open>pend_ok r t\<close> by (simp_all add: task_inv_def queue_ok_def pend_ok_def)
    then have "pend_ok r (fst (enq_classify r cb p flags (?t, s)))" by (rule classify_fit [OF fit])
    then have d: "pend_ok r (fst (enq_decide r cb p flags (t, s)))"
      by (simp add: enq_decide_def pend_ok_eq [of "fst (enq_stay r cb p flags q x)" "fst x" for q x])
    have "pend_inv r (snd (enq_decide r cb p flags (t, s)))" using pi by (simp add: enq_decide_def)
    then show ?thesis
      using False Some d
      by (simp add: mlfq_enqueue_def case_prod_beta Let_def pend_set
          pend_ok_eq [of "fst (enq_pinned r cb p flags x)" "fst x" for x]
          pend_ok_eq [of "fst (enq_movable r cb p flags x)" "fst x" for x])
  qed
qed

lemma select_pend:
  assumes "pend_inv r s"
  shows "pend_inv r (snd (snd (mlfq_select_cpu idle r' cb ws waker p prev (k, s))))"
proof (cases "sd_tasks s (ts_pid p)")
  case None
  then show ?thesis using assms by (simp add: mlfq_select_cpu_def)
next
  case (Some t)
  have "pend_inv r (set_task p u (add_call c s))" if "pend u = pend t" for u c
    using assms Some that pend_set_same [of r "add_call c s" p t u] by simp
  moreover have "pend_inv r (set_task p u s)" if "pend u = pend t" for u
    by (rule pend_set_same [OF assms Some that])
  ultimately show ?thesis
    using Some by (simp add: mlfq_select_cpu_def Let_def case_prod_beta split: option.split)
qed

lemma steal_pend:
  assumes "pend_inv r s"
  shows "pend_inv r (account_steal r' qid cpu p c s)"
proof (cases "sd_tasks s (ts_pid p)")
  case None
  then show ?thesis using assms by (simp add: account_steal_def)
next
  case (Some t)
  have "pend_inv r (set_task p (fst x) (snd x))" if "x = runnable_enter q l (t, s)" for x q l
    using assms Some that pend_set_same [of r "snd x" p t "fst x"] by simp
  with Some show ?thesis by (simp add: account_steal_def Let_def case_prod_beta)
qed

lemma slots_pend:
  "pend_inv r s \<Longrightarrow> pend_inv r (snd (snd (dispatch_slots dq r' cpu qid ol oll nr off n moved (k, s))))"
proof (induction n arbitrary: moved k s)
  case (Suc n)
  then show ?case by (simp add: Let_def case_prod_beta steal_pend split: option.split)
qed simp

lemma dispatch_pend:
  assumes "pend_inv r s"
  shows "pend_inv r (snd (mlfq_dispatch dq r' cb cpu prev (k, s)))"
proof -
  have q: "pend_inv r (snd (snd (mlfq_dispatch_queue dq r' cpu qid quota nr ol oll x)))"
    if "pend_inv r (snd x)" for qid quota nr ol oll x
    using that by (cases x) (simp add: mlfq_dispatch_queue_def Let_def slots_pend)
  let ?s = "bump_scan cpu (maybe_adapt r' cb s)"
  have b: "pend_inv r ?s" using assms by simp
  have kept: "pend_inv r (upd_stats g (set_task p (t\<lparr>tc_enq_at := 0\<rparr>) (add_call c ?s)))"
    if "keep_slice dq r' cpu prev nr k ?s = Some (p, t, sl)" for nr p t sl g c
  proof -
    have "sd_tasks ?s (ts_pid p) = Some t"
      using that by (auto simp: keep_slice_def Let_def split: option.splits if_splits)
    then have "pend_inv r (set_task p (t\<lparr>tc_enq_at := 0\<rparr>) (add_call c ?s))"
      using b by (intro pend_set_same) simp_all
    then show ?thesis by simp
  qed
  have "pend_inv r (snd (snd (serve_queues dq r' cpu nr ol oll (k, ?s))))" for nr ol oll
    using b by (simp add: serve_queues_def Let_def case_prod_beta q)
  then show ?thesis
    using kept assms by (simp add: mlfq_dispatch_def Let_def case_prod_beta split: option.split)
qed

lemma running_pend:
  assumes "pend_inv r s"
  shows "pend_inv r (mlfq_running r' cb p s)"
proof (cases "sd_tasks s (ts_pid p)")
  case None
  then show ?thesis using assms by (simp add: mlfq_running_def)
next
  case (Some t)
  have "pend_inv r (set_task p u z)" if "pend u = pend t" "sd_tasks z = sd_tasks s" for u z
    using assms Some that by (intro pend_set_same [of r z p t u]) (simp_all add: pend_inv_def)
  then show ?thesis
    using Some by (simp add: mlfq_running_def Let_def case_prod_beta split: option.split)
qed

lemma life_pend:
  assumes "pend_inv r s"
  shows "pend_inv r (mlfq_quiescent p s)" "pend_inv r (snd (mlfq_init_task cb p s))"
    "pend_inv r (mlfq_enable cb p s)" "pend_inv r (mlfq_exit_task p s)"
    "pend_inv r (mlfq_amdgpu_cs cb cur s)" "pend_inv r (mlfq_amdgpu_cs_ioctl cb cur s)"
    "pend_inv r (mlfq_gpu_sched_queue cb cur s)"
proof -
  have set: "pend_inv r (set_task p u z)" if "sd_tasks s (ts_pid p) = Some t" "pend u = pend t" "sd_tasks z = sd_tasks s" for t u z
    using assms that by (intro pend_set_same [of r z p t u]) (simp_all add: pend_inv_def)
  have new: "pend_inv r (set_task p (mlfq_reset_task_ctx p (cb_now cb) task_ctx_zero) s)"
    using pend_ok_eq [of "mlfq_reset_task_ctx p (cb_now cb) task_ctx_zero" task_ctx_zero r]
    by (intro pend_set [OF assms]) (simp add: pend_ok_def task_ctx_zero_def)
  have del: "pend_inv r (z\<lparr>sd_tasks := (sd_tasks z)(ts_pid p := None)\<rparr>)" if "pend_inv r z" for z
    using that by (simp add: pend_inv_def)
  show "pend_inv r (mlfq_quiescent p s)"
    using assms set by (simp add: mlfq_quiescent_def case_prod_beta split: option.split)
  show "pend_inv r (snd (mlfq_init_task cb p s))" "pend_inv r (mlfq_enable cb p s)"
    using assms set new by (simp_all add: mlfq_init_task_def mlfq_enable_def split: option.split)
  show "pend_inv r (mlfq_exit_task p s)"
    using assms del by (simp add: mlfq_exit_task_def Let_def split: option.split)
  have "pend_inv r (mlfq_gpu_submit_inc cb q b s)" for q b
    using assms pend_set_same [OF assms]
    by (auto simp: mlfq_gpu_submit_inc_def Let_def pend_inv_def set_task_def pend_ok_def split: option.split)
  then show "pend_inv r (mlfq_amdgpu_cs cb cur s)" "pend_inv r (mlfq_amdgpu_cs_ioctl cb cur s)"
    "pend_inv r (mlfq_gpu_sched_queue cb cur s)"
    using assms by (simp_all add: tracepoint_defs split: option.split)
qed

section \<open>The emission\<close>

text \<open>What a run of the sampler may append, and that nothing else touches tree and samples.\<close>

definition emits :: "rodata \<Rightarrow> sched \<Rightarrow> sched \<Rightarrow> bool" where
  "emits r s s' \<longleftrightarrow> sd_samples s' = sd_samples s
     \<or> (\<exists>m. sd_samples s' = sd_samples s @ [m] \<and> sample_fit r (sample_queue m) (feats m)
          \<and> label_ns m \<le> MLFQ_TREE_LABEL_MAX_NS \<and> version m = MLFQ_TREE_SAMPLE_VERSION)"

lemma emit_emits:
  assumes "pend_ok r t" and "tc_pending_valid t \<noteq> 0"
  shows "emits r s (snd (emit_sample cb p d (t, s)))"
proof -
  have "d < MLFQ_TREE_LABEL_MAX_NS \<longrightarrow> d \<le> MLFQ_TREE_LABEL_MAX_NS" by auto
  then show ?thesis
    using assms by (auto simp: emit_sample_def Let_def emits_def upd_stats_def pend_ok_def)
qed

interpretation samples: untouched sd_samples
  by unfold_locales simp_all

interpretation published: untouched sd_kernel
  by unfold_locales simp_all

lemma emit_tree [simp]: "sd_kernel (snd (emit_sample cb p d x)) = sd_kernel (snd x)"
  "sd_tasks (snd (emit_sample cb p d x)) = sd_tasks (snd x)"
  by (simp_all add: emit_sample_def case_prod_beta Let_def)

lemma charge_out:
  assumes "pend_ok r t"
  shows "emits r s (snd (charge_run r' cb p b d (t, s)))"
    and "sd_kernel (snd (charge_run r' cb p b d (t, s))) = sd_kernel s"
    and "sd_tasks (snd (charge_run r' cb p b d (t, s))) = sd_tasks s"
proof -
  define u where "u = (mlfq_ema_climb_task r' d (mlfq_update_vruntime d t))\<lparr>tc_prev_burst_ns := d\<rparr>"
  define z where "z = (let t = mlfq_ema_climb_task r' d (mlfq_update_vruntime d t);
      s = (case cpu_key (cb_cpu cb) of None \<Rightarrow> s
           | Some c \<Rightarrow> s\<lparr>sd_cpus := (sd_cpus s)(c := charge_cpu r' (cb_now cb) d (sd_cpus s c))\<rparr>);
      s = (case sd_queues s (tc_queue t) of None \<Rightarrow> s
           | Some q \<Rightarrow> s\<lparr>sd_queues := (sd_queues s)(tc_queue t \<mapsto> mlfq_queue_advance_clock (tc_vruntime t) q)\<rparr>)
      in upd_stats (\<lambda>st. st\<lparr>st_total_runtime := st_total_runtime st + d\<rparr>) s)"
  have c: "charge_run r' cb p b d (t, s) = (if \<not> b \<and> tc_pending_valid u \<noteq> 0 then emit_sample cb p d (u, z) else (u, z))"
    by (simp add: charge_run_def u_def z_def Let_def)
  have z: "sd_samples z = sd_samples s" "sd_kernel z = sd_kernel s" "sd_tasks z = sd_tasks s"
    by (simp_all add: z_def Let_def split: option.split)
  have "pend u = pend t" by (simp add: u_def pend_def mlfq_ema_climb_task_def mlfq_update_vruntime_def)
  then have "pend_ok r u" using assms pend_ok_eq by blast
  then show "emits r s (snd (charge_run r' cb p b d (t, s)))"
    using emit_emits [of r u z cb p d] z(1) by (simp add: c emits_def)
  show "sd_kernel (snd (charge_run r' cb p b d (t, s))) = sd_kernel s"
    "sd_tasks (snd (charge_run r' cb p b d (t, s))) = sd_tasks s"
    using z(2,3) by (simp_all add: c)
qed

lemma stopping_out:
  assumes "pend_inv r s"
  shows "pend_inv r (mlfq_stopping r' cb p b s) \<and> emits r s (mlfq_stopping r' cb p b s)
    \<and> sd_kernel (mlfq_stopping r' cb p b s) = sd_kernel s"
proof (cases "sd_tasks s (ts_pid p)")
  case None
  then show ?thesis using assms by (simp add: mlfq_stopping_def emits_def)
next
  case (Some t)
  define d where "d = (if tc_last_run_at t \<noteq> 0 \<and> mlfq_time_before (tc_last_run_at t) (cb_now cb)
       then cb_now cb - tc_last_run_at t else 0)"
  define x where "x = (if d \<noteq> 0 then charge_run r' cb p b d (t\<lparr>tc_last_run_at := 0\<rparr>, maybe_adapt r' cb s)
       else (t\<lparr>tc_last_run_at := 0\<rparr>, maybe_adapt r' cb s))"
  have "pend_ok r (t\<lparr>tc_last_run_at := 0\<rparr>)" using assms Some by (simp add: pend_inv_def pend_ok_def)
  note co = charge_out [OF this, where s = "maybe_adapt r' cb s" and r' = r' and cb = cb and p = p and b = b and d = d]
  have x: "emits r s (snd x)" "sd_kernel (snd x) = sd_kernel s" "sd_tasks (snd x) = sd_tasks s"
    using co by (auto simp: x_def emits_def)
  define v where "v = (if \<not> b then cadence (cb_now cb) (fst x) else fst x)"
  define u where "u = v\<lparr>tc_pending_valid := 0, tc_last_sleep_at := (if \<not> b then cb_now cb else tc_last_sleep_at v)\<rparr>"
  define z where "z = mlfq_q1_set (cb_cpu cb) False (snd x)"
  define y where "y = upd_stats (\<lambda>st. if st_on_cpu st = 0 then st else st\<lparr>st_on_cpu := st_on_cpu st - 1\<rparr>)
     (case cpu_key (cb_cpu cb) of None \<Rightarrow> z
      | Some c \<Rightarrow> if b then z else z\<lparr>sd_cpus := (sd_cpus z)(c := (sd_cpus z c)\<lparr>
          running_queue := 0, running_pid := 0, running_deadline := 0, run_start_at := 0,
          running_gpu_submit := 0\<rparr>)\<rparr>)"
  have y: "sd_samples y = sd_samples (snd x)" "sd_kernel y = sd_kernel (snd x)" "sd_tasks y = sd_tasks (snd x)"
    by (simp_all add: y_def z_def split: option.split)
  have st: "mlfq_stopping r' cb p b s = mlfq_op_lat_charge cb MLFQ_OP_LAT_STOPPING (set_task p u y)"
    unfolding mlfq_stopping_def Let_def copies.helpers Some option.case d_def [symmetric] case_prod_beta
      x_def [symmetric] v_def [symmetric] u_def [symmetric] z_def [symmetric] y_def [symmetric] ..
  have "pend_inv r (set_task p u y)"
    using assms x(3) y(3) by (intro pend_set) (simp_all add: pend_ok_def pend_inv_def u_def)
  then show ?thesis using x y unfolding st by (simp add: emits_def)
qed

text \<open>A step of the scheduler keeps the pending samples fit, and only a publish changes the tree.\<close>

lemma step_out:
  assumes "sched_step dq idle r s s'" and fit: "gauge_consts_fit r" and inv: "sched_inv r s" and pi: "pend_inv r s"
  shows "pend_inv r s'" and "emits r s s'" and "sd_kernel s' = sd_kernel s \<or> (\<exists>k. s' = s\<lparr>sd_kernel := k\<rparr>)"
proof -
  show "pend_inv r s'"
    using assms(1)
  proof (cases rule: sched_step.cases)
    case publish
    then show ?thesis using pi by (simp add: pend_inv_def)
  qed (simp_all add: pi stopping_out enqueue_pend [OF fit inv pi] select_pend dispatch_pend running_pend life_pend
      pends.cpu_same)
  show "emits r s s'"
    using assms(1)
  proof (cases rule: samples.step_same)
    case stops
    then show ?thesis using stopping_out [OF pi] by simp
  qed (simp_all add: emits_def)
  show "sd_kernel s' = sd_kernel s \<or> (\<exists>k. s' = s\<lparr>sd_kernel := k\<rparr>)"
    using assms(1)
  proof (cases rule: published.step_same)
    case stops
    then show ?thesis using stopping_out [OF pi] by simp
  qed auto
qed

lemma init_out:
  assumes "mlfq_init r nr create_dsq local_on (sched_zero m) = (0, s)"
  shows "sd_kernel s = \<lparr>ctrl_meta = 0, tree_map = m\<rparr>" and "sd_samples s = []" and "sd_tasks s = Map.empty"
proof -
  have q: "sd_kernel (snd (init_slices r keys z)) = sd_kernel z \<and> sd_samples (snd (init_slices r keys z)) = sd_samples z
    \<and> sd_tasks (snd (init_slices r keys z)) = sd_tasks z" for keys z
    by (induction keys arbitrary: z) (simp_all split: option.split)
  have "sd_kernel (snd (mlfq_init r nr create_dsq local_on z)) = sd_kernel z
    \<and> sd_samples (snd (mlfq_init r nr create_dsq local_on z)) = sd_samples z
    \<and> sd_tasks (snd (mlfq_init r nr create_dsq local_on z)) = sd_tasks z" for z
    using q [of "[1, 2, 3]"]
    by (simp add: mlfq_init_def Let_def case_prod_beta init_fail_def add_call_def split: option.split
        del: init_slices.simps)
  from this [of "sched_zero m"] assms
  show "sd_kernel s = \<lparr>ctrl_meta = 0, tree_map = m\<rparr>" "sd_samples s = []" "sd_tasks s = Map.empty"
    by (simp_all add: sched_zero_def)
qed

end
