(* ===== verification/System.thy ===== *)
theory System
  imports Pending SchedOk Rounds Snapshot "HOL-Library.Sublist"
begin

text \<open>
  The daemon and the BPF program together. They share three things: the tree store and its control
  word, which only the daemon writes; the ring buffer, which the program fills and the daemon
  empties; and the BSS section and maps the daemon reads for its reports. A state of the system has
  both states and the number of samples the daemon has consumed; a step is one of either side.
\<close>

section \<open>The composition\<close>

record system =
  sy_daemon :: daemon
  sy_sched :: sched
  sy_read :: nat

text \<open>
  The daemon consumes the oldest sample it has not read, as the packed record the program wrote.
  A step of its pipeline, the poll with a publish included, shows in the tree the program reads.
\<close>

inductive sys_step ::
  "powf \<Rightarrow> map_update \<Rightarrow> 'k dsq_ops \<Rightarrow> 'k idle_ops \<Rightarrow> rodata \<Rightarrow> system \<Rightarrow> system \<Rightarrow> bool"
  for powf upd dq idle r where
  program: "sched_step dq idle r (sy_sched y) s \<Longrightarrow> sd_kernel s = sd_kernel (sy_sched y) \<Longrightarrow>
    sys_step powf upd dq idle r y (y\<lparr>sy_sched := s\<rparr>)"
| consume: "sy_read y < length (sd_samples (sy_sched y)) \<Longrightarrow>
    sys_step powf upd dq idle r y (y\<lparr>
      sy_daemon := rb_callback (sample_bytes (sd_samples (sy_sched y) ! sy_read y)) (sy_daemon y),
      sy_read := Suc (sy_read y)\<rparr>)"
| ingest: "sample_chan (sy_daemon y) = m # ms \<Longrightarrow>
    sys_step powf upd dq idle r y (y\<lparr>sy_daemon := ingest_sample now m ((sy_daemon y)\<lparr>sample_chan := ms\<rparr>)\<rparr>)"
| pipeline: "work powf upd (sy_daemon y) d \<Longrightarrow>
    sys_step powf upd dq idle r y (y\<lparr>sy_daemon := d, sy_sched := (sy_sched y)\<lparr>sd_kernel := kern d\<rparr>\<rparr>)"

inductive sys_start :: "rodata \<Rightarrow> system \<Rightarrow> bool" for r where
  started: "mlfq_init r nr create_dsq local_on (sched_zero m) = (0, s) \<Longrightarrow>
    sys_start r \<lparr>sy_daemon = daemon_init m, sy_sched = s, sy_read = 0\<rparr>"

definition sys_reachable ::
  "powf \<Rightarrow> map_update \<Rightarrow> 'k dsq_ops \<Rightarrow> 'k idle_ops \<Rightarrow> rodata \<Rightarrow> system \<Rightarrow> bool" where
  "sys_reachable powf upd dq idle r y \<longleftrightarrow> (\<exists>y0. sys_start r y0 \<and> (sys_step powf upd dq idle r)\<^sup>*\<^sup>* y0 y)"

section \<open>What the daemon is fed\<close>

text \<open>What the daemon holds comes, in order and once each, out of the samples it has read.\<close>

definition fed :: "tree_sample list \<Rightarrow> daemon \<Rightarrow> bool" where
  "fed ms d \<longleftrightarrow> subseq (window (dwin d) @ sample_chan d) ms
     \<and> (\<forall>j\<in>set (job_chan d). subseq j ms)
     \<and> (case worker d of W_busy j \<Rightarrow> subseq j ms | _ \<Rightarrow> True)"

lemma fed_more: "fed ms d \<Longrightarrow> fed (ms @ xs) d"
  unfolding fed_def by (auto intro: subseq_rev_drop_many split: worker.splits)

lemma fed_callback:
  assumes "fed ms d" and "version m = MLFQ_TREE_SAMPLE_VERSION"
  shows "fed (ms @ [m]) (rb_callback (sample_bytes m) d)"
proof -
  have "parse_record (sample_bytes m) = Some m"
    using assms(2) decode_sample_bytes [of m "[]"]
    by (simp add: parse_record_def length_sample_bytes sample_version_matches_def)
  moreover have "subseq ((window (dwin d) @ sample_chan d) @ [m]) (ms @ [m])"
    using assms(1) by (intro list_emb_append_mono) (simp_all add: fed_def)
  ultimately show ?thesis
    using fed_more [OF assms(1), of "[m]"] assms(1) by (auto simp: rb_callback_def fed_def split: worker.splits)
qed

lemma ingest_subseq: "subseq (window (snd (ingest_window m w))) (window w @ [m])"
proof (cases m w rule: ingest_window_cases)
  case drop
  then show ?thesis by (simp add: subseq_rev_drop_many)
next
  case (slide q ws)
  then show ?thesis by (simp add: subseq_Cons')
next
  case append
  then show ?thesis by simp
qed

lemma ingest_frame [simp]:
  "dwin (ingest_sample now m d) = snd (ingest_window m (dwin d))" "worker (ingest_sample now m d) = worker d"
  "kern (ingest_sample now m d) = kern d"
  by (simp_all add: ingest_sample_def kick_training_def Let_def case_prod_beta)

lemma ingest_jobs:
  "set (job_chan (ingest_sample now m d)) \<subseteq> insert (window (snd (ingest_window m (dwin d)))) (set (job_chan d))"
  by (auto simp: ingest_sample_def kick_training_def Let_def case_prod_beta split: if_splits)

lemma fed_ingest:
  assumes "fed ms d" and "sample_chan d = m # rest"
  shows "fed ms (ingest_sample now m (d\<lparr>sample_chan := rest\<rparr>))"
proof -
  have "subseq (window (snd (ingest_window m (dwin d))) @ rest) ((window (dwin d) @ [m]) @ rest)"
    by (rule list_emb_append_mono [OF ingest_subseq]) simp
  then have w: "subseq (window (snd (ingest_window m (dwin d))) @ rest) ms"
    using assms subseq_order.order_trans by (fastforce simp: fed_def)
  then have "subseq (window (snd (ingest_window m (dwin d)))) ms"
    by (rule subseq_order.order_trans [rotated]) (simp add: subseq_rev_drop_many)
  then show ?thesis
    using assms(1) w ingest_jobs [of now m "d\<lparr>sample_chan := rest\<rparr>"] by (auto simp: fed_def split: worker.splits)
qed

lemma apply_dwin [simp]: "dwin (apply_train_result upd res d) = dwin d"
  by (simp add: apply_train_result_def Let_def split: sum.split)

lemma poll_dwin [simp]: "dwin (poll_one upd d) = dwin d"
  by (simp add: poll_one_def Let_def split: list.split sum.split)

lemma fed_work:
  assumes "work powf upd d d'" and "fed ms d"
  shows "fed ms d'"
  using assms by (induction rule: work.induct) (simp_all add: fed_def)

section \<open>The invariant\<close>

definition sample_ok :: "rodata \<Rightarrow> tree_sample \<Rightarrow> bool" where
  "sample_ok r m \<longleftrightarrow> sample_fit r (sample_queue m) (feats m) \<and> label_ns m \<le> MLFQ_TREE_LABEL_MAX_NS
     \<and> version m = MLFQ_TREE_SAMPLE_VERSION"

definition sys_inv ::
  "powf \<Rightarrow> map_update \<Rightarrow> 'k dsq_ops \<Rightarrow> 'k idle_ops \<Rightarrow> rodata \<Rightarrow> system \<Rightarrow> bool" where
  "sys_inv powf upd dq idle r y \<longleftrightarrow> reachable powf upd (sy_daemon y) \<and> sched_reachable dq idle r (sy_sched y)
     \<and> sd_kernel (sy_sched y) = kern (sy_daemon y) \<and> pend_inv r (sy_sched y)
     \<and> list_all (sample_ok r) (sd_samples (sy_sched y)) \<and> sy_read y \<le> length (sd_samples (sy_sched y))
     \<and> fed (take (sy_read y) (sd_samples (sy_sched y))) (sy_daemon y)"

lemma sys_inv_start:
  assumes "sys_start r y"
  shows "sys_inv powf upd dq idle r y"
  using assms
proof cases
  case (started nr create_dsq local_on m s)
  from init_out [OF started(2)] show ?thesis
    using reachable.init reachable_start [OF sched_start.started [OF started(2)]]
    by (simp add: started(1) sys_inv_def pend_inv_def fed_def daemon_init_def win_init_def)
qed

lemma rb_kern [simp]: "kern (rb_callback data d) = kern d"
  by (simp add: rb_callback_def split: option.split)

lemma sys_inv_step:
  assumes fit: "consts_fit r" and "sys_step powf upd dq idle r y y'" and inv: "sys_inv powf upd dq idle r y"
  shows "sys_inv powf upd dq idle r y'"
  using assms(2)
proof cases
  case (program s)
  have "sched_reachable dq idle r (sy_sched y)" using inv by (simp add: sys_inv_def)
  then have si: "sched_inv r (sy_sched y)" by (rule sched_reachable_inv [OF fit])
  have g: "gauge_consts_fit r" using fit by (simp add: consts_fit_def)
  have pi: "pend_inv r (sy_sched y)" using inv by (simp add: sys_inv_def)
  note out = step_out [OF program(2) g si pi]
  from out(2) obtain ms where ms: "sd_samples s = sd_samples (sy_sched y) @ ms" "list_all (sample_ok r) ms"
    by (fastforce simp: emits_def sample_ok_def)
  then show ?thesis
    using inv out(1) program reachable_step [OF _ program(2)] by (simp add: sys_inv_def)
next
  case consume
  define m where "m = sd_samples (sy_sched y) ! sy_read y"
  have "sample_ok r m" using inv consume by (simp add: sys_inv_def m_def list_all_length)
  then have "fed (take (sy_read y) (sd_samples (sy_sched y)) @ [m]) (rb_callback (sample_bytes m) (sy_daemon y))"
    using inv by (intro fed_callback) (simp_all add: sys_inv_def sample_ok_def)
  then show ?thesis
    using inv consume reachable.step [OF _ dstep.callback]
    by (simp add: sys_inv_def m_def take_Suc_conv_app_nth)
next
  case (ingest m ms now)
  then show ?thesis
    using inv reachable.step [OF _ dstep.ingest [OF ingest(2)]] fed_ingest [OF _ ingest(2)]
    by (simp add: sys_inv_def)
next
  case (pipeline d)
  have "sched_reachable dq idle r ((sy_sched y)\<lparr>sd_kernel := kern d\<rparr>)"
    using inv by (intro reachable_step [OF _ sched_step.publish]) (simp add: sys_inv_def)
  then show ?thesis
    using inv pipeline reachable.step [OF _ work_is_dstep [OF pipeline(2)]] fed_work [OF pipeline(2)]
    by (simp add: sys_inv_def pend_inv_def)
qed

interpretation sys_run: inductive_invariant "sys_start r" "sys_step powf upd dq idle r"
  "\<lambda>y. consts_fit r \<longrightarrow> sys_inv powf upd dq idle r y" for powf upd dq idle r
  using sys_inv_start sys_inv_step by unfold_locales blast+

lemma sys_reachable_inv:
  "consts_fit r \<Longrightarrow> sys_reachable powf upd dq idle r y \<Longrightarrow> sys_inv powf upd dq idle r y"
  unfolding sys_reachable_def by (drule sys_run.reachable_holds) simp

end
