(* ===== verification/Reports.thy ===== *)
theory Reports
  imports System
begin

text \<open>
  What the daemon reports of the program. \<open>bss_view\<close> is the BSS section and the maps of a state of
  the program as the daemon reads them, the per-CPU maps as the bytes of all their copies; the
  lemmas say what its sums are.
\<close>

section \<open>What the daemon reads\<close>

definition op_lat_bytes :: "sched \<Rightarrow> nat \<Rightarrow> u8 list" where
  "op_lat_bytes s op =
     concat (map (\<lambda>cpu. concat (map (\<lambda>b. le_bytes 8 (sd_op_lat s cpu op b)) [0..<8])) [0..<sd_nr_cpu_ids s])"

definition wakeup_bytes :: "sched \<Rightarrow> u8 list" where
  "wakeup_bytes s =
     concat (map (\<lambda>cpu. let w = ad_wakeups (sd_adapt s) cpu in le_bytes 8 (wk_total w) @ le_bytes 8 (wk_window w))
       [0..<sd_nr_cpu_ids s])"

definition bss_view :: "sched \<Rightarrow> bpf_env \<Rightarrow> bpf_env" where
  "bss_view s env = env\<lparr>
     bss_stats := sd_stats s, bss_gauge := ad_gauge (sd_adapt s), bss_adapt := ad_state (sd_adapt s),
     nr_cpu_ids := sd_nr_cpu_ids s,
     bss_queue_runnable := map (rg_queue (sd_run s)) [0..<4],
     bss_llc_runnable := map (rg_llc (sd_run s)) [0..<MLFQ_MAX_LLCS],
     bss_gpu_submit_total := sd_gpu_submit_total s, bss_gpu_trace_mask := sd_gpu_trace_mask s,
     op_lat_lookup := (\<lambda>op. if unat op < MLFQ_OP_LAT_OPS then Some (op_lat_bytes s (unat op)) else None),
     wakeup_lookup := (\<lambda>k. if k = 0 then Some (wakeup_bytes s) else None),
     cpu_state_lookup := (\<lambda>c. if unat c < MLFQ_MAX_CPUS then Some (sd_cpus s (unat c)) else None),
     rtdl_lookup := (\<lambda>c. if unat c < MLFQ_MAX_CPUS then Some (sd_rtdl s (unat c)) else None)\<rparr>"

section \<open>The slots of the per-CPU copies\<close>

lemma drop_blocks:
  assumes "\<And>i. length (g i) = k" and "i \<le> n"
  shows "drop (i * k) (concat (map g [0..<n])) = concat (map g [i..<n])"
  using assms(2)
proof (induction i)
  case (Suc i)
  then have i: "drop (i * k) (concat (map g [0..<n])) = concat (map g [i..<n])" "i < n" by simp_all
  have "drop (Suc i * k) (concat (map g [0..<n])) = drop k (drop (i * k) (concat (map g [0..<n])))"
    by (simp only: mult_Suc drop_drop)
  then show ?case unfolding i(1) using upt_conv_Cons [OF i(2)] assms(1) by simp
qed simp

lemma slot_block:
  assumes "\<And>i. length (g i) = k" and "i < n" and "off + 8 \<le> k"
  shows "slot_at (concat (map g [0..<n])) (i * k + off) = slot_at (g i) off"
proof -
  have "drop (i * k + off) (concat (map g [0..<n])) = drop off (concat (map g [i..<n]))"
    using drop_blocks [of g k i n] assms by (metis add.commute drop_drop less_imp_le)
  then show ?thesis using assms by (simp add: slot_at_def upt_conv_Cons)
qed

lemma slot_words: "b < n \<Longrightarrow> slot_at (concat (map (\<lambda>b. le_bytes 8 (h b)) [0..<n])) (b * 8) = h b"
  using slot_block [of "\<lambda>b. le_bytes 8 (h b)" 8 b n 0] by (simp add: slot_at_def)

lemma op_lat_slot:
  assumes "cpu < sd_nr_cpu_ids s" and "b < 8"
  shows "slot_at (op_lat_bytes s op) (cpu * 64 + b * 8) = sd_op_lat s cpu op b"
proof -
  have "length (concat (map (\<lambda>b. le_bytes 8 (h b)) [0..<8])) = 64" for h :: "nat \<Rightarrow> u64"
    by (simp add: length_concat comp_def sum_list_triv)
  then show ?thesis
    using assms slot_block [of "\<lambda>cpu. concat (map (\<lambda>b. le_bytes 8 (sd_op_lat s cpu op b)) [0..<8])" 64 cpu
        "sd_nr_cpu_ids s" "b * 8"] slot_words [of b 8 "sd_op_lat s cpu op"]
    by (simp add: op_lat_bytes_def)
qed

lemma wakeup_slot:
  assumes "cpu < sd_nr_cpu_ids s"
  shows "slot_at (wakeup_bytes s) (cpu * 16) = wk_total (ad_wakeups (sd_adapt s) cpu)"
  using assms slot_block [of "\<lambda>cpu. let w = ad_wakeups (sd_adapt s) cpu in le_bytes 8 (wk_total w) @ le_bytes 8 (wk_window w)"
      16 cpu "sd_nr_cpu_ids s" 0]
  by (simp add: wakeup_bytes_def Let_def slot_at_def)

lemma reported_op_lat:
  "op_lat (get_metrics now (bss_view s env) d)
     = map (\<lambda>j. \<Sum>cpu\<in>{..<min (sd_nr_cpu_ids s) MLFQ_MAX_CPUS}. sd_op_lat s cpu (j div 8) (j mod 8)) [0..<32]"
proof -
  have j: "j div 8 < 4" "unat (of_nat (j div 8) :: u32) = j div 8" if "j < 32" for j
  proof -
    show "j div 8 < 4" using that by auto
    then show "unat (of_nat (j div 8) :: u32) = j div 8" by (simp add: unat_of_nat)
  qed
  have "bucket_sum (op_lat_lookup (bss_view s env)) (stat_cpus (Some (sd_nr_cpu_ids s))) j
      = (\<Sum>cpu\<in>{..<min (sd_nr_cpu_ids s) MLFQ_MAX_CPUS}. sd_op_lat s cpu (j div 8) (j mod 8))" if "j < 32" for j
    using j [OF that] op_lat_slot
    by (simp add: bucket_sum_def bss_view_def MLFQ_OP_LAT_OPS_def stat_cpus_def)
  then show ?thesis
    using conjunct1 [OF per_cpu_sums [of "op_lat_lookup (bss_view s env)" "Some (sd_nr_cpu_ids s)" undefined]]
    by (simp add: get_metrics_def Let_def bss_view_def)
qed

lemma reported_wakeups:
  "wakeup_total (get_metrics now (bss_view s env) d)
     = (\<Sum>cpu\<in>{..<min (sd_nr_cpu_ids s) MLFQ_MAX_CPUS}. wk_total (ad_wakeups (sd_adapt s) cpu))"
  using conjunct2 [OF per_cpu_sums [of undefined "Some (sd_nr_cpu_ids s)" "wakeup_lookup (bss_view s env)"]]
    wakeup_slot [of _ s]
  by (simp add: get_metrics_def Let_def bss_view_def stat_cpus_def)

end
