(* ===== verification/History.thy ===== *)
theory History
  imports Reports
begin

text \<open>
  The trees the daemon has committed. \<open>sys_history\<close> runs the system with the list of them: a step
  appends the tree of the result at the head of the result channel when it raises the generation. The
  invariant says that the last one is the tree in the store, and where each of them comes from.
\<close>

section \<open>The history of a run\<close>

definition commits :: "daemon \<Rightarrow> daemon \<Rightarrow> tree_node list list" where
  "commits d d' = (if generation (model d') = generation (model d) then []
     else case res_chan d of Inr res # _ \<Rightarrow> [tr_tree res] | _ \<Rightarrow> [])"

inductive sys_history ::
  "powf \<Rightarrow> map_update \<Rightarrow> 'k dsq_ops \<Rightarrow> 'k idle_ops \<Rightarrow> rodata \<Rightarrow> tree_node list list \<Rightarrow> system \<Rightarrow> bool"
  for powf upd dq idle r where
  starts: "sys_start r y \<Longrightarrow> sys_history powf upd dq idle r [] y"
| steps: "sys_history powf upd dq idle r log y \<Longrightarrow> sys_step powf upd dq idle r y y' \<Longrightarrow>
    sys_history powf upd dq idle r (log @ commits (sy_daemon y) (sy_daemon y')) y'"

lemma history_reachable: "sys_history powf upd dq idle r log y \<Longrightarrow> sys_reachable powf upd dq idle r y"
  by (induction rule: sys_history.induct) (auto simp: sys_reachable_def intro: rtranclp.rtrancl_into_rtrancl)

lemma reachable_history:
  assumes "sys_reachable powf upd dq idle r y"
  shows "\<exists>log. sys_history powf upd dq idle r log y"
proof -
  obtain y0 where y0: "sys_start r y0" "(sys_step powf upd dq idle r)\<^sup>*\<^sup>* y0 y"
    using assms by (auto simp: sys_reachable_def)
  from y0(2) show ?thesis
    by (induction rule: rtranclp_induct) (use y0(1) sys_history.intros in blast)+
qed

section \<open>Where a result comes from\<close>

text \<open>A result of the worker on samples that came, in order and once each, out of \<open>ms\<close>.\<close>

definition learned :: "powf \<Rightarrow> tree_sample list \<Rightarrow> train_result \<Rightarrow> bool" where
  "learned powf ms res \<longleftrightarrow> (\<exists>j sc. subseq j ms \<and> fst (train_model_with_scratch powf j sc) = Ok res)"

definition handed :: "powf \<Rightarrow> tree_sample list \<Rightarrow> daemon \<Rightarrow> bool" where
  "handed powf ms d \<longleftrightarrow> (\<forall>res. Ok res \<in> set (res_chan d) \<or> worker d = W_sending (Ok res) \<longrightarrow> learned powf ms res)"

lemma learned_more: "learned powf ms res \<Longrightarrow> learned powf (ms @ xs) res"
  unfolding learned_def by (blast intro: subseq_rev_drop_many)

lemma handed_more: "handed powf ms d \<Longrightarrow> handed powf (ms @ xs) d"
  unfolding handed_def by (blast intro: learned_more)

lemma rb_results [simp]:
  "res_chan (rb_callback data d) = res_chan d" "worker (rb_callback data d) = worker d" "model (rb_callback data d) = model d"
  by (simp_all add: rb_callback_def split: option.split)

lemma ingest_model [simp]: "model (ingest_sample now s d) = model d"
  by (simp add: ingest_sample_def kick_training_def Let_def case_prod_beta)

lemma handed_work:
  assumes "work powf upd d d'" and "fed ms d" and "handed powf ms d"
  shows "handed powf ms d'"
  using assms
proof (induction rule: work.induct)
  case (work_train d j r s)
  then have "r = Ok res \<Longrightarrow> learned powf ms res" for res
    unfolding learned_def by (auto simp: fed_def intro!: exI [of _ j] exI [of _ "worker_scratch d"])
  with work_train show ?case by (auto simp: handed_def)
next
  case (work_poll d)
  then show ?case by (cases "res_chan d") (auto simp: handed_def)
qed (auto simp: handed_def)

section \<open>The invariant\<close>

definition current :: "tree_node list list \<Rightarrow> tree_node list" where
  "current log = (if log = [] then [] else last log)"

definition in_store :: "tree_node list list \<Rightarrow> daemon \<Rightarrow> bool" where
  "in_store log d \<longleftrightarrow> unat (generation (model d)) = length log \<and> nr_nodes (model d) = length (current log)
     \<and> (log \<noteq> [] \<longrightarrow> holds_tree (kern d) (last log) \<and> list_all node_layout (last log) \<and> wf_published (last log))"

lemma in_store_same: "model d' = model d \<Longrightarrow> kern d' = kern d \<Longrightarrow> in_store log d' \<longleftrightarrow> in_store log d"
  by (simp add: in_store_def)

lemma in_store_work:
  assumes "work powf upd d d'" and upd: "update_replaces upd" and inv: "daemon_inv d" and log: "in_store log d"
  shows "in_store (log @ commits d d') d'
    \<and> (\<forall>n\<in>set (commits d d'). wf_published n \<and> (\<exists>res. Ok res \<in> set (res_chan d) \<and> n = tr_tree res))"
  using assms(1)
proof cases
  case work_poll
  show ?thesis
  proof (cases "res_chan d")
    case Nil
    with work_poll(2) show ?thesis by simp
  next
    case (Cons x rs)
    show ?thesis
    proof (cases x)
      case (Inl e)
      then show ?thesis using log Cons work_poll by (simp add: poll_one_def commits_def in_store_def)
    next
      case (Inr res)
      let ?d = "d\<lparr>res_chan := rs\<rparr>"
      have d': "d' = apply_train_result upd res ?d" using work_poll Cons Inr by (simp add: poll_one_def)
      have good: "good_result res" and com: "committed (model ?d) (kern ?d)"
        using inv Cons Inr by (simp_all add: daemon_inv_def pipeline_ok_def good_outcome_def)
      have wf: "wf_published (tr_tree res)" "list_all node_layout (tr_tree res)"
        using good by (simp_all only: good_result_def validate_ok_wf)
      then have len: "length (tr_tree res) \<le> MLFQ_TREE_MAX_NODES" by (simp add: wf_published_def)
      show ?thesis
      proof (cases upd res ?d rule: apply_cases)
        case kept
        then show ?thesis using log by (simp add: d' commits_def in_store_def)
      next
        case (published k)
        have nz: "generation (model d) + 1 \<noteq> 0"
          using publish_keeps_committed(2) [OF upd com good published(2,3)] by simp
        then have g: "unat (generation (model d) + 1) = Suc (unat (generation (model d)))"
          using unatSuc [of "generation (model d)"] by (simp add: add.commute)
        have c: "commits d d' = [tr_tree res]"
          using Cons Inr by (simp add: commits_def d' published(4) model_of_def)
        show ?thesis
          using log g publish_holds [OF upd published(3) len] wf Cons Inr
          unfolding c by (auto simp: d' published(4) in_store_def current_def model_of_def)
      qed
    qed
  qed
qed (use log in \<open>simp_all add: commits_def in_store_def\<close>)

definition history_inv :: "powf \<Rightarrow> tree_node list list \<Rightarrow> system \<Rightarrow> bool" where
  "history_inv powf log y \<longleftrightarrow> in_store log (sy_daemon y) \<and> handed powf (sd_samples (sy_sched y)) (sy_daemon y)
     \<and> (\<forall>n\<in>set log. wf_published n \<and> (\<exists>res. learned powf (sd_samples (sy_sched y)) res \<and> n = tr_tree res))"

lemma no_commits: "model d' = model d \<Longrightarrow> commits d d' = []"
  by (simp add: commits_def)

lemma history_holds:
  assumes fit: "consts_fit r" and upd: "update_replaces upd" and "sys_history powf upd dq idle r log y"
  shows "history_inv powf log y"
  using assms(3)
proof (induction rule: sys_history.induct)
  case (starts y)
  then show ?case
    by cases (simp add: history_inv_def in_store_def current_def handed_def daemon_init_def model_default_def)
next
  case (steps log y y')
  have inv: "sys_inv powf upd dq idle r y"
    by (rule sys_reachable_inv [OF fit history_reachable [OF steps(1)]])
  from steps(2) show ?case
  proof cases
    case (program s)
    have "sched_inv r (sy_sched y)" "gauge_consts_fit r" "pend_inv r (sy_sched y)"
      using inv fit sched_reachable_inv [OF fit] by (auto simp: sys_inv_def consts_fit_def)
    then obtain ms where "sd_samples s = sd_samples (sy_sched y) @ ms"
      using step_out(2) [OF program(2)] by (fastforce simp: emits_def)
    then show ?thesis
      using steps(3) by (auto simp: program(1) history_inv_def no_commits intro: handed_more learned_more)
  next
    case consume
    then show ?thesis
      using steps(3) by (simp add: history_inv_def no_commits handed_def in_store_same [of "rb_callback x d" for x d])
  next
    case (ingest m ms now)
    then show ?thesis
      using steps(3) by (simp add: history_inv_def no_commits handed_def in_store_def)
  next
    case (pipeline d)
    have f: "fed (sd_samples (sy_sched y)) (sy_daemon y)"
      using inv fed_more [of "take (sy_read y) (sd_samples (sy_sched y))" _ "drop (sy_read y) (sd_samples (sy_sched y))"]
      by (simp add: sys_inv_def)
    have db: "daemon_inv (sy_daemon y)" using inv unfolding sys_inv_def by (blast intro: reachable_inv [OF upd])
    have w: "in_store (log @ commits (sy_daemon y) d) d" "handed powf (sd_samples (sy_sched y)) d"
      "\<forall>n\<in>set (commits (sy_daemon y) d). wf_published n \<and> (\<exists>res. Ok res \<in> set (res_chan (sy_daemon y)) \<and> n = tr_tree res)"
    proof -
      have h: "in_store log (sy_daemon y)" "handed powf (sd_samples (sy_sched y)) (sy_daemon y)"
        using steps(3) by (simp_all add: history_inv_def)
      note w = in_store_work [OF pipeline(2) upd db h(1)]
      show "in_store (log @ commits (sy_daemon y) d) d" by (rule conjunct1 [OF w])
      show "handed powf (sd_samples (sy_sched y)) d" by (rule handed_work [OF pipeline(2) f h(2)])
      show "\<forall>n\<in>set (commits (sy_daemon y) d). wf_published n
          \<and> (\<exists>res. Ok res \<in> set (res_chan (sy_daemon y)) \<and> n = tr_tree res)"
        by (rule conjunct2 [OF w])
    qed
    have "\<exists>res. learned powf (sd_samples (sy_sched y)) res \<and> n = tr_tree res" if n: "n \<in> set (commits (sy_daemon y) d)" for n
    proof -
      obtain res where "Ok res \<in> set (res_chan (sy_daemon y))" "n = tr_tree res" using bspec [OF w(3) n] by auto
      moreover have "handed powf (sd_samples (sy_sched y)) (sy_daemon y)" using steps(3) by (simp add: history_inv_def)
      ultimately show ?thesis unfolding handed_def by blast
    qed
    then show ?thesis
      using steps(3) w unfolding history_inv_def pipeline(1) by (auto simp: ball_Un)
  qed
qed

lemma history_predict:
  assumes "consts_fit r" and "update_replaces upd" and "sys_history powf upd dq idle r log y"
  shows "mlfq_tree_predict (sd_kernel (sy_sched y)) f = predict (current log) f"
proof -
  have inv: "sys_inv powf upd dq idle r y" by (rule sys_reachable_inv [OF assms(1) history_reachable [OF assms(3)]])
  have s: "in_store log (sy_daemon y)" using history_holds [OF assms] by (simp add: history_inv_def)
  have k: "sd_kernel (sy_sched y) = kern (sy_daemon y)" using inv by (simp add: sys_inv_def)
  show ?thesis
  proof (cases "log = []")
    case True
    then have "generation (model (sy_daemon y)) = 0" using s by (simp add: in_store_def unat_eq_0)
    moreover have "daemon_inv (sy_daemon y)" using inv unfolding sys_inv_def by (blast intro: reachable_inv [OF assms(2)])
    ultimately have "ctrl_meta (kern (sy_daemon y)) = 0" by (simp add: daemon_inv_def committed_def)
    then show ?thesis by (simp add: k True untrained_predicts_zero current_def predict_def)
  next
    case False
    then show ?thesis using s by (simp add: k in_store_def current_def holds_tree_predict)
  qed
qed

end
