(* ===== verification/SystemOk.thy ===== *)
theory SystemOk
  imports History
begin

text \<open>
  What holds of the daemon and the program together in every reachable state, and a run in
  which a sample goes from the program to the daemon.
\<close>

section \<open>The system\<close>

text \<open>
  C2. Whatever the daemon trains on was measured by the program: in every reachable state of the
  system the training window followed by the samples in the channel is a subsequence of the
  samples the program emitted, and so is every queued job. Each of them has the current version, a
  label within the cap and features within the ranges the fit assumes.
\<close>

theorem training_data_integrity:
  assumes "consts_fit r" and "sys_reachable powf upd dq idle r y"
  shows "let d = sy_daemon y; emitted = sd_samples (sy_sched y)
    in subseq (window (dwin d) @ sample_chan d) emitted \<and> list_all (\<lambda>j. subseq j emitted) (job_chan d)
     \<and> list_all (\<lambda>m. sample_queue m \<in> {1, 2, 3} \<and> ema (feats m) \<le> mlfq_budget_max_ns r
          \<and> sq_ema (feats m) \<le> MLFQ_SQ_EMA_MAX_NS \<and> sleep_var_ratio (feats m) \<le> 1024 \<and> gpu_submit (feats m) \<le> 4
          \<and> label_ns m \<le> MLFQ_TREE_LABEL_MAX_NS \<and> version m = MLFQ_TREE_SAMPLE_VERSION)
         (window (dwin d) @ sample_chan d)"
proof -
  let ?d = "sy_daemon y" and ?e = "sd_samples (sy_sched y)"
  have inv: "fed (take (sy_read y) ?e) ?d" "list_all (sample_ok r) ?e"
    using sys_reachable_inv [OF assms] by (simp_all add: sys_inv_def)
  have "fed ?e ?d" using fed_more [OF inv(1), of "drop (sy_read y) ?e"] by simp
  then have sub: "subseq (window (dwin ?d) @ sample_chan ?d) ?e" "\<forall>j\<in>set (job_chan ?d). subseq j ?e"
    by (simp_all add: fed_def)
  have "list_all (sample_ok r) (window (dwin ?d) @ sample_chan ?d)"
    using inv(2) list_emb_set [OF sub(1)] by (fastforce simp: list_all_iff)
  then show ?thesis
    using sub by (auto simp: Let_def list_all_iff sample_ok_def sample_fit_def)
qed

text \<open>
  C5. In every reachable state of the system, and for every history of commits that leads to it, the
  generation the daemon reports is the number of trees it has committed, and the program predicts with the last
  of them (with 0 while there is none), whose size is reported too. Each committed tree validates and is the result
  of a fit on a subsequence of the samples the program emitted. A wakeup uses that prediction of its captured
  features with two exceptions: a \<open>SCHED_IDLE\<close> task is not predicted, and the value of a GPU task outside the
  CPU-bound gate is held below the CPU-bound edge.
\<close>

theorem system_predictions:
  assumes "consts_fit r" and "update_replaces upd" and "sys_reachable powf upd dq idle r y"
  shows "(\<exists>log. sys_history powf upd dq idle r log y)
    \<and> (\<forall>log. sys_history powf upd dq idle r log y \<longrightarrow>
       (let reported = get_metrics now (bss_view (sy_sched y) env) (sy_daemon y);
            nodes = current log; k = sd_kernel (sy_sched y)
        in unat (tree_model_generation reported) = length log \<and> tree_model_nodes reported = of_nat (length nodes)
         \<and> list_all (\<lambda>n. serialize_validate n = Ok () \<and> (\<exists>j sc res. subseq j (sd_samples (sy_sched y))
              \<and> fst (train_model_with_scratch powf j sc) = Ok res \<and> n = tr_tree res)) log
         \<and> (\<forall>f. mlfq_tree_predict k f = predict nodes f)
         \<and> (\<forall>a p slept t. fst (wake_predict r a k p slept t) =
              (let v = (if ts_policy p = MLFQ_SCHED_IDLE then 0
                        else predict nodes (capture_feats slept (ts_in_iowait p) t))
               in if as_t_bnd_eff_ns a \<le> v \<and> 0 < tc_gpu_submit t
                    \<and> slept \<le> mlfq_short_sleep_ns r \<and> tc_prev_burst_ns t \<le> as_t_h_eff_ns a
                  then as_t_bnd_eff_ns a - 1 else v))))"
proof (intro conjI allI impI)
  show "\<exists>log. sys_history powf upd dq idle r log y" by (rule reachable_history [OF assms(3)])
next
  fix log
  assume h: "sys_history powf upd dq idle r log y"
  note inv = history_holds [OF assms(1,2) h] and predict = history_predict [OF assms(1,2) h]
  have m: "unat (generation (model (sy_daemon y))) = length log" "nr_nodes (model (sy_daemon y)) = length (current log)"
    using inv by (simp_all add: history_inv_def in_store_def)
  have l: "list_all (\<lambda>n. serialize_validate n = Ok () \<and> (\<exists>j sc res. subseq j (sd_samples (sy_sched y))
      \<and> fst (train_model_with_scratch powf j sc) = Ok res \<and> n = tr_tree res)) log"
    using inv unfolding history_inv_def list_all_iff learned_def validate_ok_wf by blast
  have "tree_model_generation (get_metrics now e d) = generation (model d)"
    "tree_model_nodes (get_metrics now e d) = of_nat (nr_nodes (model d))" for e d
    by (simp_all add: get_metrics_def Let_def)
  then show "let reported = get_metrics now (bss_view (sy_sched y) env) (sy_daemon y);
            nodes = current log; k = sd_kernel (sy_sched y)
        in unat (tree_model_generation reported) = length log \<and> tree_model_nodes reported = of_nat (length nodes)
         \<and> list_all (\<lambda>n. serialize_validate n = Ok () \<and> (\<exists>j sc res. subseq j (sd_samples (sy_sched y))
              \<and> fst (train_model_with_scratch powf j sc) = Ok res \<and> n = tr_tree res)) log
         \<and> (\<forall>f. mlfq_tree_predict k f = predict nodes f)
         \<and> (\<forall>a p slept t. fst (wake_predict r a k p slept t) =
              (let v = (if ts_policy p = MLFQ_SCHED_IDLE then 0
                        else predict nodes (capture_feats slept (ts_in_iowait p) t))
               in if as_t_bnd_eff_ns a \<le> v \<and> 0 < tc_gpu_submit t
                    \<and> slept \<le> mlfq_short_sleep_ns r \<and> tc_prev_burst_ns t \<le> as_t_h_eff_ns a
                  then as_t_bnd_eff_ns a - 1 else v))"
    using m l predict by (simp add: Let_def) (auto simp: wake_predict_def arm_sample_def not_less Let_def)
qed

text \<open>
  C7. In every reachable state of the system the page shows, per queue and per cache domain, how many
  tasks are accounted there, and the histograms and the wakeup total are the sums of what every
  CPU charged.
\<close>

theorem reports_are_counts:
  assumes "consts_fit r" and "sys_reachable powf upd dq idle r y"
  shows "let s = sy_sched y; w = fst (get_web_metrics now (bss_view s env) (sy_daemon y) ws);
      accounted = (\<lambda>f. {p. case sd_tasks s p of None \<Rightarrow> False | Some t \<Rightarrow> owned t \<and> f t});
      cpus = {..<min (sd_nr_cpu_ids s) MLFQ_MAX_CPUS}
    in list_all (\<lambda>q. wm_queue_runnable w ! q = ucast (of_nat (card (accounted (\<lambda>t. unat (tc_last_qid t) = q))) :: u32)) [1..<4]
     \<and> list_all (\<lambda>l. wm_llc_runnable w ! l = ucast (of_nat (card (accounted (\<lambda>t. unat (tc_last_llc t) = l))) :: u32)) [0..<32]
     \<and> op_lat (wm_stats w) = map (\<lambda>j. \<Sum>cpu\<in>cpus. sd_op_lat s cpu (j div 8) (j mod 8)) [0..<32]
     \<and> wakeup_total (wm_stats w) = (\<Sum>cpu\<in>cpus. wk_total (ad_wakeups (sd_adapt s) cpu))"
proof -
  let ?s = "sy_sched y"
  have "sched_reachable dq idle r ?s"
    using sys_reachable_inv [OF assms] by (simp add: sys_inv_def)
  note g = runnable_counts [OF assms(1) this]
  show ?thesis
    using g reported_op_lat [of now ?s env] reported_wakeups [of now ?s env]
    by (simp add: Let_def get_web_metrics_def read_queue_runnable_def read_llc_runnable_def bss_view_def
        list_all_iff const_defs)
qed

section \<open>A run\<close>

interpretation last_sample: untouched sd_sample_last_at
  by unfold_locales simp_all

lemma wakeup_pend:
  assumes "ts_policy p \<noteq> MLFQ_SCHED_IDLE"
  shows "tc_pending_valid (fst (mlfq_wakeup_classify r a k p now (t, st))) = 1
    \<and> tc_last_sample_at (fst (mlfq_wakeup_classify r a k p now (t, st))) = tc_last_sample_at t"
proof -
  have "pend (fst (mlfq_wakeup_classify r a k p now (t, st)))
      = pend (arm_sample (fst (wake_decay r now t)) (ts_in_iowait p) (snd (wake_decay r now t)))"
    using assms by (simp add: mlfq_wakeup_classify_def case_prod_beta Let_def wake_predict_def)
  then show ?thesis by (simp add: pend_def arm_sample_def wake_decay_def Let_def)
qed

lemma enqueue_arms:
  assumes "sd_tasks s (ts_pid p) = Some t" and "SCX_ENQ_WAKEUP \<in> set flags"
    and "ts_policy p \<noteq> MLFQ_SCHED_IDLE" and "ts_weight p \<noteq> 0"
  shows "\<exists>u. sd_tasks (mlfq_enqueue r cb p flags s) (ts_pid p) = Some u
    \<and> tc_pending_valid u = 1 \<and> tc_last_sample_at u = tc_last_sample_at t"
proof -
  define x where "x = enq_decide r cb p flags (t, s)"
  define y where "y = (if mlfq_task_is_migration_disabled p then enq_pinned r cb p flags x else enq_movable r cb p flags x)"
  have "pend (fst x) = pend (fst (mlfq_wakeup_classify r (ad_state (sd_adapt s)) (sd_kernel s) p (cb_now cb)
      (t\<lparr>tc_weight := ts_weight p\<rparr>, sd_stats s)))"
    using assms(2) by (simp add: x_def enq_decide_def enq_classify_def case_prod_beta)
  then have "tc_pending_valid (fst y) = 1" "tc_last_sample_at (fst y) = tc_last_sample_at t"
    using wakeup_pend [OF assms(3), of r "ad_state (sd_adapt s)" "sd_kernel s" "cb_now cb" "t\<lparr>tc_weight := ts_weight p\<rparr>" "sd_stats s"]
      pend_branches(1,2) [of r cb p flags x]
    unfolding y_def pend_def by auto
  moreover have "sd_tasks (mlfq_enqueue r cb p flags s) (ts_pid p) = Some (fst y)"
    using assms(1,4) by (simp add: mlfq_enqueue_def enq_task_def x_def [symmetric] y_def [symmetric] case_prod_beta Let_def
        set_task_def)
  ultimately show ?thesis by blast
qed

lemma running_stores:
  assumes "sd_tasks s (ts_pid p) = Some t"
  shows "\<exists>u. sd_tasks (mlfq_running r cb p s) (ts_pid p) = Some u \<and> pend u = pend t \<and> tc_last_run_at u = cb_now cb"
proof -
  have "tc_last_run_at (fst (measure_wait r now x)) = tc_last_run_at (fst x)" for now x
    by (simp add: measure_wait_def case_prod_beta Let_def)
  then show ?thesis
    using assms by (simp add: mlfq_running_def Let_def case_prod_beta set_task_def)
qed

lemma charge_emits:
  assumes "tc_pending_valid t \<noteq> 0" and "tc_last_sample_at t = 0" and "sd_sample_last_at s = 0"
    and "cb_wins_sample cb" and "cb_reserve cb"
  shows "\<exists>m. sd_samples (snd (charge_run r cb p False d (t, s))) = sd_samples s @ [m]"
  using assms
  by (simp add: charge_run_def emit_sample_def Let_def mlfq_ema_climb_task_def mlfq_update_vruntime_def
      split: option.split)

lemma stopping_emits:
  assumes t: "sd_tasks s (ts_pid p) = Some t" and "tc_pending_valid t \<noteq> 0" and "tc_last_sample_at t = 0"
    and "sd_sample_last_at s = 0" and "cb_wins_sample cb" and "cb_reserve cb"
    and ran: "tc_last_run_at t \<noteq> 0" "mlfq_time_before (tc_last_run_at t) (cb_now cb)"
  shows "\<exists>m. sd_samples (mlfq_stopping r cb p False s) = sd_samples s @ [m]"
proof -
  define d where "d = cb_now cb - tc_last_run_at t"
  define x where "x = charge_run r cb p False d (t\<lparr>tc_last_run_at := 0\<rparr>, maybe_adapt r cb s)"
  have d: "(if tc_last_run_at t \<noteq> 0 \<and> mlfq_time_before (tc_last_run_at t) (cb_now cb)
      then cb_now cb - tc_last_run_at t else 0) = d" "d \<noteq> 0"
    using ran by (auto simp: d_def)
  have "sd_samples (mlfq_stopping r cb p False s) = sd_samples (snd x)"
    unfolding mlfq_stopping_def Let_def copies.helpers t option.case d(1) case_prod_beta if_P [OF d(2)] x_def [symmetric]
    by (simp split: option.split)
  moreover obtain m where "sd_samples (snd x) = sd_samples (maybe_adapt r cb s) @ [m]"
    using charge_emits [of "t\<lparr>tc_last_run_at := 0\<rparr>" "maybe_adapt r cb s" cb r p d] assms by (auto simp: x_def)
  ultimately show ?thesis by simp
qed

text \<open>The task of the run of \<open>SchedOk\<close> runs for a microsecond and blocks; the daemon reads its sample.\<close>

definition run_stopped :: "tree_map \<Rightarrow> sched" where
  "run_stopped m = mlfq_stopping rodata_declared (example_cb\<lparr>cb_now := 2000\<rparr>) example_p False
     (mlfq_running rodata_declared example_cb example_p (run_enqueued m))"

definition run_system :: "tree_map \<Rightarrow> system" where
  "run_system m = \<lparr>sy_daemon = rb_callback (sample_bytes (sd_samples (run_stopped m) ! 0)) (daemon_init m),
     sy_sched = run_stopped m, sy_read = 1\<rparr>"

lemma run_emits: "\<exists>x. sd_samples (run_stopped m) = [x]"
proof -
  have i: "sd_samples (run_enqueued m) = []" "sd_sample_last_at (run_enqueued m) = 0"
  proof -
    have "sd_sample_last_at (snd (init_slices r keys z)) = sd_sample_last_at z" for r keys z
      by (induction keys arbitrary: z) (simp_all split: option.split)
    then have "sd_sample_last_at (run_start m) = 0"
      by (simp add: run_start_def mlfq_init_def Let_def case_prod_beta init_fail_def add_call_def sched_zero_def
          split: option.split del: init_slices.simps)
    then show "sd_samples (run_enqueued m) = []" "sd_sample_last_at (run_enqueued m) = 0"
      using init_out(2) [OF start_returns]
      by (simp_all add: run_enqueued_def samples.enqueue_same samples.life_same last_sample.enqueue_same
          last_sample.life_same)
  qed
  let ?z = "mlfq_reset_task_ctx example_p 1000 task_ctx_zero"
  have "sd_tasks (snd (mlfq_init_task example_cb example_p (run_start m))) (ts_pid example_p) = Some ?z"
    by (simp add: mlfq_init_task_def start_tasks set_task_def example_cb_def)
  moreover have "SCX_ENQ_WAKEUP \<in> set [SCX_ENQ_WAKEUP]" "ts_policy example_p \<noteq> MLFQ_SCHED_IDLE" "ts_weight example_p \<noteq> 0"
    by (simp_all add: example_p_def const_defs)
  moreover have "tc_last_sample_at ?z = 0"
    by (simp add: mlfq_reset_task_ctx_def mlfq_reset_classification_def task_ctx_zero_def)
  ultimately obtain t where t: "sd_tasks (run_enqueued m) (ts_pid example_p) = Some t"
      "tc_pending_valid t = 1" "tc_last_sample_at t = 0"
    using enqueue_arms unfolding run_enqueued_def by metis
  from running_stores [OF t(1), of rodata_declared example_cb] obtain u where
    u: "sd_tasks (mlfq_running rodata_declared example_cb example_p (run_enqueued m)) (ts_pid example_p) = Some u"
      "pend u = pend t" "tc_last_run_at u = 1000"
    by (auto simp: example_cb_def)
  have "\<exists>x. sd_samples (run_stopped m)
      = sd_samples (mlfq_running rodata_declared example_cb example_p (run_enqueued m)) @ [x]"
    unfolding run_stopped_def using u(2,3) t(2,3) i(2)
    by (intro stopping_emits [OF u(1)])
      (simp_all add: pend_def last_sample.life_same example_cb_def mlfq_time_before_def)
  then show ?thesis using i(1) by (simp add: samples.life_same)
qed

lemma run_system_reachable:
  "sys_reachable (\<lambda>x y. x) array_update example_dq example_idle rodata_declared (run_system m)"
proof -
  let ?step = "sys_step (\<lambda>x y. x) array_update example_dq example_idle rodata_declared"
  let ?y = "\<lambda>s. \<lparr>sy_daemon = daemon_init m, sy_sched = s, sy_read = 0\<rparr>"
  have step: "?step\<^sup>*\<^sup>* (?y (run_start m)) (?y s')"
    if "?step\<^sup>*\<^sup>* (?y (run_start m)) (?y s)" "sched_step example_dq example_idle rodata_declared s s'"
      "sd_kernel s' = sd_kernel s" for s s'
    using that sys_step.program [of example_dq example_idle rodata_declared "?y s" s'] by (auto intro: rtranclp.rtrancl_into_rtrancl)
  have u: "unowned (run_start m) example_p" by (simp add: unowned_def start_tasks)
  let ?i = "snd (mlfq_init_task example_cb example_p (run_start m))"
  have 1: "?step\<^sup>*\<^sup>* (?y (run_start m)) (?y ?i)"
    by (rule step [OF _ sched_step.init_task [OF u]]) (simp_all add: published.life_same)
  have 2: "?step\<^sup>*\<^sup>* (?y (run_start m)) (?y (run_enqueued m))"
    unfolding run_enqueued_def by (rule step [OF 1 sched_step.enqueue]) (simp add: published.enqueue_same)
  have 3: "?step\<^sup>*\<^sup>* (?y (run_start m)) (?y (mlfq_running rodata_declared example_cb example_p (run_enqueued m)))"
    by (rule step [OF 2 sched_step.running]) (simp add: published.life_same)
  have "?step\<^sup>*\<^sup>* (?y (run_start m)) (?y (run_stopped m))"
    unfolding run_stopped_def
  proof (rule step [OF 3 sched_step.stopping])
    have "sys_reachable (\<lambda>x y. x) array_update example_dq example_idle rodata_declared
        (?y (mlfq_running rodata_declared example_cb example_p (run_enqueued m)))"
      using 3 sys_start.started [OF start_returns] unfolding sys_reachable_def by blast
    then have "pend_inv rodata_declared (mlfq_running rodata_declared example_cb example_p (run_enqueued m))"
      using sys_reachable_inv [OF declared_fit] by (fastforce simp: sys_inv_def)
    then show "sd_kernel (mlfq_stopping rodata_declared (example_cb\<lparr>cb_now := 2000\<rparr>) example_p False
          (mlfq_running rodata_declared example_cb example_p (run_enqueued m)))
        = sd_kernel (mlfq_running rodata_declared example_cb example_p (run_enqueued m))"
      by (simp add: stopping_out)
  qed
  moreover have "?step (?y (run_stopped m)) (run_system m)"
    using sys_step.consume [of "?y (run_stopped m)"] run_emits [of m] by (auto simp: run_system_def)
  ultimately show ?thesis
    using sys_start.started [OF start_returns] unfolding sys_reachable_def
    by (blast intro: rtranclp.rtrancl_into_rtrancl)
qed

section \<open>The theorems on the run\<close>

theorem training_data_integrity_witness:
  "\<forall>m. \<exists>x. sd_samples (sy_sched (run_system m)) = [x]
    \<and> subseq (window (dwin (sy_daemon (run_system m))) @ sample_chan (sy_daemon (run_system m))) [x]"
proof
  fix m
  obtain x where "sd_samples (run_stopped m) = [x]" using run_emits by blast
  then have x: "sd_samples (sy_sched (run_system m)) = [x]" by (simp add: run_system_def)
  from training_data_integrity [OF declared_fit run_system_reachable [of m]]
  show "\<exists>x. sd_samples (sy_sched (run_system m)) = [x]
    \<and> subseq (window (dwin (sy_daemon (run_system m))) @ sample_chan (sy_daemon (run_system m))) [x]"
    unfolding Let_def x by blast
qed

theorem system_predictions_witness:
  "\<forall>m now env. \<exists>log. sys_history (\<lambda>x y. x) array_update example_dq example_idle rodata_declared log (run_system m)
    \<and> unat (tree_model_generation (get_metrics now (bss_view (run_stopped m) env) (sy_daemon (run_system m)))) = length log
    \<and> (\<forall>f. mlfq_tree_predict (sd_kernel (run_stopped m)) f = predict (current log) f)"
proof (intro allI)
  fix m now env
  have s: "sy_sched (run_system m) = run_stopped m" by (simp add: run_system_def)
  from system_predictions [OF declared_fit array_update_replaces run_system_reachable [of m], of now env]
  show "\<exists>log. sys_history (\<lambda>x y. x) array_update example_dq example_idle rodata_declared log (run_system m)
    \<and> unat (tree_model_generation (get_metrics now (bss_view (run_stopped m) env) (sy_daemon (run_system m)))) = length log
    \<and> (\<forall>f. mlfq_tree_predict (sd_kernel (run_stopped m)) f = predict (current log) f)"
    unfolding Let_def s by blast
qed

theorem reports_are_counts_witness:
  "\<forall>m now env ws. wm_queue_runnable (fst (get_web_metrics now (bss_view (run_stopped m) env) (sy_daemon (run_system m)) ws)) ! 2
    = ucast (of_nat (card {p. case sd_tasks (run_stopped m) p of None \<Rightarrow> False
        | Some t \<Rightarrow> owned t \<and> unat (tc_last_qid t) = 2}) :: u32)"
proof (intro allI)
  fix m now env ws
  have s: "sy_sched (run_system m) = run_stopped m" by (simp add: run_system_def)
  from reports_are_counts [OF declared_fit run_system_reachable [of m], of now env ws]
  show "wm_queue_runnable (fst (get_web_metrics now (bss_view (run_stopped m) env) (sy_daemon (run_system m)) ws)) ! 2
    = ucast (of_nat (card {p. case sd_tasks (run_stopped m) p of None \<Rightarrow> False
        | Some t \<Rightarrow> owned t \<and> unat (tc_last_qid t) = 2}) :: u32)"
    by (simp add: Let_def list_all_iff s)
qed

end
