(* ===== verification/Spec2Isabelle.thy ===== *)
theory Spec2Isabelle
  imports TreeFitOk PublishRace TopoTables WebHttp Lifecycle ConfigText AllocCount Build RunLoop SchedExamples PriorityRuns SystemOk
begin

text \<open>
  A verification development of \<open>scx_mlfq\<close>, a multilevel-feedback-queue scheduler for sched_ext: the
  userspace daemon (the Rust files below \<open>src/scx/src\<close>) and the BPF program it loads (the C
  files below \<open>src/scx/src/bpf\<close>). The daemon writes validated
  constants and the topology into the BPF object before it is loaded, fills maps after that,
  collects samples of task behaviour from a ring buffer, fits a regression tree on a worker
  thread, and publishes the tree to the BPF side, which walks it on every wakeup. Beside this it
  reports statistics, serves a small web page and ends in order when it is told to. The BPF program
  keeps every task in one of three queues, by a gauge of its CPU use and by the tree, places it in
  the queue of a CPU by a virtual deadline, and serves, steals and preempts at the kernel's callbacks.

  The parts, their theories and the code they model:

  \<^item> Shared vocabulary. \<open>Prelude\<close> has the integer types (words of the width of the code, with
    their wrap-around) and results as sums; \<open>Intf\<close> the constants of \<open>bpf/intf.h\<close> and the
    read-only data; \<open>F64\<close> an executable binary64 arithmetic with the comparisons the
    tree code uses (the locale \<open>float_cmp\<close> is what the split search needs of them); \<open>Decimal\<close>
    printing, parsing and splitting of ASCII text; \<open>ArrayMap\<close> BPF array maps, whose update is
    a parameter that can fail (the locale \<open>array_map\<close>).
  \<^item> \<open>Config\<close>, \<open>ConfigText\<close>: \<open>config.rs\<close>. \<open>validate\<close> accepts exactly the documented
    invariants, \<open>apply\<close> writes what the BPF side reads, the log line is unambiguous.
  \<^item> The tree (\<open>mlfq_tree.rs\<close>). \<open>Tree\<close> has the nodes, samples and features; \<open>TreeWalk\<close> the
    walk of \<open>predict\<close>, the walk of the BPF side (\<open>mlfq_tree_walk\<close> of \<open>intf.h\<close>) and
    \<open>serialize_validate\<close>; \<open>TreeFit\<close> the fit with its scratch arena. \<open>TreeValid\<close> characterises
    validation by paths, \<open>TreePredict\<close> relates the two walks and the leaf a vector is routed to,
    \<open>TreeSplit\<close> shows that the split search returns the first best candidate, \<open>TreeGrow\<close> and
    \<open>TreeFitOk\<close> that every fit passes validation and predicts leaf means. \<open>TreeMetrics\<close>
    has the holdout metrics and the publish gate.
  \<^item> The tree daemon (\<open>main.rs\<close>). \<open>Window\<close> is the training window with its per-pid cap (the
    locale \<open>pid_accounting\<close>), \<open>Bytes\<close> the byte layouts of samples and of the tree store, \<open>Train\<close>
    one training run, \<open>Publish\<close> the publish of a tree into the inactive map entry and the
    commit of the meta word. \<open>Daemon\<close> puts them together as a step relation in which callback, main loop
    and worker interleave; its invariant says that the committed model and the kernel side belong together.
    \<open>PublishRace\<close> refines a publish to node copies that interleave with a BPF reader, and \<open>Rounds\<close>
    composes the round of the run loop from the steps, with the worker on a schedule beside it, and shows that the
    training pipeline drains.
    \<open>RunLoop\<close> is the whole loop, with its requests, its errors and the final drain, after which a fit the worker
    has not handed over is dropped.
  \<^item> The topology (\<open>topology.rs\<close>). \<open>TopoPlan\<close> has the pure plans, bitmaps and lists, \<open>TopoOk\<close> what they
    contain; \<open>TopoInit\<close> reads the host (a parameter) and writes the read-only data and the
    maps; \<open>TopoTables\<close> shows that the tables keep the shape the BPF side indexes by.
  \<^item> \<open>Startup\<close>: \<open>Scheduler::init\<close> of \<open>main.rs\<close>, from the constants to the running threads, with every error
    exit between them.
  \<^item> \<open>Stats\<close> (\<open>stats.rs\<close>) and \<open>Snapshot\<close> (the readers in \<open>main.rs\<close>): metrics, deltas, sessions, the sums over
    the per-CPU maps and the snapshot of the web UI.
  \<^item> The web UI (\<open>webui.rs\<close>). \<open>WebHttp\<close> has both front ends and an HTTP client that reads
    the answers back, \<open>WebChannel\<close> the bounded metrics channel, \<open>WebSandbox\<close> the choice of the listener and the
    drop-in that lifts the sandbox of the loader.
  \<^item> \<open>Lifecycle\<close>: \<open>main\<close>, the restart loop, the join of the web UI thread and the restore, as a step relation of
    two threads and their environment; its bound on the steps after the flag counts the restarts the kernel still asks for.
  \<^item> \<open>AllocCount\<close> (\<open>alloc.rs\<close>) and \<open>Build\<close> (\<open>build.rs\<close>).

  \<^item> The functions of the BPF program that decide (\<open>intf.h\<close>, \<open>vtime.bpf.c\<close>, \<open>classify.bpf.c\<close>, parts of
    \<open>main.bpf.c\<close>). \<open>BssState\<close> has the statistics and per-CPU state, \<open>TaskCtx\<close> the storage of a task
    and its reset. \<open>Gauge\<close> has the fixed-point gauges and shows that no intermediate product overflows and that
    every gauge stays within its bound; \<open>Vtime\<close> the placement by virtual time, with the bound on the lag;
    \<open>Adapt\<close> the adaptation of the band edges, whose invariant keeps them at their seeds or ordered between
    their floors and ceilings; \<open>Classify\<close> the queue
    decision at wakeups and run-outs, with what moves a task up and down; \<open>Runnable\<close> the
    runnable gauges, exact for the accounted tasks, and the steering by them.
  \<^item> The callbacks of the BPF program. \<open>SchedState\<close> has the whole state (maps and globals, and the list of
    calls made to the kernel) and the shared helpers; \<open>SelectCpu\<close> (\<open>select_cpu.bpf.c\<close>), \<open>Enqueue\<close>
    (\<open>enqueue.bpf.c\<close>), \<open>Dispatch\<close> (\<open>dispatch.bpf.c\<close>), \<open>TaskLife\<close> (\<open>lifecycle.bpf.c\<close>, \<open>rtdl.bpf.c\<close>) and
    \<open>SchedInit\<close> (\<open>mlfq_init\<close>) the callbacks. \<open>Sched\<close> is the step relation of all of them, with the locale
    \<open>inductive_invariant\<close> for runs, interpreted on the invariant of \<open>SchedInv\<close> and \<open>SchedSafe\<close>, and
    \<open>Clocks\<close> on the queues. \<open>EnqueueOk\<close> shows that an enqueue inserts its task once, into the dispatch queue of its stored queue number on a CPU of its
    affinity, the CPU it is pinned to, or the enqueueing CPU, and when it preempts;
    \<open>SchedOk\<close> has what holds in every reachable state, from the object the front-end started on. \<open>Priority\<close>
    follows the queue of one task through whole runs: every other step leaves it alone, and
    the count of run-outs is bounded by the run-outs in a row; so it has how a task loses and gains priority,
    that a CPU-bound one sinks, and what a preemption needs. \<open>SchedExamples\<close> and \<open>PriorityRuns\<close>
    have concrete runs. \<open>Frame\<close> says once, in the locales \<open>bystander\<close> and
    \<open>untouched\<close>, which parts of the state the helpers and the callbacks leave alone.
  \<^item> Daemon and program together. \<open>Pending\<close> follows a training sample from its capture to its emission;
    \<open>System\<close> composes both step relations over the tree, the ring buffer and the maps they share;
    \<open>Reports\<close> is what the daemon reads of the maps; \<open>History\<close> keeps the list of the trees the daemon has committed
    in a run. \<open>SystemOk\<close> shows that the daemon trains only on
    what the program measured, that the program predicts with the tree committed last, whose generation and size
    the daemon reports, and that the reports are the counts of the program. The tree store
    and its control word are one memory; both records of the composition have it, and a step of the
    daemon that writes it shows in both.

  How the model follows the code. A struct is a record and an enum a datatype; a function that returns
  \<open>Result\<close> returns a sum with the error on the left; \<open>usize\<close> lengths are natural numbers, and
  everything that is cast, masked, shifted or stored keeps its width. Loops over data are recursive
  functions. The walks have the bound the code gives them; the growth of a
  tree and the drains of the channels are functions with a termination proof, so no fuel
  is chosen anywhere. Threads are step relations with one rule per atomic action.

  Parameters. The kernel and the libraries are arguments: the map update (hypothesis \<open>update_replaces\<close>: a
  successful update replaces one entry), the load of the object (\<open>load_keeps\<close>: it puts the object
  into the kernel as it is), \<open>powf\<close>, the outcomes of the file and socket calls, \<open>serde_json\<close>,
  the host topology, the clock. For the BPF program the dispatch queues are \<open>dsq_ops\<close> (their lengths,
  heads and moves), the idle marks \<open>idle_ops\<close> (hypothesis \<open>picks_allowed\<close>: the kernel's own idle scan
  returns a CPU of the mask it was given), the creation of a queue the function \<open>create_dsq\<close>, and the
  clock, the current CPU, a failed allocation and the other answers of the kernel in a call the record \<open>callback\<close>.
  Both sets of operations act on a state of the kernel of any type, and a step may start from any of them.

  Not modelled. Of the BPF program \<open>mlfq_exit\<close>, which hands the exit record to the library, the
  self-checks under \<open>MLFQ_CHECK\<close>, which only report, and the
  helpers nothing calls (\<open>mlfq_core_of_cpu\<close>, \<open>mlfq_bitmap_set_cpu\<close>); a callback is one step, so the races
  inside two callbacks that run at once, for which the code has its atomic updates, are not seen, except
  for the walk of the tree. Of the daemon the transport of the statistics server, \<open>tiny_http\<close>, the
  discovery of the topology in \<open>scx_utils\<close>, the exit report in the log, the logger, shell completions and the
  generated bindings; the accept loop of the unix socket, whose clients are handled one by
  one here; non-ASCII white space in a request line. Memory is sequentially consistent: the steps
  of two threads interleave, and a step of one is seen by the other at once.
\<close>

section \<open>Properties that span components\<close>

text \<open>
  In every reachable state of the daemon the metrics describe the tree the BPF side predicts
  with: the reported generation is 0 exactly while the BSS control word is untrained and every
  prediction is 0, and otherwise the reported node count is the size of the validated tree that
  answers every prediction.
\<close>

theorem metrics_describe_committed_tree:
  assumes "update_replaces upd" and "reachable powf upd d"
  shows "\<exists>nodes. tree_model_nodes (get_metrics now env d) = of_nat (nr_nodes (model d))
    \<and> (if tree_model_generation (get_metrics now env d) = 0 then nodes = []
       else serialize_validate nodes = Ok ()
         \<and> tree_model_nodes (get_metrics now env d) = of_nat (length nodes))
    \<and> mlfq_tree_predict (kern d) = predict nodes"
proof -
  have "tree_model_generation (get_metrics now env d) = generation (model d)"
    "tree_model_nodes (get_metrics now env d) = of_nat (nr_nodes (model d))"
    by (simp_all add: get_metrics_def Let_def)
  with reachable_model [OF assms] show ?thesis by auto
qed

theorem metrics_describe_committed_tree_witness:
  "\<exists>nodes. mlfq_tree_predict (kern (daemon_init (\<lambda>_. []))) = predict nodes"
proof -
  have r: "reachable (\<lambda>x y. x) array_update (daemon_init (\<lambda>_. []))" by (rule reachable.init)
  from metrics_describe_committed_tree [OF array_update_replaces r] show ?thesis by blast
qed

end
